(* ===== verification/Prelude.thy ===== *)
theory Prelude
  imports Main "HOL-Library.Word" "HOL-Library.Multiset" "HOL-Library.Sublist"
begin

text \<open>
  Shared library of the development: the machine integers of the program, the
  operations of Rust's \<^verbatim>\<open>str\<close>, \<^verbatim>\<open>Vec\<close>, \<^verbatim>\<open>HashMap\<close> and
  \<^verbatim>\<open>Result\<close> that the sources use, the generic lemmas about them, and three
  interfaces that several components rely on (tables ordered by priority, per-key
  counters, first-seen de-duplication).

  Strings are lists of bytes (UTF-8).  Case mapping and trimming are written out for the
  ASCII range, which is the range of HTTP tokens, protocol names and white space in the
  data the program applies them to; bytes from 128 on are left alone.
\<close>

named_theorems str_simps \<open>rewriting of string operations\<close>
named_theorems res_simps \<open>rewriting of results\<close>

section \<open>Machine integers\<close>

type_synonym u16 = "16 word"
type_synonym u32 = "32 word"
type_synonym u64 = "64 word"

text \<open>\<^verbatim>\<open>usize\<close> on the 64-bit targets the program is built for.\<close>

type_synonym usize = "64 word"

section \<open>Results\<close>

text \<open>\<^verbatim>\<open>Result<T, E>\<close> is \<open>'e + 'a\<close>; \<open>res_bind\<close> is the
  \<^verbatim>\<open>?\<close> operator.\<close>

definition res_bind :: "'e + 'a \<Rightarrow> ('a \<Rightarrow> 'e + 'b) \<Rightarrow> 'e + 'b" where
  "res_bind r f = (case r of Inl e \<Rightarrow> Inl e | Inr x \<Rightarrow> f x)"

lemma res_bind_simps [simp, res_simps]:
  "res_bind (Inl e) f = Inl e"
  "res_bind (Inr x) f = f x"
  by (simp_all add: res_bind_def)

lemma res_bind_Inr_iff [res_simps]:
  "res_bind r f = Inr y \<longleftrightarrow> (\<exists>x. r = Inr x \<and> f x = Inr y)"
  by (cases r) auto

lemma res_bind_Inl_iff [res_simps]:
  "res_bind r f = Inl e \<longleftrightarrow> r = Inl e \<or> (\<exists>x. r = Inr x \<and> f x = Inl e)"
  by (cases r) auto

text \<open>\<^verbatim>\<open>iter.map(f).collect::<Result<Vec<_>, _>>()\<close>: stops at the first error.\<close>

fun try_map :: "('a \<Rightarrow> 'e + 'b) \<Rightarrow> 'a list \<Rightarrow> 'e + 'b list" where
  "try_map f [] = Inr []"
| "try_map f (x # xs) = res_bind (f x) (\<lambda>y. res_bind (try_map f xs) (\<lambda>ys. Inr (y # ys)))"

lemma try_map_Inr_iff: "try_map f xs = Inr ys \<longleftrightarrow> list_all2 (\<lambda>x y. f x = Inr y) xs ys"
  by (induction xs arbitrary: ys)
     (auto simp: list_all2_Cons1 res_simps)

lemma try_map_Inl_iff:
  "try_map f xs = Inl e \<longleftrightarrow>
     (\<exists>us x vs. xs = us @ x # vs \<and> (\<forall>u\<in>set us. \<exists>y. f u = Inr y) \<and> f x = Inl e)"
proof (induction xs)
  case Nil
  then show ?case by simp
next
  case (Cons x xs)
  show ?case
  proof (cases "f x")
    case (Inl a)
    then show ?thesis by (fastforce simp: Cons_eq_append_conv)
  next
    case (Inr b)
    have "try_map f (x # xs) = Inl e \<longleftrightarrow> try_map f xs = Inl e"
      using Inr by (cases "try_map f xs") auto
    also have "\<dots> \<longleftrightarrow> (\<exists>us z vs. x # xs = us @ z # vs \<and> (\<forall>u\<in>set us. \<exists>y. f u = Inr y) \<and> f z = Inl e)"
      unfolding Cons.IH
    proof (intro iffI; elim exE conjE)
      fix us z vs
      assume "xs = us @ z # vs" "\<forall>u\<in>set us. \<exists>y. f u = Inr y" "f z = Inl e"
      then show "\<exists>us z vs. x # xs = us @ z # vs \<and> (\<forall>u\<in>set us. \<exists>y. f u = Inr y) \<and> f z = Inl e"
        using Inr by (intro exI [of _ "x # us"]) auto
    next
      fix us z vs
      assume "x # xs = us @ z # vs" "\<forall>u\<in>set us. \<exists>y. f u = Inr y" "f z = Inl e"
      then show "\<exists>us z vs. xs = us @ z # vs \<and> (\<forall>u\<in>set us. \<exists>y. f u = Inr y) \<and> f z = Inl e"
        using Inr by (cases us) auto
    qed
    finally show ?thesis .
  qed
qed

section \<open>Strings\<close>

definition starts_with :: "string \<Rightarrow> string \<Rightarrow> bool" where
  "starts_with s p = (take (length p) s = p)"

definition ends_with :: "string \<Rightarrow> string \<Rightarrow> bool" where
  "ends_with s p = starts_with (rev s) (rev p)"

definition strip_prefix_str :: "string \<Rightarrow> string \<Rightarrow> string option" where
  "strip_prefix_str s p = (if starts_with s p then Some (drop (length p) s) else None)"

definition trim_end_matches :: "string \<Rightarrow> char \<Rightarrow> string" where
  "trim_end_matches s c = rev (dropWhile (\<lambda>x. x = c) (rev s))"

definition is_space :: "char \<Rightarrow> bool" where
  "is_space c = (let n = (of_char c :: nat) in n = 32 \<or> (9 \<le> n \<and> n \<le> 13))"

definition trim :: "string \<Rightarrow> string" where
  "trim s = rev (dropWhile is_space (rev (dropWhile is_space s)))"

definition lower_char :: "char \<Rightarrow> char" where
  "lower_char c = (let n = (of_char c :: nat) in if 65 \<le> n \<and> n \<le> 90 then char_of (n + 32) else c)"

definition upper_char :: "char \<Rightarrow> char" where
  "upper_char c = (let n = (of_char c :: nat) in if 97 \<le> n \<and> n \<le> 122 then char_of (n - 32) else c)"

definition to_lowercase :: "string \<Rightarrow> string" where
  "to_lowercase s = map lower_char s"

definition to_uppercase :: "string \<Rightarrow> string" where
  "to_uppercase s = map upper_char s"

definition eq_ignore_ascii_case :: "string \<Rightarrow> string \<Rightarrow> bool" where
  "eq_ignore_ascii_case a b = (to_lowercase a = to_lowercase b)"

lemma starts_with_prefix [str_simps]: "starts_with s p \<longleftrightarrow> prefix p s"
  by (auto simp: starts_with_def prefix_def) (metis append_take_drop_id)

lemma starts_with_append [simp]: "starts_with (p @ s) p"
  by (simp add: starts_with_def)

lemma starts_with_trans: "starts_with a b \<Longrightarrow> starts_with b c \<Longrightarrow> starts_with a c"
  using prefix_order.trans by (auto simp: str_simps)

lemma strip_prefix_str_Some [str_simps]:
  "strip_prefix_str s p = Some r \<longleftrightarrow> s = p @ r"
  by (auto simp: strip_prefix_str_def starts_with_def) (metis append_take_drop_id)

lemma strip_prefix_str_None [str_simps]:
  "strip_prefix_str s p = None \<longleftrightarrow> \<not> prefix p s"
  by (simp add: strip_prefix_str_def str_simps)

lemma upper_lower_char: "upper_char (lower_char c) = upper_char c"
  by (simp add: upper_char_def lower_char_def Let_def)

lemma lower_upper_char: "lower_char (upper_char c) = lower_char c"
proof -
  have "(n - 32) mod 256 = n - 32" if "n \<le> 122" for n :: nat
    using that by simp
  then show ?thesis
    by (auto simp: upper_char_def lower_char_def Let_def)
qed

lemma eq_ignore_ascii_case_upper:
  "eq_ignore_ascii_case a b \<longleftrightarrow> to_uppercase a = to_uppercase b"
proof
  assume "eq_ignore_ascii_case a b"
  then have "map upper_char (map lower_char a) = map upper_char (map lower_char b)"
    by (simp add: eq_ignore_ascii_case_def to_lowercase_def)
  then show "to_uppercase a = to_uppercase b"
    by (simp add: to_uppercase_def upper_lower_char comp_def)
next
  assume "to_uppercase a = to_uppercase b"
  then have "map lower_char (map upper_char a) = map lower_char (map upper_char b)"
    by (simp add: to_uppercase_def)
  then show "eq_ignore_ascii_case a b"
    by (simp add: eq_ignore_ascii_case_def to_lowercase_def lower_upper_char comp_def)
qed

text \<open>\<^verbatim>\<open>str::to_uppercase\<close> on all characters; \<open>beyond\<close> maps those that
  are not ASCII, possibly to several ones.\<close>

definition ascii_char :: "char \<Rightarrow> bool" where
  "ascii_char c = ((of_char c :: nat) < 128)"

definition upper_with :: "(char \<Rightarrow> string) \<Rightarrow> string \<Rightarrow> string" where
  "upper_with beyond s = concat (map (\<lambda>c. if ascii_char c then [upper_char c] else beyond c) s)"

lemma upper_with_ascii: "list_all ascii_char s \<Longrightarrow> upper_with beyond s = to_uppercase s"
  by (induction s) (simp_all add: upper_with_def to_uppercase_def)

lemma upper_with_lower: "upper_with beyond (to_lowercase s) = upper_with beyond s"
proof -
  have "ascii_char (lower_char c) = ascii_char c" "\<not> ascii_char c \<Longrightarrow> lower_char c = c" for c
    by (auto simp: ascii_char_def lower_char_def Let_def)
  then show ?thesis
    by (auto simp: upper_with_def to_lowercase_def comp_def upper_lower_char intro!: arg_cong [where f = concat])
qed

lemma upper_with_case: "eq_ignore_ascii_case a b \<Longrightarrow> upper_with beyond a = upper_with beyond b"
  unfolding eq_ignore_ascii_case_def by (metis upper_with_lower)

lemma eq_ignore_ascii_case_refl [simp]: "eq_ignore_ascii_case a a"
  by (simp add: eq_ignore_ascii_case_def)

lemma eq_ignore_ascii_case_sym: "eq_ignore_ascii_case a b \<Longrightarrow> eq_ignore_ascii_case b a"
  by (simp add: eq_ignore_ascii_case_def)

lemma eq_ignore_ascii_case_trans:
  "eq_ignore_ascii_case a b \<Longrightarrow> eq_ignore_ascii_case b c \<Longrightarrow> eq_ignore_ascii_case a c"
  by (simp add: eq_ignore_ascii_case_def)

lemma lower_char_idem [simp]: "lower_char (lower_char c) = lower_char c"
  by (simp add: lower_char_def Let_def)

lemma to_lowercase_idem [simp]: "to_lowercase (to_lowercase s) = to_lowercase s"
  by (simp add: to_lowercase_def comp_def)

lemma trim_end_matches_no_suffix: "trim_end_matches s c \<noteq> [] \<Longrightarrow> last (trim_end_matches s c) \<noteq> c"
  unfolding trim_end_matches_def last_rev
  using hd_dropWhile [of "\<lambda>x. x = c" "rev s"] by (auto simp: hd_rev last_rev)

lemma trim_end_matches_append_replicate:
  "\<exists>n. s = trim_end_matches s c @ replicate n c"
proof -
  let ?t = "takeWhile (\<lambda>x. x = c) (rev s)"
  have "?t = replicate (length ?t) c"
    by (rule replicate_eqI [symmetric, THEN sym]) (auto dest: set_takeWhileD)
  moreover have "s = rev (?t @ dropWhile (\<lambda>x. x = c) (rev s))"
    by simp
  ultimately have "s = trim_end_matches s c @ replicate (length ?t) c"
    by (metis rev_append rev_replicate trim_end_matches_def)
  then show ?thesis by blast
qed

subsection \<open>Searching, splitting and replacing\<close>

text \<open>\<open>find_sub p s\<close> is \<^verbatim>\<open>s.find(p)\<close>: the text before and after the first
  occurrence of \<open>p\<close>.\<close>

fun find_sub :: "string \<Rightarrow> string \<Rightarrow> (string \<times> string) option" where
  "find_sub p [] = (if p = [] then Some ([], []) else None)"
| "find_sub p (c # s) =
     (if starts_with (c # s) p then Some ([], drop (length p) (c # s))
      else map_option (\<lambda>(a, b). (c # a, b)) (find_sub p s))"

definition contains_str :: "string \<Rightarrow> string \<Rightarrow> bool" where
  "contains_str s p = (find_sub p s \<noteq> None)"

lemma find_sub_Some: "find_sub p s = Some (a, b) \<Longrightarrow> s = a @ p @ b"
proof (induction s arbitrary: a b)
  case Nil
  then show ?case by (auto split: if_splits)
next
  case (Cons c s)
  show ?case
  proof (cases "starts_with (c # s) p")
    case True
    with Cons.prems show ?thesis
      by (auto simp: starts_with_def) (metis append_take_drop_id drop_drop)
  next
    case False
    with Cons show ?thesis by auto
  qed
qed

lemma find_sub_None_iff: "find_sub p s = None \<longleftrightarrow> (\<forall>a b. s \<noteq> a @ p @ b)"
proof (induction s)
  case Nil
  then show ?case by auto
next
  case (Cons c s)
  show ?case
  proof (cases "starts_with (c # s) p")
    case True
    then obtain r where "c # s = p @ r"
      by (auto simp: str_simps prefix_def)
    then have "\<not> (\<forall>a b. c # s \<noteq> a @ p @ b)"
      by (metis append_Nil)
    moreover have "find_sub p (c # s) \<noteq> None"
      using True by simp
    ultimately show ?thesis by blast
  next
    case False
    then have no: "c # s \<noteq> p @ b" for b
      by (metis starts_with_append)
    have "(\<forall>a b. c # s \<noteq> a @ p @ b) \<longleftrightarrow> (\<forall>a b. s \<noteq> a @ p @ b)"
    proof (intro iffI allI)
      fix a b
      assume "\<forall>a b. c # s \<noteq> a @ p @ b"
      then show "s \<noteq> a @ p @ b"
        by (metis append_Cons)
    next
      fix a b
      assume *: "\<forall>a b. s \<noteq> a @ p @ b"
      show "c # s \<noteq> a @ p @ b"
        using * no by (cases a) auto
    qed
    with False Cons.IH show ?thesis by simp
  qed
qed

lemma contains_str_iff [str_simps]: "contains_str s p \<longleftrightarrow> (\<exists>a b. s = a @ p @ b)"
  unfolding contains_str_def find_sub_None_iff by blast

text \<open>\<^verbatim>\<open>s.split_once(c)\<close> for a character.\<close>

fun split_once :: "char \<Rightarrow> string \<Rightarrow> (string \<times> string) option" where
  "split_once c [] = None"
| "split_once c (x # s) =
     (if x = c then Some ([], s) else map_option (\<lambda>(a, b). (x # a, b)) (split_once c s))"

text \<open>\<^verbatim>\<open>s.rfind(c)\<close>, as the text before and after the last occurrence.\<close>

definition rsplit_once :: "char \<Rightarrow> string \<Rightarrow> (string \<times> string) option" where
  "rsplit_once c s = map_option (\<lambda>(a, b). (rev b, rev a)) (split_once c (rev s))"

lemma split_once_Some: "split_once c s = Some (a, b) \<Longrightarrow> s = a @ c # b \<and> c \<notin> set a"
proof (induction s arbitrary: a b)
  case Nil
  then show ?case by simp
next
  case (Cons x s)
  show ?case
  proof (cases "x = c")
    case True
    with Cons.prems show ?thesis by simp
  next
    case False
    with Cons.prems obtain a' where "split_once c s = Some (a', b)" "a = x # a'"
      by auto
    with Cons.IH [of a' b] False show ?thesis by simp
  qed
qed

lemma split_once_append: "c \<notin> set a \<Longrightarrow> split_once c (a @ c # b) = Some (a, b)"
  by (induction a) auto

lemma rsplit_once_append: "c \<notin> set b \<Longrightarrow> rsplit_once c (a @ c # b) = Some (a, b)"
  by (simp add: rsplit_once_def split_once_append)

lemma rsplit_once_Some:
  assumes "rsplit_once c s = Some (a, b)"
  shows "s = a @ c # b \<and> c \<notin> set b"
proof -
  obtain x y where xy: "split_once c (rev s) = Some (x, y)" "a = rev y" "b = rev x"
    using assms by (auto simp: rsplit_once_def)
  then have "rev s = x @ c # y" "c \<notin> set x"
    using split_once_Some [of c "rev s" x y] by auto
  moreover from this have "s = rev (x @ c # y)"
    by (metis rev_rev_ident)
  ultimately show ?thesis
    using xy by simp
qed

text \<open>
  \<^verbatim>\<open>s.replace(from, to)\<close>: all non-overlapping occurrences from the left; an empty
  pattern matches around every character.  \<open>replacen1\<close> is
  \<^verbatim>\<open>s.replacen(from, to, 1)\<close>.
\<close>

function str_replace_ne :: "string \<Rightarrow> string \<Rightarrow> string \<Rightarrow> string" where
  "str_replace_ne p t s =
     (if p = [] then s
      else case find_sub p s of
             None \<Rightarrow> s
           | Some (a, b) \<Rightarrow> a @ t @ str_replace_ne p t b)"
  by pat_completeness auto
termination
  by (relation "measure (\<lambda>(p, t, s). length s)") (auto dest!: find_sub_Some)

declare str_replace_ne.simps [simp del]

definition str_replace :: "string \<Rightarrow> string \<Rightarrow> string \<Rightarrow> string" where
  "str_replace s p t =
     (if p = [] then t @ concat (map (\<lambda>c. c # t) s) else str_replace_ne p t s)"

definition replacen1 :: "string \<Rightarrow> string \<Rightarrow> string \<Rightarrow> string" where
  "replacen1 s p t = (case find_sub p s of None \<Rightarrow> s | Some (a, b) \<Rightarrow> a @ t @ b)"

lemma str_replace_absent: "p \<noteq> [] \<Longrightarrow> \<not> contains_str s p \<Longrightarrow> str_replace s p t = s"
  by (auto simp: str_replace_def str_replace_ne.simps [of p t s] contains_str_def split: option.split)

text \<open>\<^verbatim>\<open>parts.join(sep)\<close>\<close>

fun join :: "string \<Rightarrow> string list \<Rightarrow> string" where
  "join sep [] = []"
| "join sep [x] = x"
| "join sep (x # xs) = x @ sep @ join sep xs"

subsection \<open>Paths\<close>

fun split_at :: "char \<Rightarrow> string \<Rightarrow> string list" where
  "split_at c [] = [[]]"
| "split_at c (y # s) =
     (if y = c then [] # split_at c s
      else case split_at c s of [] \<Rightarrow> [[y]] | w # ws \<Rightarrow> (y # w) # ws)"

text \<open>\<^verbatim>\<open>Path::components\<close>: whether there is a root, and the components after it.  Empty
  components are skipped, and so is \<^verbatim>\<open>.\<close> except at the start of a relative
  path.  Paths are equal if their components are.\<close>

definition path_components :: "string \<Rightarrow> bool \<times> string list" where
  "path_components p =
     (let cs = split_at CHR ''/'' p
      in (starts_with p ''/'', (if hd cs = ''.'' then [''.''] else []) @ filter (\<lambda>c. c \<noteq> [] \<and> c \<noteq> ''.'') cs))"

definition same_path :: "string \<Rightarrow> string \<Rightarrow> bool" where
  "same_path p q = (path_components p = path_components q)"

definition path_absolute :: "string \<Rightarrow> bool" where
  "path_absolute p = fst (path_components p)"

lemma same_path_refl [simp]: "same_path p p"
  by (simp add: same_path_def)

lemma same_path_absolute: "same_path p q \<Longrightarrow> path_absolute p = path_absolute q"
  by (simp add: same_path_def path_absolute_def)

definition path_parent :: "string \<Rightarrow> string option" where
  "path_parent p =
     (case path_components p of
        (root, cs) \<Rightarrow> if cs = [] then None else Some ((if root then ''/'' else []) @ join ''/'' (butlast cs)))"

definition path_file_name :: "string \<Rightarrow> string option" where
  "path_file_name p =
     (case snd (path_components p) of
        [] \<Rightarrow> None
      | cs \<Rightarrow> if last cs = ''..'' \<or> last cs = ''.'' then None else Some (last cs))"

subsection \<open>Decimal numbers\<close>

definition digit_char :: "nat \<Rightarrow> char" where
  "digit_char d = char_of (48 + d)"

fun show_nat :: "nat \<Rightarrow> string" where
  "show_nat n = (if n < 10 then [digit_char n] else show_nat (n div 10) @ [digit_char (n mod 10)])"

declare show_nat.simps [simp del]

definition digit_val :: "char \<Rightarrow> nat option" where
  "digit_val c = (let n = (of_char c :: nat) in if 48 \<le> n \<and> n \<le> 57 then Some (n - 48) else None)"

fun parse_digits :: "nat \<Rightarrow> string \<Rightarrow> nat option" where
  "parse_digits acc [] = Some acc"
| "parse_digits acc (c # s) =
     (case digit_val c of None \<Rightarrow> None | Some d \<Rightarrow> parse_digits (10 * acc + d) s)"

text \<open>
  \<^verbatim>\<open>s.parse::<uN>()\<close>: an optional \<^verbatim>\<open>+\<close>, at least one digit, and a value
  below \<open>2 ^ w\<close>.
\<close>

definition parse_unsigned :: "nat \<Rightarrow> string \<Rightarrow> nat option" where
  "parse_unsigned w s =
     (let ds = (case s of c # r \<Rightarrow> if c = CHR ''+'' then r else s | [] \<Rightarrow> [])
      in if ds = [] then None
         else case parse_digits 0 ds of
                None \<Rightarrow> None
              | Some n \<Rightarrow> if n < 2 ^ w then Some n else None)"

lemma digit_val_digit_char [simp]: "d < 10 \<Longrightarrow> digit_val (digit_char d) = Some d"
  by (simp add: digit_val_def digit_char_def Let_def)

lemma parse_digits_append:
  "parse_digits a (s @ t) = (case parse_digits a s of None \<Rightarrow> None | Some b \<Rightarrow> parse_digits b t)"
  by (induction s arbitrary: a) (auto split: option.splits)

lemma show_nat_nonempty [simp]: "show_nat n \<noteq> []"
  by (subst show_nat.simps) simp

lemma parse_digits_show_nat: "parse_digits 0 (show_nat n) = Some n"
proof (induction n rule: show_nat.induct)
  case (1 n)
  show ?case
  proof (cases "n < 10")
    case True
    then show ?thesis by (subst show_nat.simps) simp
  next
    case False
    with 1 show ?thesis by (subst show_nat.simps) (simp add: parse_digits_append)
  qed
qed

lemma set_show_nat: "c \<in> set (show_nat n) \<Longrightarrow> \<exists>d<10. c = digit_char d"
proof (induction n rule: show_nat.induct)
  case (1 n)
  show ?case
  proof (cases "n < 10")
    case True
    with "1.prems" show ?thesis by (subst (asm) show_nat.simps) auto
  next
    case False
    from "1.prems" False have "c \<in> set (show_nat (n div 10)) \<or> c = digit_char (n mod 10)"
      by (subst (asm) show_nat.simps) auto
    moreover have "n mod 10 < 10" by simp
    ultimately show ?thesis
      using "1.IH" [OF False] by blast
  qed
qed

lemma digit_char_neq [simp]:
  "d < 10 \<Longrightarrow> digit_char d \<noteq> CHR '':''" "d < 10 \<Longrightarrow> digit_char d \<noteq> CHR ''+''"
  by (auto simp: digit_char_def dest!: arg_cong [where f = "of_char :: char \<Rightarrow> nat"])

lemma colon_notin_show_nat [simp]: "CHR '':'' \<notin> set (show_nat n)"
  by (metis set_show_nat digit_char_neq(1))

lemma parse_unsigned_show_nat: "n < 2 ^ w \<Longrightarrow> parse_unsigned w (show_nat n) = Some n"
proof -
  assume n: "n < 2 ^ w"
  obtain c r where s: "show_nat n = c # r"
    using show_nat_nonempty [of n] by (cases "show_nat n") auto
  then have "c \<noteq> CHR ''+''"
    using set_show_nat [of c n] by auto
  with s n show ?thesis
    using parse_digits_show_nat [of n] by (simp add: parse_unsigned_def)
qed

lemma show_nat_inject [simp]: "show_nat m = show_nat n \<longleftrightarrow> m = n"
  by (metis option.inject parse_digits_show_nat)

lemma parse_unsigned_bound: "parse_unsigned w s = Some n \<Longrightarrow> n < 2 ^ w"
  by (auto simp: parse_unsigned_def Let_def split: if_splits option.splits)

lemma host_port_inject:
  "h @ '':'' @ show_nat p = h' @ '':'' @ show_nat p' \<longleftrightarrow> h = h' \<and> p = p'"
proof
  assume eq: "h @ '':'' @ show_nat p = h' @ '':'' @ show_nat p'"
  have "rsplit_once CHR '':'' (h @ CHR '':'' # show_nat p) = Some (h, show_nat p)"
    and "rsplit_once CHR '':'' (h' @ CHR '':'' # show_nat p') = Some (h', show_nat p')"
    by (simp_all add: rsplit_once_append)
  moreover have "h @ CHR '':'' # show_nat p = h' @ CHR '':'' # show_nat p'"
    using eq by simp
  ultimately show "h = h' \<and> p = p'"
    by (metis option.inject prod.inject show_nat_inject)
qed simp

end
