(* ===== verification/Interfaces.thy ===== *)
theory Interfaces
  imports Prelude
begin

text \<open>
  The containers of the program and the contracts that more than one component relies on.

  \<^item> A \<^verbatim>\<open>HashMap\<close> read from the configuration is an association list with
    distinct keys, in the order the map iterates; look-up and equality are the map's.
  \<^item> \<open>first_seen\<close> is what a loop over \<^verbatim>\<open>HashSet::insert\<close> keeps: the merge of
    registries, the two Kubernetes flattenings, the health prober and the remediation
    outline all use it.
  \<^item> \<open>priority_table\<close> is the contract of a table that is ordered once by a priority
    and then searched from the front: routing rules, registries and plugins.
  \<^item> \<open>counter_store\<close> is the contract of a store of wrapping per-key counters: route
    hits, failure reasons and the round-robin positions.
\<close>

section \<open>Hash maps in iteration order\<close>

type_synonym ('k, 'v) hashmap = "('k \<times> 'v) list"

definition hashmap_ok :: "('k, 'v) hashmap \<Rightarrow> bool" where
  "hashmap_ok m = distinct (map fst m)"

text \<open>\<^verbatim>\<open>PartialEq\<close> of \<^verbatim>\<open>HashMap\<close>: as many entries, and every entry of the
  one is in the other.\<close>

definition hashmap_eq :: "('k, 'v) hashmap \<Rightarrow> ('k, 'v) hashmap \<Rightarrow> bool" where
  "hashmap_eq a b = (length a = length b \<and> list_all (\<lambda>(k, v). map_of b k = Some v) a)"

text \<open>\<^verbatim>\<open>m.insert(k, v)\<close>: an existing key keeps its place, a new one is appended.\<close>

fun hashmap_insert :: "'k \<Rightarrow> 'v \<Rightarrow> ('k, 'v) hashmap \<Rightarrow> ('k, 'v) hashmap" where
  "hashmap_insert k v [] = [(k, v)]"
| "hashmap_insert k v ((k', v') # m) =
     (if k' = k then (k, v) # m else (k', v') # hashmap_insert k v m)"

lemma map_of_hashmap_insert [simp]: "map_of (hashmap_insert k v m) = (map_of m)(k \<mapsto> v)"
  by (induction m) (auto simp: fun_eq_iff)

lemma fst_set_hashmap_insert: "fst ` set (hashmap_insert k v m) = insert k (fst ` set m)"
  by (induction m) force+

lemma hashmap_ok_insert: "hashmap_ok m \<Longrightarrow> hashmap_ok (hashmap_insert k v m)"
proof (induction m)
  case Nil
  then show ?case by (simp add: hashmap_ok_def)
next
  case (Cons a m)
  then show ?case
    using fst_set_hashmap_insert [of k v m]
    by (cases a) (auto simp: hashmap_ok_def)
qed

lemma hashmap_eq_map_of:
  assumes "hashmap_ok a" and "hashmap_ok b"
  shows "hashmap_eq a b \<longleftrightarrow> map_of a = map_of b"
proof
  assume eq: "hashmap_eq a b"
  then have sub: "set a \<subseteq> set b" and len: "length a = length b"
    by (auto simp: hashmap_eq_def list_all_iff dest: map_of_SomeD)
  have d: "distinct a" "distinct b"
    using assms by (auto simp: hashmap_ok_def distinct_map)
  then have "set a = set b"
    using sub len by (metis card_subset_eq distinct_card finite_set)
  with assms show "map_of a = map_of b"
    by (simp add: hashmap_ok_def map_of_inject_set)
next
  assume eq: "map_of a = map_of b"
  then have "set a = set b"
    using assms by (simp add: hashmap_ok_def map_of_inject_set)
  moreover have "distinct a" "distinct b"
    using assms by (auto simp: hashmap_ok_def distinct_map)
  ultimately have "length a = length b"
    by (metis distinct_card)
  moreover have "list_all (\<lambda>(k, v). map_of b k = Some v) a"
    using assms(1) eq [symmetric] by (auto simp: list_all_iff hashmap_ok_def)
  ultimately show "hashmap_eq a b"
    by (simp add: hashmap_eq_def)
qed

section \<open>First-seen de-duplication\<close>

text \<open>One round of \<^verbatim>\<open>if seen.insert(key(x)) { out.push(x) }\<close>.\<close>

fun push_unseen :: "('a \<Rightarrow> 'k) \<Rightarrow> 'a \<Rightarrow> 'k set \<times> 'a list \<Rightarrow> 'k set \<times> 'a list" where
  "push_unseen key x (seen, out) =
     (if key x \<in> seen then (seen, out) else (insert (key x) seen, out @ [x]))"

fun first_seen :: "('a \<Rightarrow> 'k) \<Rightarrow> 'k set \<Rightarrow> 'a list \<Rightarrow> 'a list" where
  "first_seen key S [] = []"
| "first_seen key S (x # xs) =
     (if key x \<in> S then first_seen key S xs else x # first_seen key (insert (key x) S) xs)"

lemma fold_push_unseen:
  "fold (push_unseen key) xs (S, out) = (S \<union> key ` set xs, out @ first_seen key S xs)"
  by (induction xs arbitrary: S out) (auto simp: insert_absorb)

text \<open>Nested loops of insertions are one loop over the concatenation.\<close>

lemma fold_push_concat:
  assumes "\<And>x acc. f x acc = fold (push_unseen key) (g x) acc"
  shows "fold f xs acc = fold (push_unseen key) (concat (map g xs)) acc"
  by (induction xs arbitrary: acc) (simp_all add: assms)

lemma set_first_seen_subset: "set (first_seen key S xs) \<subseteq> set xs"
proof (induction xs arbitrary: S)
  case Nil
  then show ?case by simp
next
  case (Cons x xs)
  from Cons [of S] Cons [of "insert (key x) S"] show ?case by auto
qed

lemma key_first_seen: "key ` set (first_seen key S xs) = key ` set xs - S"
  by (induction xs arbitrary: S) auto

lemma distinct_first_seen: "distinct (map key (first_seen key S xs))"
proof (induction xs arbitrary: S)
  case Nil
  then show ?case by simp
next
  case (Cons x xs)
  have "key x \<notin> key ` set (first_seen key (insert (key x) S) xs)"
    by (simp add: key_first_seen)
  with Cons show ?case by simp
qed

lemma first_seen_empty_iff: "first_seen key {} xs = [] \<longleftrightarrow> xs = []"
  by (cases xs) auto

lemma first_seen_is_first:
  "x \<in> set (first_seen key S xs) \<Longrightarrow> find (\<lambda>y. key y = key x) xs = Some x"
proof (induction xs arbitrary: S)
  case Nil
  then show ?case by simp
next
  case (Cons y xs)
  show ?case
  proof (cases "key y \<in> S")
    case True
    with Cons.prems have x: "x \<in> set (first_seen key S xs)" by simp
    then have "key x \<notin> S"
      using key_first_seen [of key S xs] by blast
    with True Cons.IH [OF x] show ?thesis by auto
  next
    case False
    show ?thesis
    proof (cases "x = y")
      case True
      then show ?thesis by simp
    next
      case xy: False
      with Cons.prems False have x: "x \<in> set (first_seen key (insert (key y) S) xs)" by simp
      then have "key x \<noteq> key y"
        using key_first_seen [of key "insert (key y) S" xs] by blast
      with Cons.IH [OF x] show ?thesis by auto
    qed
  qed
qed

lemma first_seen_distinct_id:
  "distinct (map key xs) \<Longrightarrow> key ` set xs \<inter> S = {} \<Longrightarrow> first_seen key S xs = xs"
  by (induction xs arbitrary: S) auto

lemma find_key_None: "find (\<lambda>i. key i = k) l = None \<longleftrightarrow> k \<notin> key ` set l"
  unfolding find_None_iff image_iff by blast

section \<open>Tables ordered by priority\<close>

lemma find_append: "find P (xs @ ys) = (case find P xs of None \<Rightarrow> find P ys | Some x \<Rightarrow> Some x)"
  by (induction xs) auto

lemma find_filter_eq: "find P (filter Q xs) = find (\<lambda>x. Q x \<and> P x) xs"
  by (induction xs) auto

lemma find_Some_append:
  "find P xs = Some x \<longleftrightarrow> (\<exists>us vs. xs = us @ x # vs \<and> P x \<and> (\<forall>u\<in>set us. \<not> P u))"
  by (induction xs) (auto simp: Cons_eq_append_conv split: if_splits, (metis append_Cons set_ConsD)+)

locale priority_table =
  fixes prio :: "'a \<Rightarrow> 'k :: linorder"
    and table :: "'a list \<Rightarrow> 'a list"
  assumes table_mset: "mset (table xs) = mset xs"
    and table_sorted: "sorted (map prio (table xs))"
    and table_stable: "filter (\<lambda>x. prio x = k) (table xs) = filter (\<lambda>x. prio x = k) xs"
begin

lemma table_set: "set (table xs) = set xs"
  by (metis set_mset_mset table_mset)

lemma table_length: "length (table xs) = length xs"
  by (metis size_mset table_mset)

lemma no_hit: "find P (table xs) = None \<longleftrightarrow> (\<forall>x\<in>set xs. \<not> P x)"
  by (auto simp: find_None_iff table_set)

lemma hit_member: "find P (table xs) = Some x \<Longrightarrow> x \<in> set xs \<and> P x"
  by (metis find_Some_iff nth_mem table_set)

text \<open>The first hit has the least priority of all hits, \<dots>\<close>

lemma hit_least:
  assumes "find P (table xs) = Some x" and "y \<in> set xs" and "P y"
  shows "prio x \<le> prio y"
proof -
  from assms(1) obtain us vs where t: "table xs = us @ x # vs" and us: "\<forall>u\<in>set us. \<not> P u"
    by (auto simp: find_Some_append)
  from assms(2) have "y \<in> set us \<or> y = x \<or> y \<in> set vs"
    using t table_set [of xs] by auto
  with us assms(3) have "y = x \<or> y \<in> set vs" by blast
  moreover have "sorted (map prio (us @ x # vs))"
    using table_sorted [of xs] t by simp
  ultimately show ?thesis
    by (auto simp: sorted_append)
qed

text \<open>\<dots> and among the hits of its own priority it was declared first.\<close>

lemma hit_declared_first:
  assumes "find P (table xs) = Some x"
  shows "find (\<lambda>y. prio y = prio x \<and> P y) xs = Some x"
proof -
  from assms obtain us vs where t: "table xs = us @ x # vs" and us: "\<forall>u\<in>set us. \<not> P u" and "P x"
    by (auto simp: find_Some_append)
  then have "find (\<lambda>y. prio y = prio x \<and> P y) (table xs) = Some x"
    by (auto simp: find_Some_append)
  then have "find P (filter (\<lambda>y. prio y = prio x) (table xs)) = Some x"
    by (simp add: find_filter_eq)
  then show ?thesis
    by (simp add: table_stable find_filter_eq)
qed

end

lemma sort_key_table:
  "mset (sort_key f xs) = mset xs" "sorted (map f (sort_key f xs))"
  "filter (\<lambda>x. f x = k) (sort_key f xs) = filter (\<lambda>x. f x = k) xs"
  by (simp_all add: sort_key_stable)

section \<open>Stores of wrapping counters\<close>

locale counter_store =
  fixes count :: "'m \<Rightarrow> 'k \<Rightarrow> 'w :: len word"
    and bump :: "'k \<Rightarrow> 'm \<Rightarrow> 'm"
  assumes count_bump: "count (bump k m) j = (if j = k then count m j + 1 else count m j)"
begin

lemma count_bump_same [simp]: "count (bump k m) k = count m k + 1"
  by (simp add: count_bump)

lemma count_bump_other [simp]: "j \<noteq> k \<Longrightarrow> count (bump k m) j = count m j"
  by (simp add: count_bump)

lemma count_fold_bump: "count (fold bump ks m) k = count m k + of_nat (count_list ks k)"
  by (induction ks arbitrary: m) (auto simp: count_bump)

lemma count_funpow_bump: "count ((bump k ^^ n) m) j = (if j = k then count m j + of_nat n else count m j)"
  by (induction n arbitrary: m) (auto simp: count_bump funpow_swap1)

end

end
