(* ===== verification/Model.thy ===== *)
theory Model
  imports Interfaces
begin

text \<open>
  Configuration data of \<^verbatim>\<open>config/model.rs\<close> and errors of \<^verbatim>\<open>error.rs\<close>.
  Every struct is a record (its fields prefixed where two structs share a name), every
  enum a datatype with the constructors of the source; integers keep their width.
  Values of \<^verbatim>\<open>std::io::Error\<close> and \<^verbatim>\<open>reqwest::Error\<close> are represented by
  their display text, which is all the program uses of them.
\<close>

section \<open>JSON values\<close>

text \<open>\<^verbatim>\<open>serde_json::Value\<close>; an object lists its entries in key order (the map of
  \<^verbatim>\<open>serde_json\<close> is a B-tree here), a non-integral number is kept as its text.\<close>

datatype json =
    JNull
  | JBool bool
  | JInt int
  | JFloat string
  | JStr string
  | JArr "json list"
  | JObj "(string \<times> json) list"

definition json_get :: "json \<Rightarrow> string \<Rightarrow> json option" where
  "json_get v k = (case v of JObj m \<Rightarrow> map_of m k | _ \<Rightarrow> None)"

definition json_as_str :: "json \<Rightarrow> string option" where
  "json_as_str v = (case v of JStr s \<Rightarrow> Some s | _ \<Rightarrow> None)"

definition json_as_array :: "json \<Rightarrow> json list option" where
  "json_as_array v = (case v of JArr xs \<Rightarrow> Some xs | _ \<Rightarrow> None)"

definition json_as_object :: "json \<Rightarrow> (string \<times> json) list option" where
  "json_as_object v = (case v of JObj m \<Rightarrow> Some m | _ \<Rightarrow> None)"

section \<open>Errors\<close>

datatype config_error =
    FileNotFound string
  | ReadError string
  | ParseError string
  | MissingEnvVar string
  | InvalidRegex (route_id: string) (pattern: string) (reason: string)
  | InvalidGlob (route_id: string) (pattern: string) (reason: string)
  | MissingTarget string
  | Validation string

datatype registry_error =
    RegHttp string
  | UnexpectedResponse string
  | ServiceNotFound string
  | AuthFailed
  | AllFailed string

datatype proxy_error =
    NoInstances string
  | UpstreamConnection string
  | Registry registry_error
  | WsUpgrade string
  | BodyRead string
  | PluginError string

fun show_config_error :: "config_error \<Rightarrow> string" where
  "show_config_error (FileNotFound p) = ''Config file not found: '' @ p"
| "show_config_error (ReadError e) = ''Failed to read config file: '' @ e"
| "show_config_error (ParseError e) = ''Failed to parse config YAML: '' @ e"
| "show_config_error (MissingEnvVar v) = ''Missing required environment variable: $'' @ v"
| "show_config_error (InvalidRegex r p e) =
     ''Invalid regex pattern '' @ [CHR 0x27] @ p @ [CHR 0x27] @ '' in route '' @ [CHR 0x27] @ r @ [CHR 0x27] @ '': '' @ e"
| "show_config_error (InvalidGlob r p e) =
     ''Invalid glob pattern '' @ [CHR 0x27] @ p @ [CHR 0x27] @ '' in route '' @ [CHR 0x27] @ r @ [CHR 0x27] @ '': '' @ e"
| "show_config_error (MissingTarget r) =
     ''Route '' @ [CHR 0x27] @ r @ [CHR 0x27] @ '' must specify either service_id or upstream_url''"
| "show_config_error (Validation e) = ''Validation error: '' @ e"

fun show_registry_error :: "registry_error \<Rightarrow> string" where
  "show_registry_error (RegHttp e) = ''HTTP error communicating with registry: '' @ e"
| "show_registry_error (UnexpectedResponse e) = ''Registry returned unexpected response: '' @ e"
| "show_registry_error (ServiceNotFound s) = ''Service not found in registry: '' @ s"
| "show_registry_error AuthFailed = ''Registry authentication failed''"
| "show_registry_error (AllFailed s) =
     ''All registries failed to resolve service '' @ [CHR 0x27] @ s @ [CHR 0x27]"

fun show_proxy_error :: "proxy_error \<Rightarrow> string" where
  "show_proxy_error (NoInstances s) = ''No healthy instances found for service: '' @ s"
| "show_proxy_error (UpstreamConnection e) = ''Upstream connection error: '' @ e"
| "show_proxy_error (Registry e) = ''Registry error: '' @ show_registry_error e"
| "show_proxy_error (WsUpgrade e) = ''WebSocket upgrade error: '' @ e"
| "show_proxy_error (BodyRead e) = ''Request body read error: '' @ e"
| "show_proxy_error (PluginError e) = ''Plugin error: '' @ e"

text \<open>\<^verbatim>\<open>ProxyError::into_response\<close>: status code and body text.\<close>

fun into_response :: "proxy_error \<Rightarrow> nat \<times> string" where
  "into_response (NoInstances s) = (503, show_proxy_error (NoInstances s))"
| "into_response (Registry (ServiceNotFound s)) = (404, show_proxy_error (Registry (ServiceNotFound s)))"
| "into_response e = (502, show_proxy_error e)"

section \<open>Registry configuration\<close>

record nacos_auth =
  na_username :: string
  na_password :: string
  na_token_refresh_interval_secs :: u64

record nacos_config =
  nc_priority :: u32
  nc_server_addr :: string
  nc_namespace :: "string option"
  nc_group :: "string option"
  nc_auth :: "nacos_auth option"

record basic_auth =
  ba_username :: string
  ba_password :: string

record eureka_config =
  ec_priority :: u32
  ec_server_url :: string
  ec_health_path :: string
  ec_auth :: "basic_auth option"

record k8s_auth =
  ka_token_file :: "string option"
  ka_token :: "string option"

record kubernetes_config =
  kc_priority :: u32
  kc_api_server_url :: string
  kc_namespace :: "string option"
  kc_kubeconfig_path :: "string option"
  kc_kubeconfig_context :: "string option"
  kc_insecure_skip_tls_verify :: bool
  kc_endpoint_slice_label_selector :: "string option"
  kc_auth :: "k8s_auth option"

datatype mock_health_behavior = MockHealthy | MockDegraded string | MockUnhealthy string

record mock_service_instance =
  mi_host :: string
  mi_port :: u16
  mi_metadata :: "(string, string) hashmap"

record mock_registry_config =
  mc_priority :: u32
  mc_services :: "(string, mock_service_instance list) hashmap"
  mc_error_services :: "(string, string) hashmap"
  mc_health_behavior :: mock_health_behavior

datatype registry_config =
    Nacos nacos_config
  | Eureka eureka_config
  | Kubernetes kubernetes_config
  | Mock mock_registry_config

fun registry_config_priority :: "registry_config \<Rightarrow> u32" where
  "registry_config_priority (Nacos c) = nc_priority c"
| "registry_config_priority (Eureka c) = ec_priority c"
| "registry_config_priority (Kubernetes c) = kc_priority c"
| "registry_config_priority (Mock c) = mc_priority c"

datatype registry_query_mode = Priority | Merge

record registries_config =
  query_mode :: registry_query_mode
  sources :: "registry_config list"

section \<open>Routes, plugins, health checks\<close>

datatype path_matcher = Exact string | Prefix string | Glob string | Regex string

record routing_rule =
  rule_id :: string
  rule_path :: path_matcher
  rule_methods :: "string list option"
  rule_headers :: "(string, string) hashmap option"
  rule_service_id :: "string option"
  rule_upstream_url :: "string option"
  rule_strip_prefix :: "string option"
  rule_response_headers :: "(string, string) hashmap option"
  rule_priority :: u32

record local_override_entry =
  lo_route_id :: string
  lo_upstream_url :: string

record plugin_config =
  pc_name :: string
  pc_order :: u32
  pc_enabled :: bool
  pc_config :: json

record health_check_config =
  hc_interval_secs :: u64
  hc_path :: string
  hc_timeout_secs :: u64
  hc_unhealthy_threshold :: u32
  hc_healthy_threshold :: u32

section \<open>Server and application configuration\<close>

datatype instance_selection = First | RoundRobin | Random | WeightedRoundRobin

record server_config =
  host :: string
  port :: u16
  upstream_timeout_secs :: u64
  instance_selection :: instance_selection
  max_retries :: u32
  circuit_breaker_threshold :: u32
  circuit_breaker_recovery_secs :: u64
  plugins :: "plugin_config list"
  health_check :: "health_check_config option"

record app_config =
  config_version :: string
  server :: server_config
  registries :: registries_config
  routes :: "routing_rule list"
  log_level :: string

definition default_server_config :: server_config where
  "default_server_config = \<lparr> host = ''0.0.0.0'', port = 8080, upstream_timeout_secs = 30,
     instance_selection = First, max_retries = 0, circuit_breaker_threshold = 0,
     circuit_breaker_recovery_secs = 30, plugins = [], health_check = None \<rparr>"

definition default_app_config :: app_config where
  "default_app_config = \<lparr> config_version = ''1'', server = default_server_config,
     registries = \<lparr> query_mode = Priority, sources = [] \<rparr>, routes = [], log_level = ''info'' \<rparr>"

subsection \<open>Local overrides\<close>

text \<open>\<^verbatim>\<open>routes.iter_mut().find(..)\<close>: the update of the first route that satisfies
  the test.\<close>

fun update_first :: "('a \<Rightarrow> bool) \<Rightarrow> ('a \<Rightarrow> 'a) \<Rightarrow> 'a list \<Rightarrow> 'a list" where
  "update_first P f [] = []"
| "update_first P f (x # xs) = (if P x then f x # xs else x # update_first P f xs)"

definition override_target :: "local_override_entry \<Rightarrow> routing_rule \<Rightarrow> routing_rule" where
  "override_target e r = r\<lparr> rule_upstream_url := Some (lo_upstream_url e), rule_service_id := None \<rparr>"

definition apply_override :: "local_override_entry \<Rightarrow> routing_rule list \<Rightarrow> routing_rule list" where
  "apply_override e rs = update_first (\<lambda>r. rule_id r = lo_route_id e) (override_target e) rs"

definition apply_local_overrides :: "local_override_entry list \<Rightarrow> app_config \<Rightarrow> app_config" where
  "apply_local_overrides es cfg = cfg\<lparr> routes := fold apply_override es (routes cfg) \<rparr>"

lemma rule_id_override_target [simp]: "rule_id (override_target e r) = rule_id r"
  by (simp add: override_target_def)

lemma update_first_map_inv:
  "(\<And>x. P x \<Longrightarrow> g (f x) = g x) \<Longrightarrow> map g (update_first P f xs) = map g xs"
  by (induction xs) auto

lemma map_rule_id_fold_override: "map rule_id (fold apply_override es rs) = map rule_id rs"
  by (induction es arbitrary: rs) (simp_all add: apply_override_def update_first_map_inv)

lemma update_first_distinct:
  assumes "distinct (map rule_id rs)"
  shows "update_first (\<lambda>r. rule_id r = k) f rs = map (\<lambda>r. if rule_id r = k then f r else r) rs"
  using assms
proof (induction rs)
  case Nil
  then show ?case by simp
next
  case (Cons r rs)
  then show ?case
    by (auto simp: image_iff intro!: map_idI [symmetric])
qed

text \<open>The last entry that names a route decides its target.\<close>

definition last_override :: "local_override_entry list \<Rightarrow> string \<Rightarrow> local_override_entry option" where
  "last_override es k = find (\<lambda>e. lo_route_id e = k) (rev es)"

text \<open>With distinct route ids, the overlay file replaces exactly the targets it names:
  the route order and all other fields stay, the last entry for an id wins, the named
  routes go to the given URL with no service id left, and entries for unknown ids do
  nothing.\<close>

theorem apply_local_overrides_spec:
  assumes "distinct (map rule_id (routes cfg))"
  shows "apply_local_overrides es cfg =
    cfg\<lparr> routes := map (\<lambda>r. case last_override es (rule_id r) of
                            None \<Rightarrow> r
                          | Some e \<Rightarrow> r\<lparr> rule_upstream_url := Some (lo_upstream_url e),
                                        rule_service_id := None \<rparr>) (routes cfg) \<rparr>"
proof -
  have "fold apply_override es rs =
          map (\<lambda>r. case last_override es (rule_id r) of None \<Rightarrow> r | Some e \<Rightarrow> override_target e r) rs"
    if "distinct (map rule_id rs)" for rs
  proof (induction es rule: rev_induct)
    case Nil
    show ?case by (simp add: last_override_def)
  next
    case (snoc e es)
    let ?rs = "fold apply_override es rs"
    have "distinct (map rule_id ?rs)"
      using that by (simp add: map_rule_id_fold_override)
    then have "fold apply_override (es @ [e]) rs =
        map (\<lambda>r. if rule_id r = lo_route_id e then override_target e r else r) ?rs"
      by (simp add: apply_override_def update_first_distinct)
    also have "\<dots> = map (\<lambda>r. case last_override (es @ [e]) (rule_id r) of
                              None \<Rightarrow> r | Some e \<Rightarrow> override_target e r) rs"
      unfolding snoc.IH
      by (auto simp: last_override_def override_target_def split: option.split)
    finally show ?case .
  qed
  from this [OF assms] show ?thesis
    by (simp add: apply_local_overrides_def override_target_def cong: option.case_cong)
qed

theorem apply_local_overrides_spec_witness:
  "routes (apply_local_overrides [\<lparr> lo_route_id = ''r'', lo_upstream_url = ''http://localhost'' \<rparr>]
      (default_app_config\<lparr> routes := [\<lparr> rule_id = ''r'', rule_path = Prefix ''/'', rule_methods = None,
        rule_headers = None, rule_service_id = Some ''svc'', rule_upstream_url = None, rule_strip_prefix = None,
        rule_response_headers = None, rule_priority = 100 \<rparr>] \<rparr>))
    = [\<lparr> rule_id = ''r'', rule_path = Prefix ''/'', rule_methods = None,
        rule_headers = None, rule_service_id = None, rule_upstream_url = Some ''http://localhost'',
        rule_strip_prefix = None, rule_response_headers = None, rule_priority = 100 \<rparr>]"
  by (subst apply_local_overrides_spec) (simp_all add: last_override_def)

end
