(* ===== verification/Http.thy ===== *)
theory Http
  imports Model
begin

text \<open>
  The HTTP vocabulary of the program.  What it takes from the crates \<^verbatim>\<open>glob\<close>,
  \<^verbatim>\<open>regex\<close> and \<^verbatim>\<open>http\<close> is a parameter: the record \<open>ext\<close> holds
  one function per call the sources make, and a theorem that needs more than their types
  says so in a hypothesis.  A header map is the list of its (name, value) pairs in
  iteration order, names in the normal form of \<^verbatim>\<open>HeaderName\<close>.

  The second half is \<^verbatim>\<open>proxy/http_proxy.rs\<close> and the URL part of
  \<^verbatim>\<open>proxy/ws_proxy.rs\<close>: which headers may cross the proxy, the URL of the
  upstream, and the forwarding of one request, whose exchange with the upstream is again
  a parameter.
\<close>

section \<open>External operations\<close>

record ext =
  glob_error :: "string \<Rightarrow> string option"        \<comment> \<open>error of \<^verbatim>\<open>Pattern::new\<close>, if any\<close>
  glob_matches :: "string \<Rightarrow> string \<Rightarrow> bool"     \<comment> \<open>pattern, path\<close>
  regex_error :: "string \<Rightarrow> string option"       \<comment> \<open>error of \<^verbatim>\<open>Regex::new\<close>, if any\<close>
  regex_is_match :: "string \<Rightarrow> string \<Rightarrow> bool"   \<comment> \<open>pattern, path\<close>
  header_name :: "string \<Rightarrow> string option"       \<comment> \<open>\<^verbatim>\<open>HeaderName::from_bytes\<close>\<close>
  header_value :: "string \<Rightarrow> string option"      \<comment> \<open>\<^verbatim>\<open>HeaderValue::from_str\<close>\<close>
  value_to_str :: "string \<Rightarrow> string option"      \<comment> \<open>\<^verbatim>\<open>HeaderValue::to_str\<close>\<close>
  char_upper :: "char \<Rightarrow> string"                \<comment> \<open>upper case of a character that is not ASCII\<close>

text \<open>Documented behaviour of \<^verbatim>\<open>http::HeaderName\<close>: names are lower-cased.\<close>

definition names_lowercased :: "ext \<Rightarrow> bool" where
  "names_lowercased x = (\<forall>s n. header_name x s = Some n \<longrightarrow> n = to_lowercase s)"

text \<open>An instance for concrete examples: patterns match literally, every non-empty name and every
  value is valid.\<close>

definition example_ext :: ext where
  "example_ext = \<lparr> glob_error = (\<lambda>_. None), glob_matches = (\<lambda>g p. g = p),
     regex_error = (\<lambda>_. None), regex_is_match = (\<lambda>r p. r = p),
     header_name = (\<lambda>s. if s = [] then None else Some (to_lowercase s)),
     header_value = Some, value_to_str = Some, char_upper = (\<lambda>c. [c]) \<rparr>"

lemma names_lowercased_example [simp]: "names_lowercased example_ext"
  by (simp add: names_lowercased_def example_ext_def)

section \<open>Header maps, requests, responses\<close>

type_synonym header_map = "(string \<times> string) list"

definition header_get :: "header_map \<Rightarrow> string \<Rightarrow> string option" where
  "header_get m n = map_of m n"

text \<open>\<^verbatim>\<open>HeaderMap::insert\<close> drops every value the name had.\<close>

fun header_insert :: "string \<Rightarrow> string \<Rightarrow> header_map \<Rightarrow> header_map" where
  "header_insert n v [] = [(n, v)]"
| "header_insert n v ((n', v') # m) =
     (if n' = n then (n, v) # filter (\<lambda>(k, _). k \<noteq> n) m else (n', v') # header_insert n v m)"

definition header_values :: "header_map \<Rightarrow> string \<Rightarrow> string list" where
  "header_values m n = map snd (filter (\<lambda>(k, _). k = n) m)"

lemma header_values_Nil [simp]: "header_values [] n = []"
  by (simp add: header_values_def)

lemma header_values_Cons [simp]:
  "header_values ((k, v) # m) n = (if k = n then v # header_values m n else header_values m n)"
  by (simp add: header_values_def)

lemma header_values_append [simp]:
  "header_values (m @ m') n = header_values m n @ header_values m' n"
  by (simp add: header_values_def)

lemma header_values_filter_out [simp]:
  "header_values (filter (\<lambda>(k, _). k \<noteq> n) m) j = (if j = n then [] else header_values m j)"
  by (induction m) auto

lemma header_values_insert [simp]:
  "header_values (header_insert n v m) j = (if j = n then [v] else header_values m j)"
  by (induction n v m rule: header_insert.induct) auto

lemma header_get_values: "header_get m n = (case header_values m n of [] \<Rightarrow> None | v # _ \<Rightarrow> Some v)"
  by (induction m) (auto simp: header_get_def header_values_def)

lemma header_get_insert [simp]:
  "header_get (header_insert n v m) j = (if j = n then Some v else header_get m j)"
  by (simp add: header_get_values)

lemma names_header_insert: "fst ` set (header_insert n v m) = insert n (fst ` set m)"
proof -
  have "j \<in> fst ` set m \<longleftrightarrow> header_values m j \<noteq> []" for j and m :: header_map
    by (force simp: header_values_def filter_empty_conv)
  then show ?thesis by (intro set_eqI) simp
qed

record request =
  req_method :: string
  req_path :: string
  req_query :: "string option"
  req_headers :: header_map
  req_body :: "string + string"   \<comment> \<open>\<^verbatim>\<open>Inl\<close>: reading it fails with this error\<close>

record response =
  resp_status :: nat
  resp_headers :: header_map
  resp_body :: string

section \<open>Headers that may not cross the proxy\<close>

definition is_hop_by_hop :: "string \<Rightarrow> bool" where
  "is_hop_by_hop name = (to_lowercase name \<in>
     {''connection'', ''keep-alive'', ''proxy-authenticate'', ''proxy-authorization'',
      ''te'', ''trailers'', ''transfer-encoding'', ''upgrade''})"

definition is_forbidden_config_response_header :: "string \<Rightarrow> bool" where
  "is_forbidden_config_response_header name =
     (is_hop_by_hop name \<or> eq_ignore_ascii_case name ''content-length'')"

lemma is_hop_by_hop_lower [simp]: "is_hop_by_hop (to_lowercase n) = is_hop_by_hop n"
  by (simp add: is_hop_by_hop_def)

lemma is_forbidden_lower [simp]:
  "is_forbidden_config_response_header (to_lowercase n) = is_forbidden_config_response_header n"
  by (simp add: is_forbidden_config_response_header_def eq_ignore_ascii_case_def)

section \<open>Upstream URLs\<close>

definition absolute_path :: "string \<Rightarrow> string" where
  "absolute_path path = (if starts_with path ''/'' then path else ''/'' @ path)"

definition with_query :: "string \<Rightarrow> string option \<Rightarrow> string" where
  "with_query u q = (case q of Some s \<Rightarrow> if s \<noteq> [] then u @ ''?'' @ s else u | None \<Rightarrow> u)"

definition build_upstream_url :: "string \<Rightarrow> string \<Rightarrow> string option \<Rightarrow> string" where
  "build_upstream_url base path query =
     with_query (trim_end_matches base CHR ''/'' @ absolute_path path) query"

definition build_ws_url :: "string \<Rightarrow> string \<Rightarrow> string option \<Rightarrow> string" where
  "build_ws_url base path query =
     (let ws_base = replacen1 (replacen1 (trim_end_matches base CHR ''/'') ''https://'' ''wss://'')
                              ''http://'' ''ws://''
      in with_query (ws_base @ absolute_path path) query)"

section \<open>Forwarding one request\<close>

text \<open>
  \<open>up_headers\<close> is the sequence of \<^verbatim>\<open>RequestBuilder::header\<close> calls.  The
  exchange is a parameter: it yields the upstream's status, headers and body, or the
  error text of \<^verbatim>\<open>send\<close> or of reading the response body.
\<close>

record upstream_request =
  up_method :: string
  up_url :: string
  up_headers :: "(string \<times> string) list"
  up_body :: string

type_synonym exchange = "upstream_request \<Rightarrow> string + response"

definition forward_headers :: "header_map \<Rightarrow> string \<Rightarrow> (string \<times> string) list" where
  "forward_headers hs request_id =
     filter (\<lambda>(n, _). \<not> is_hop_by_hop n) hs @ [(''x-request-id'', request_id)]"

definition insert_all :: "(string \<times> string) list \<Rightarrow> header_map \<Rightarrow> header_map" where
  "insert_all kvs m = fold (\<lambda>(n, v). header_insert n v) kvs m"

definition return_headers :: "header_map \<Rightarrow> (string \<times> string) list option \<Rightarrow> header_map" where
  "return_headers hs extra =
     (let m = insert_all (filter (\<lambda>(n, _). \<not> is_hop_by_hop n) hs) []
      in case extra of None \<Rightarrow> m | Some kvs \<Rightarrow> insert_all kvs m)"

definition proxy_http ::
  "exchange \<Rightarrow> request \<Rightarrow> string \<Rightarrow> string \<Rightarrow> (string \<times> string) list option \<Rightarrow> string
    \<Rightarrow> proxy_error + response" where
  "proxy_http send req upstream_base rewritten_path extra request_id =
     (case req_body req of
        Inl e \<Rightarrow> Inl (BodyRead e)
      | Inr body \<Rightarrow>
          (case send \<lparr> up_method = req_method req,
                       up_url = build_upstream_url upstream_base rewritten_path (req_query req),
                       up_headers = forward_headers (req_headers req) request_id,
                       up_body = body \<rparr> of
             Inl e \<Rightarrow> Inl (UpstreamConnection e)
           | Inr r \<Rightarrow> Inr \<lparr> resp_status = resp_status r,
                            resp_headers = return_headers (resp_headers r) extra,
                            resp_body = resp_body r \<rparr>))"

subsection \<open>What crosses the proxy\<close>

text \<open>The value a name has after a run of inserts is the last one inserted.\<close>

lemma header_values_insert_all:
  "header_values (insert_all kvs m) n =
     (if header_values kvs n = [] then header_values m n else [last (header_values kvs n)])"
  unfolding insert_all_def
  by (induction kvs arbitrary: m) (auto split: if_splits)

lemma names_insert_all: "fst ` set (insert_all kvs m) = fst ` set kvs \<union> fst ` set m"
  unfolding insert_all_def
  by (induction kvs arbitrary: m) (auto simp: names_header_insert split: prod.splits)

lemma header_values_filter_name:
  "header_values (filter (\<lambda>(k, _). P k) m) n = (if P n then header_values m n else [])"
  by (induction m) auto

lemma header_values_return_headers:
  "header_values (return_headers hs extra) n =
     (case extra of
        Some kvs \<Rightarrow> if header_values kvs n \<noteq> [] then [last (header_values kvs n)]
                    else if is_hop_by_hop n \<or> header_values hs n = [] then []
                    else [last (header_values hs n)]
      | None \<Rightarrow> if is_hop_by_hop n \<or> header_values hs n = [] then []
                else [last (header_values hs n)])"
  by (auto simp: return_headers_def header_values_insert_all Let_def
      header_values_filter_name [of "\<lambda>k. \<not> is_hop_by_hop k"] split: option.split)

text \<open>No hop-by-hop header of the client reaches the upstream, every other header of
  the client does with all its values in order, and the request id is appended last.\<close>

theorem forward_headers_spec:
  "header_values (forward_headers hs rid) n =
     (if is_hop_by_hop n then []
      else header_values hs n @ (if n = ''x-request-id'' then [rid] else []))"
proof -
  have "\<not> is_hop_by_hop ''x-request-id''"
    by (simp add: is_hop_by_hop_def to_lowercase_def lower_char_def)
  then show ?thesis
    by (simp add: forward_headers_def header_values_filter_name [of "\<lambda>k. \<not> is_hop_by_hop k"])
qed

end
