(* ===== verification/Routing.thy ===== *)
theory Routing
  imports Http
begin

text \<open>
  \<^verbatim>\<open>routing/matcher.rs\<close> and \<^verbatim>\<open>routing/router.rs\<close>: compilation of routing
  rules, matching of a request against a rule, rewriting of its path, and the snapshot of
  rules ordered by priority.  The lemmas relate the compiled rules to the declared ones
  (\<open>accepts\<close>) and the search through the snapshot to the declared order (\<open>wins\<close>).
\<close>

section \<open>Compiled rules\<close>

datatype compiled_path = CExact string | CPrefix string | CGlob string | CRegex string

fun compiled_path_matches :: "ext \<Rightarrow> compiled_path \<Rightarrow> string \<Rightarrow> bool" where
  "compiled_path_matches x (CExact s) path = (s = path)"
| "compiled_path_matches x (CPrefix p) path = starts_with path p"
| "compiled_path_matches x (CGlob g) path = glob_matches x g path"
| "compiled_path_matches x (CRegex r) path = regex_is_match x r path"

record compiled_rule =
  cr_id :: string
  cr_path :: compiled_path
  cr_methods :: "string list option"
  cr_headers :: "(string, string) hashmap option"
  cr_service_id :: "string option"
  cr_upstream_url :: "string option"
  cr_strip_prefix :: "string option"
  cr_response_headers :: "(string \<times> string) list option"
  cr_priority :: u32

definition quoted :: "string \<Rightarrow> string" where
  "quoted s = [CHR 0x27] @ s @ [CHR 0x27]"

fun compile_response_headers ::
  "ext \<Rightarrow> string \<Rightarrow> (string, string) hashmap \<Rightarrow> config_error + (string \<times> string) list" where
  "compile_response_headers x rid [] = Inr []"
| "compile_response_headers x rid ((name_raw, val_raw) # m) =
     (if is_forbidden_config_response_header name_raw
      then Inl (Validation (''route '' @ quoted rid @ '' response_headers: '' @ quoted name_raw @
                            '' is not allowed (hop-by-hop or body-framing)''))
      else case header_name x name_raw of
        None \<Rightarrow> Inl (Validation (''route '' @ quoted rid @
                  '' response_headers: invalid header name '' @ quoted name_raw))
      | Some name \<Rightarrow>
          (case header_value x val_raw of
             None \<Rightarrow> Inl (Validation (''route '' @ quoted rid @
                       '' response_headers: invalid value for '' @ quoted name_raw))
           | Some value \<Rightarrow>
               res_bind (compile_response_headers x rid m) (\<lambda>out. Inr ((name, value) # out))))"

fun compile_path :: "ext \<Rightarrow> string \<Rightarrow> path_matcher \<Rightarrow> config_error + compiled_path" where
  "compile_path x rid (Exact v) = Inr (CExact v)"
| "compile_path x rid (Prefix v) = Inr (CPrefix v)"
| "compile_path x rid (Glob v) =
     (case glob_error x v of Some e \<Rightarrow> Inl (InvalidGlob rid v e) | None \<Rightarrow> Inr (CGlob v))"
| "compile_path x rid (Regex v) =
     (case regex_error x v of Some e \<Rightarrow> Inl (InvalidRegex rid v e) | None \<Rightarrow> Inr (CRegex v))"

definition compile :: "ext \<Rightarrow> routing_rule \<Rightarrow> config_error + compiled_rule" where
  "compile x rule =
     res_bind (compile_path x (rule_id rule) (rule_path rule)) (\<lambda>cp.
     res_bind (case rule_response_headers rule of
                 None \<Rightarrow> Inr None
               | Some m \<Rightarrow> if m = [] then Inr None
                           else res_bind (compile_response_headers x (rule_id rule) m) (\<lambda>hs. Inr (Some hs)))
       (\<lambda>rh.
     Inr \<lparr> cr_id = rule_id rule, cr_path = cp, cr_methods = rule_methods rule,
           cr_headers = rule_headers rule, cr_service_id = rule_service_id rule,
           cr_upstream_url = rule_upstream_url rule, cr_strip_prefix = rule_strip_prefix rule,
           cr_response_headers = rh, cr_priority = rule_priority rule \<rparr>))"

fun headers_match :: "ext \<Rightarrow> (string \<times> string) list \<Rightarrow> header_map \<Rightarrow> bool" where
  "headers_match x [] request_headers = True"
| "headers_match x ((name, expected) # hs) request_headers =
     (case header_name x name of
        None \<Rightarrow> False
      | Some hn \<Rightarrow>
          (case header_get request_headers hn of
             None \<Rightarrow> False
           | Some actual \<Rightarrow>
               (if (case value_to_str x actual of None \<Rightarrow> [] | Some s \<Rightarrow> s) \<noteq> expected then False
                else headers_match x hs request_headers)))"

definition rule_matches :: "ext \<Rightarrow> compiled_rule \<Rightarrow> string \<Rightarrow> string \<Rightarrow> header_map \<Rightarrow> bool" where
  "rule_matches x r path method request_headers =
     (if \<not> compiled_path_matches x (cr_path r) path then False
      else if (case cr_methods r of
                 None \<Rightarrow> False
               | Some ms \<Rightarrow> \<not> list_ex (\<lambda>m. upper_with (char_upper x) m = upper_with (char_upper x) method) ms) then False
      else case cr_headers r of None \<Rightarrow> True | Some hs \<Rightarrow> headers_match x hs request_headers)"

definition rewrite_path :: "compiled_rule \<Rightarrow> string \<Rightarrow> string" where
  "rewrite_path r path =
     (case cr_strip_prefix r of
        None \<Rightarrow> path
      | Some pre \<Rightarrow>
          (case strip_prefix_str path pre of
             None \<Rightarrow> path
           | Some stripped \<Rightarrow> if stripped = [] then ''/'' else stripped))"

section \<open>Snapshots\<close>

record router_snapshot = rules :: "compiled_rule list"

definition sort_rules :: "compiled_rule list \<Rightarrow> compiled_rule list" where
  "sort_rules rs = sort_key cr_priority rs"

definition from_config :: "ext \<Rightarrow> app_config \<Rightarrow> config_error + router_snapshot" where
  "from_config x cfg =
     res_bind (try_map (compile x) (routes cfg)) (\<lambda>rs. Inr \<lparr> rules = sort_rules rs \<rparr>)"

fun resolve_in :: "ext \<Rightarrow> compiled_rule list \<Rightarrow> string \<Rightarrow> string \<Rightarrow> header_map \<Rightarrow> compiled_rule option" where
  "resolve_in x [] path method hs = None"
| "resolve_in x (r # rs) path method hs =
     (if rule_matches x r path method hs then Some r else resolve_in x rs path method hs)"

definition resolve :: "ext \<Rightarrow> router_snapshot \<Rightarrow> string \<Rightarrow> string \<Rightarrow> header_map \<Rightarrow> compiled_rule option" where
  "resolve x snap path method hs = resolve_in x (rules snap) path method hs"

text \<open>\<open>rebuild_router\<close> returns the error and the content of the shared slot after it.\<close>

definition rebuild_router ::
  "ext \<Rightarrow> router_snapshot \<Rightarrow> app_config \<Rightarrow> (config_error + unit) \<times> router_snapshot" where
  "rebuild_router x shared cfg =
     (case from_config x cfg of Inl e \<Rightarrow> (Inl e, shared) | Inr snap \<Rightarrow> (Inr (), snap))"

interpretation rule_table: priority_table cr_priority sort_rules
  by unfold_locales (simp_all add: sort_rules_def sort_key_stable)

lemma resolve_in_find: "resolve_in x rs p m hs = find (\<lambda>r. rule_matches x r p m hs) rs"
  by (induction rs) auto

section \<open>What a declared rule accepts\<close>

fun path_accepts :: "ext \<Rightarrow> path_matcher \<Rightarrow> string \<Rightarrow> bool" where
  "path_accepts x (Exact v) path = (path = v)"
| "path_accepts x (Prefix v) path = prefix v path"
| "path_accepts x (Glob v) path = glob_matches x v path"
| "path_accepts x (Regex v) path = regex_is_match x v path"

definition method_accepts :: "ext \<Rightarrow> string list option \<Rightarrow> string \<Rightarrow> bool" where
  "method_accepts x ms method = (case ms of None \<Rightarrow> True
     | Some l \<Rightarrow> (\<exists>m\<in>set l. upper_with (char_upper x) m = upper_with (char_upper x) method))"

definition header_accepts :: "ext \<Rightarrow> string \<Rightarrow> string \<Rightarrow> header_map \<Rightarrow> bool" where
  "header_accepts x name expected hs =
     (\<exists>hn v. header_name x name = Some hn \<and> header_get hs hn = Some v \<and>
        (value_to_str x v = Some expected \<or> value_to_str x v = None \<and> expected = []))"

definition headers_accept :: "ext \<Rightarrow> (string, string) hashmap option \<Rightarrow> header_map \<Rightarrow> bool" where
  "headers_accept x m hs = (case m of None \<Rightarrow> True
     | Some l \<Rightarrow> (\<forall>(n, e)\<in>set l. header_accepts x n e hs))"

definition accepts :: "ext \<Rightarrow> routing_rule \<Rightarrow> string \<Rightarrow> string \<Rightarrow> header_map \<Rightarrow> bool" where
  "accepts x r path method hs = (path_accepts x (rule_path r) path \<and>
     method_accepts x (rule_methods r) method \<and> headers_accept x (rule_headers r) hs)"

lemma compile_path_matches:
  "compile_path x rid pm = Inr cp \<Longrightarrow> compiled_path_matches x cp path = path_accepts x pm path"
  by (cases pm) (auto simp: starts_with_prefix split: option.splits)

lemma headers_match_iff: "headers_match x l hs \<longleftrightarrow> (\<forall>(n, e)\<in>set l. header_accepts x n e hs)"
  by (induction x l hs rule: headers_match.induct)
     (auto simp: header_accepts_def split: option.splits)

lemma compile_InrE:
  assumes "compile x r = Inr c"
  obtains cp rh where "compile_path x (rule_id r) (rule_path r) = Inr cp"
    and "(case rule_response_headers r of None \<Rightarrow> rh = None | Some m \<Rightarrow>
           if m = [] then rh = None
           else \<exists>hs. compile_response_headers x (rule_id r) m = Inr hs \<and> rh = Some hs)"
    and "c = \<lparr> cr_id = rule_id r, cr_path = cp, cr_methods = rule_methods r,
           cr_headers = rule_headers r, cr_service_id = rule_service_id r,
           cr_upstream_url = rule_upstream_url r, cr_strip_prefix = rule_strip_prefix r,
           cr_response_headers = rh, cr_priority = rule_priority r \<rparr>"
  using assms
  by (auto simp: compile_def res_simps split: option.splits if_splits)

lemma compile_priority: "compile x r = Inr c \<Longrightarrow> cr_priority c = rule_priority r"
  by (erule compile_InrE) simp

lemma compile_matches:
  assumes "compile x r = Inr c"
  shows "rule_matches x c path method hs = accepts x r path method hs"
  using assms
  by (elim compile_InrE)
     (auto simp: rule_matches_def accepts_def compile_path_matches method_accepts_def
       headers_accept_def headers_match_iff list_ex_iff
       split: option.splits)

text \<open>\<open>wins\<close>: rule \<open>i\<close> is the one the declared table means: it accepts the request, and
  every other rule that does has a larger priority number, or the same one and comes later.\<close>

definition wins :: "ext \<Rightarrow> routing_rule list \<Rightarrow> string \<Rightarrow> string \<Rightarrow> header_map \<Rightarrow> nat \<Rightarrow> bool" where
  "wins x rs path method hs i =
     (i < length rs \<and> accepts x (rs ! i) path method hs \<and>
      (\<forall>j<length rs. accepts x (rs ! j) path method hs \<longrightarrow>
         rule_priority (rs ! i) < rule_priority (rs ! j) \<or>
         rule_priority (rs ! i) = rule_priority (rs ! j) \<and> i \<le> j))"

lemma from_config_Inr:
  "from_config x cfg = Inr snap \<longleftrightarrow>
     (\<exists>cs. list_all2 (\<lambda>r c. compile x r = Inr c) (routes cfg) cs \<and> snap = \<lparr> rules = sort_rules cs \<rparr>)"
  by (auto simp: from_config_def res_simps try_map_Inr_iff)

lemma wins_unique: "wins x rs p m hs i \<Longrightarrow> wins x rs p m hs j \<Longrightarrow> i = j"
  unfolding wins_def by (metis less_asym order_antisym less_irrefl)

lemma resolve_Some_wins:
  assumes cs: "list_all2 (\<lambda>r c. compile x r = Inr c) rs cs"
    and hit: "find (\<lambda>r. rule_matches x r p m hs) (sort_rules cs) = Some c"
  shows "\<exists>i. wins x rs p m hs i \<and> compile x (rs ! i) = Inr c"
proof -
  let ?P = "\<lambda>c. rule_matches x c p m hs"
  have len: "length rs = length cs"
    using cs by (rule list_all2_lengthD)
  have nth: "compile x (rs ! i) = Inr (cs ! i)" if "i < length cs" for i
    using list_all2_nthD2 [OF cs that] by simp
  have acc: "accepts x (rs ! i) p m hs = ?P (cs ! i)" if "i < length cs" for i
    using compile_matches [OF nth [OF that]] by simp
  have pri: "rule_priority (rs ! i) = cr_priority (cs ! i)" if "i < length cs" for i
    using compile_priority [OF nth [OF that]] by simp
  obtain i where i: "i < length cs" "cs ! i = c" "?P c"
    and before: "\<forall>j<i. \<not> (cr_priority (cs ! j) = cr_priority c \<and> ?P (cs ! j))"
    using rule_table.hit_declared_first [OF hit] by (auto simp: find_Some_iff)
  have "cr_priority c < cr_priority (cs ! j) \<or> cr_priority c = cr_priority (cs ! j) \<and> i \<le> j"
    if "j < length cs" "?P (cs ! j)" for j
    using rule_table.hit_least [OF hit nth_mem [OF that(1)] that(2)] before that(2)
    by (cases "i \<le> j") (auto simp: order_le_less not_le)
  then have "wins x rs p m hs i"
    using i len by (auto simp: wins_def acc pri)
  with i nth show ?thesis by blast
qed

text \<open>C1. Routing is by (priority, declaration order): when the configuration compiles, a
  request is routed to the compiled form of the one declared rule that accepts it and has
  the least priority number, the earliest declared among equals; it is unrouted exactly
  when no declared rule accepts it.\<close>

theorem resolve_picks_winner:
  assumes "from_config x cfg = Inr snap"
  shows "case resolve x snap p m hs of
           None \<Rightarrow> \<forall>r\<in>set (routes cfg). \<not> accepts x r p m hs
         | Some c \<Rightarrow> \<exists>!i. wins x (routes cfg) p m hs i \<and> compile x (routes cfg ! i) = Inr c"
proof -
  from assms obtain cs where cs: "list_all2 (\<lambda>r c. compile x r = Inr c) (routes cfg) cs"
    and snap: "snap = \<lparr> rules = sort_rules cs \<rparr>"
    by (auto simp: from_config_Inr)
  have res: "resolve x snap p m hs = find (\<lambda>r. rule_matches x r p m hs) (sort_rules cs)"
    by (simp add: resolve_def snap resolve_in_find)
  show ?thesis
  proof (cases "resolve x snap p m hs")
    case None
    then have "\<forall>c\<in>set cs. \<not> rule_matches x c p m hs"
      by (simp add: res rule_table.no_hit)
    moreover have "\<exists>c\<in>set cs. compile x r = Inr c" if "r \<in> set (routes cfg)" for r
      using cs that by (auto simp: list_all2_conv_all_nth in_set_conv_nth)
    ultimately have "\<forall>r\<in>set (routes cfg). \<not> accepts x r p m hs"
      by (metis compile_matches)
    with None show ?thesis by simp
  next
    case (Some c)
    with res have "find (\<lambda>r. rule_matches x r p m hs) (sort_rules cs) = Some c" by simp
    from resolve_Some_wins [OF cs this]
    have "\<exists>!i. wins x (routes cfg) p m hs i \<and> compile x (routes cfg ! i) = Inr c"
      using wins_unique by blast
    with Some show ?thesis by simp
  qed
qed

section \<open>Response headers, path rewriting, rebuilding\<close>

lemma compile_response_headers_names:
  "compile_response_headers x rid m = Inr out \<Longrightarrow> names_lowercased x \<Longrightarrow> (n, v) \<in> set out \<Longrightarrow>
     \<not> is_forbidden_config_response_header n"
proof (induction x rid m arbitrary: out rule: compile_response_headers.induct)
  case (1 x rid)
  then show ?case by simp
next
  case (2 x rid name_raw val_raw m)
  then obtain name val out' where "\<not> is_forbidden_config_response_header name_raw"
    "header_name x name_raw = Some name" "compile_response_headers x rid m = Inr out'"
    "out = (name, val) # out'"
    by (auto simp: res_simps split: if_splits option.splits)
  with 2 show ?case
    by (fastforce simp: names_lowercased_def)
qed

lemma compile_response_headers_safe:
  assumes "compile x r = Inr c" "names_lowercased x" "cr_response_headers c = Some out" "(n, v) \<in> set out"
  shows "\<not> is_forbidden_config_response_header n"
  using assms
  by (elim compile_InrE)
     (auto split: option.splits if_splits dest: compile_response_headers_names)

lemma from_config_rule:
  assumes "from_config x cfg = Inr snap" "c \<in> set (rules snap)"
  shows "\<exists>r\<in>set (routes cfg). compile x r = Inr c"
proof -
  from assms obtain cs where "list_all2 (\<lambda>r c. compile x r = Inr c) (routes cfg) cs" "c \<in> set cs"
    by (auto simp: from_config_Inr rule_table.table_set)
  then obtain i where i: "i < length cs" "c = cs ! i" "i < length (routes cfg)"
    and "compile x (routes cfg ! i) = Inr (cs ! i)"
    by (auto simp: list_all2_conv_all_nth in_set_conv_nth)
  then show ?thesis using nth_mem [OF i(3)] by auto
qed

lemma resolve_member: "resolve x snap p m hs = Some c \<Longrightarrow> c \<in> set (rules snap) \<and> rule_matches x c p m hs"
  by (auto simp: resolve_def resolve_in_find find_Some_iff in_set_conv_nth)

text \<open>A request that is routed never gets a framing or hop-by-hop header from the
  configuration: whatever the letter case in the file, the \<^verbatim>\<open>response_headers\<close> of
  the winning rule contain no name that \<^verbatim>\<open>is_forbidden_config_response_header\<close>
  rejects (given that \<^verbatim>\<open>HeaderName\<close> lower-cases names).\<close>

theorem routed_response_headers_safe:
  assumes "names_lowercased x" and "from_config x cfg = Inr snap"
    and "resolve x snap p m hs = Some c" and "cr_response_headers c = Some out"
  shows "\<forall>(n, v)\<in>set out. \<not> is_hop_by_hop n \<and> \<not> eq_ignore_ascii_case n ''content-length''"
proof -
  obtain r where "compile x r = Inr c"
    using from_config_rule [OF assms(2)] resolve_member [OF assms(3)] by blast
  from compile_response_headers_safe [OF this assms(1,4)] show ?thesis
    by (auto simp: is_forbidden_config_response_header_def)
qed

text \<open>Path rewriting: the configured prefix is removed when the path has it (leaving
  \<^verbatim>\<open>/\<close> for nothing) and any other path is left alone; a non-empty path never
  becomes empty, and the upstream URL built from the result has exactly one slash between
  the base and the rest.\<close>

theorem rewrite_path_spec:
  "rewrite_path r path =
     (if \<exists>pre rest. cr_strip_prefix r = Some pre \<and> path = pre @ rest
      then (let rest = drop (length (the (cr_strip_prefix r))) path in if rest = [] then ''/'' else rest)
      else path)
   \<and> (path \<noteq> [] \<longrightarrow> rewrite_path r path \<noteq> [])
   \<and> (\<exists>base' rest n. build_upstream_url base (rewrite_path r path) None = base' @ ''/'' @ rest
        \<and> base = base' @ replicate n CHR ''/'' \<and> (base' = [] \<or> last base' \<noteq> CHR ''/'')
        \<and> rewrite_path r path \<in> {rest, ''/'' @ rest})"
proof -
  let ?p = "rewrite_path r path"
  let ?b = "trim_end_matches base CHR ''/''"
  have 1: "?p = (if \<exists>pre rest. cr_strip_prefix r = Some pre \<and> path = pre @ rest
      then (let rest = drop (length (the (cr_strip_prefix r))) path in if rest = [] then ''/'' else rest)
      else path)"
    by (auto simp: rewrite_path_def str_simps prefix_def split: option.splits)
  have 2: "path \<noteq> [] \<longrightarrow> ?p \<noteq> []"
    by (auto simp: rewrite_path_def split: option.splits)
  obtain rest where rest: "absolute_path ?p = ''/'' @ rest" "?p \<in> {rest, ''/'' @ rest}"
    by (cases "starts_with ?p ''/''") (auto simp: absolute_path_def str_simps prefix_def)
  obtain n where "base = ?b @ replicate n CHR ''/''"
    using trim_end_matches_append_replicate by blast
  moreover have "?b = [] \<or> last ?b \<noteq> CHR ''/''"
    using trim_end_matches_no_suffix by blast
  moreover have "build_upstream_url base ?p None = ?b @ ''/'' @ rest"
    using rest by (simp add: build_upstream_url_def with_query_def)
  ultimately show ?thesis
    using 1 2 rest(2) by blast
qed

text \<open>Hot rebuild is all or nothing: the shared snapshot is replaced exactly when the
  whole new configuration compiles; otherwise the old rules keep serving and the error is
  the one of the first declared rule that does not compile.\<close>

theorem rebuild_router_atomic:
  "case rebuild_router x shared cfg of
     (Inr _, shared') \<Rightarrow> (\<exists>cs. list_all2 (\<lambda>r c. compile x r = Inr c) (routes cfg) cs \<and>
                          mset (rules shared') = mset cs \<and> sorted (map cr_priority (rules shared')))
   | (Inl e, shared') \<Rightarrow> shared' = shared \<and>
       (\<exists>us r vs. routes cfg = us @ r # vs \<and> (\<forall>u\<in>set us. \<exists>c. compile x u = Inr c) \<and> compile x r = Inl e)"
proof (cases "from_config x cfg")
  case (Inl e)
  then have "try_map (compile x) (routes cfg) = Inl e"
    by (auto simp: from_config_def res_simps)
  with Inl show ?thesis
    by (auto simp: rebuild_router_def try_map_Inl_iff)
next
  case (Inr snap)
  then obtain cs where "list_all2 (\<lambda>r c. compile x r = Inr c) (routes cfg) cs"
    and "snap = \<lparr> rules = sort_rules cs \<rparr>"
    by (auto simp: from_config_Inr)
  with Inr show ?thesis
    by (auto simp: rebuild_router_def rule_table.table_mset rule_table.table_sorted)
qed

section \<open>Examples\<close>

definition example_route :: "string \<Rightarrow> string \<Rightarrow> u32 \<Rightarrow> routing_rule" where
  "example_route i pre pr = \<lparr> rule_id = i, rule_path = Prefix pre, rule_methods = None, rule_headers = None,
     rule_service_id = None, rule_upstream_url = Some ''http://u'', rule_strip_prefix = Some pre,
     rule_response_headers = Some [(''X-Frame'', ''DENY'')], rule_priority = pr \<rparr>"

definition example_compiled :: "string \<Rightarrow> string \<Rightarrow> u32 \<Rightarrow> compiled_rule" where
  "example_compiled i pre pr = \<lparr> cr_id = i, cr_path = CPrefix pre, cr_methods = None, cr_headers = None,
     cr_service_id = None, cr_upstream_url = Some ''http://u'', cr_strip_prefix = Some pre,
     cr_response_headers = Some [(''x-frame'', ''DENY'')], cr_priority = pr \<rparr>"

definition example_routes :: app_config where
  "example_routes = default_app_config\<lparr> routes := [example_route ''all'' ''/'' 20, example_route ''api'' ''/api'' 10] \<rparr>"

lemma example_routes_compile:
  "from_config example_ext example_routes =
     Inr \<lparr> rules = [example_compiled ''api'' ''/api'' 10, example_compiled ''all'' ''/'' 20] \<rparr>"
  by code_simp

lemma example_routes_resolve:
  "resolve example_ext \<lparr> rules = [example_compiled ''api'' ''/api'' 10, example_compiled ''all'' ''/'' 20] \<rparr>
     ''/api/x'' ''GET'' [] = Some (example_compiled ''api'' ''/api'' 10)"
  by code_simp

theorem resolve_picks_winner_witness:
  "\<exists>!i. wins example_ext (routes example_routes) ''/api/x'' ''GET'' [] i
     \<and> compile example_ext (routes example_routes ! i) = Inr (example_compiled ''api'' ''/api'' 10)"
  using resolve_picks_winner [OF example_routes_compile, of "''/api/x''" "''GET''" "[]"]
  by (simp only: example_routes_resolve option.case)

theorem routed_response_headers_safe_witness:
  "\<not> is_hop_by_hop ''x-frame'' \<and> \<not> eq_ignore_ascii_case ''x-frame'' ''content-length''"
  using routed_response_headers_safe [OF names_lowercased_example example_routes_compile example_routes_resolve,
      of "[(''x-frame'', ''DENY'')]"]
  by (simp add: example_compiled_def)

theorem rewrite_path_spec_witness:
  "rewrite_path (example_compiled ''api'' ''/api'' 10) ''/api/x'' = ''/x''"
  using rewrite_path_spec [of "example_compiled ''api'' ''/api'' 10" "''/api/x''"]
  by (simp add: example_compiled_def)

theorem rebuild_router_atomic_witness:
  "snd (rebuild_router (example_ext\<lparr> glob_error := (\<lambda>_. Some ''bad'') \<rparr>) \<lparr> rules = [] \<rparr>
     (default_app_config\<lparr> routes := [(example_route ''g'' ''/'' 1)\<lparr> rule_path := Glob ''['' \<rparr>] \<rparr>)) = \<lparr> rules = [] \<rparr>"
proof -
  let ?x = "example_ext\<lparr> glob_error := (\<lambda>_. Some ''bad'') \<rparr>"
  let ?cfg = "default_app_config\<lparr> routes := [(example_route ''g'' ''/'' 1)\<lparr> rule_path := Glob ''['' \<rparr>] \<rparr>"
  have "fst (rebuild_router ?x \<lparr> rules = [] \<rparr> ?cfg) = Inl (InvalidGlob ''g'' ''['' ''bad'')"
    by (simp add: rebuild_router_def from_config_def compile_def example_route_def)
  then show ?thesis
    using rebuild_router_atomic [where x = ?x and shared = "\<lparr> rules = [] \<rparr>" and cfg = ?cfg]
    by (auto split: prod.splits sum.splits)
qed

end
