(* ===== verification/StrictCheck.thy ===== *)
theory StrictCheck
  imports Routing
begin

text \<open>
  \<^verbatim>\<open>config/strict_check.rs\<close>: the findings of \<^verbatim>\<open>check-config --strict\<close>.
  Each pass of \<^verbatim>\<open>run_strict_config_checks\<close> is a definition; the order in which the
  \<^verbatim>\<open>HashMap\<close> of id counts is iterated is the argument \<open>id_order\<close>.  The lemmas say
  when a \<^verbatim>\<open>RULE_SHADOWED\<close> finding is right, and that two of the checks report
  configurations that are fine.
\<close>

definition ROUTES_EMPTY :: string where "ROUTES_EMPTY = ''ROUTES_EMPTY''"
definition DUPLICATE_ROUTE_ID :: string where "DUPLICATE_ROUTE_ID = ''DUPLICATE_ROUTE_ID''"
definition IDENTICAL_MATCHERS :: string where "IDENTICAL_MATCHERS = ''IDENTICAL_MATCHERS''"
definition RULE_SHADOWED :: string where "RULE_SHADOWED = ''RULE_SHADOWED''"
definition UPSTREAM_AND_SERVICE_ID :: string where "UPSTREAM_AND_SERVICE_ID = ''UPSTREAM_AND_SERVICE_ID''"
definition STRIP_PREFIX_UNREACHABLE :: string where "STRIP_PREFIX_UNREACHABLE = ''STRIP_PREFIX_UNREACHABLE''"

lemmas strict_codes = ROUTES_EMPTY_def DUPLICATE_ROUTE_ID_def IDENTICAL_MATCHERS_def
  RULE_SHADOWED_def UPSTREAM_AND_SERVICE_ID_def STRIP_PREFIX_UNREACHABLE_def

record strict_finding =
  sf_code :: string
  sf_message :: string
  sf_details :: "json option"

definition strict_finding_new :: "string \<Rightarrow> string \<Rightarrow> json option \<Rightarrow> strict_finding" where
  "strict_finding_new code message details =
     \<lparr> sf_code = code, sf_message = message, sf_details = details \<rparr>"

section \<open>Coverage of one rule by another\<close>

fun path_matcher_covers :: "path_matcher \<Rightarrow> path_matcher \<Rightarrow> bool" where
  "path_matcher_covers (Prefix lp) (Prefix rp) = starts_with rp lp"
| "path_matcher_covers (Prefix lp) (Exact re) = starts_with re lp"
| "path_matcher_covers (Exact le) (Exact re) = (le = re)"
| "path_matcher_covers _ _ = False"

fun method_constraints_cover :: "string list option \<Rightarrow> string list option \<Rightarrow> bool" where
  "method_constraints_cover None _ = True"
| "method_constraints_cover (Some _) None = False"
| "method_constraints_cover (Some l) (Some r) =
     list_all (\<lambda>rm. list_ex (\<lambda>lm. eq_ignore_ascii_case lm rm) l) r"

fun header_constraints_cover ::
  "(string, string) hashmap option \<Rightarrow> (string, string) hashmap option \<Rightarrow> bool" where
  "header_constraints_cover None _ = True"
| "header_constraints_cover (Some _) None = False"
| "header_constraints_cover (Some l) (Some r) = list_all (\<lambda>(rk, rv). map_of l rk = Some rv) r"

definition rule_covers :: "routing_rule \<Rightarrow> routing_rule \<Rightarrow> bool" where
  "rule_covers left right =
     (method_constraints_cover (rule_methods left) (rule_methods right)
      \<and> header_constraints_cover (rule_headers left) (rule_headers right)
      \<and> path_matcher_covers (rule_path left) (rule_path right))"

definition strip_prefix_applies_to_matched_requests :: "string \<Rightarrow> string \<Rightarrow> bool" where
  "strip_prefix_applies_to_matched_requests matcher_prefix strip = starts_with matcher_prefix strip"

definition routing_evaluation_order_indices :: "routing_rule list \<Rightarrow> nat list" where
  "routing_evaluation_order_indices rs = sort_key (\<lambda>i. rule_priority (rs ! i)) [0..<length rs]"

section \<open>The passes\<close>

definition empty_findings :: "routing_rule list \<Rightarrow> strict_finding list" where
  "empty_findings rs = (if rs = [] then [strict_finding_new ROUTES_EMPTY ''routes list is empty'' None] else [])"

definition id_count :: "routing_rule list \<Rightarrow> string \<Rightarrow> nat" where
  "id_count rs k = count_list (map rule_id rs) k"

definition duplicate_findings :: "string list \<Rightarrow> routing_rule list \<Rightarrow> strict_finding list" where
  "duplicate_findings id_order rs =
     map (\<lambda>k. strict_finding_new DUPLICATE_ROUTE_ID
                (''duplicate route id '' @ quoted k @ '' appears '' @ show_nat (id_count rs k) @ '' times'')
                (Some (JObj [(''count'', JInt (int (id_count rs k))), (''route_id'', JStr k)])))
       (filter (\<lambda>k. 1 < id_count rs k) id_order)"

definition option_headers_eq ::
  "(string, string) hashmap option \<Rightarrow> (string, string) hashmap option \<Rightarrow> bool" where
  "option_headers_eq a b = (case (a, b) of (None, None) \<Rightarrow> True
     | (Some l, Some r) \<Rightarrow> hashmap_eq l r | _ \<Rightarrow> False)"

definition same_matcher :: "routing_rule \<Rightarrow> routing_rule \<Rightarrow> bool" where
  "same_matcher left right = (rule_path left = rule_path right \<and>
     rule_methods left = rule_methods right \<and> option_headers_eq (rule_headers left) (rule_headers right))"

fun identical_findings :: "routing_rule list \<Rightarrow> strict_finding list" where
  "identical_findings [] = []"
| "identical_findings (left # rs) =
     map (\<lambda>right. strict_finding_new IDENTICAL_MATCHERS
            (''rules '' @ quoted (rule_id left) @ '' and '' @ quoted (rule_id right) @
             '' have identical match conditions'')
            (Some (JObj [(''rule_ids'', JArr [JStr (rule_id left), JStr (rule_id right)])])))
       (filter (same_matcher left) rs)
     @ identical_findings rs"

definition shadow_finding :: "routing_rule \<Rightarrow> routing_rule \<Rightarrow> strict_finding" where
  "shadow_finding left right = strict_finding_new RULE_SHADOWED
     (''rule '' @ quoted (rule_id left) @ '' is evaluated before '' @ quoted (rule_id right) @
      '' and covers its path; overlapping requests cannot reach '' @ quoted (rule_id right))
     (Some (JObj [(''covering_rule_id'', JStr (rule_id left)), (''shadowed_rule_id'', JStr (rule_id right))]))"

text \<open>\<open>shadow_pairs\<close> runs over the evaluation order: each index against the later ones.\<close>

fun shadow_pairs :: "routing_rule list \<Rightarrow> nat list \<Rightarrow> (nat \<times> nat) list" where
  "shadow_pairs rs [] = []"
| "shadow_pairs rs (i # is) =
     map (\<lambda>j. (i, j)) (filter (\<lambda>j. rule_covers (rs ! i) (rs ! j)) is) @ shadow_pairs rs is"

definition shadow_findings :: "routing_rule list \<Rightarrow> strict_finding list" where
  "shadow_findings rs = map (\<lambda>(i, j). shadow_finding (rs ! i) (rs ! j))
     (shadow_pairs rs (routing_evaluation_order_indices rs))"

definition em_dash :: string where
  "em_dash = [CHR 0xE2, CHR 0x80, CHR 0x94]"

definition strip_unreachable :: "routing_rule \<Rightarrow> (string \<times> string) option" where
  "strip_unreachable rule =
     (case (rule_path rule, rule_strip_prefix rule) of
        (Prefix p, Some strip) \<Rightarrow>
          if strip \<noteq> [] \<and> p \<noteq> ''/'' \<and> \<not> strip_prefix_applies_to_matched_requests p strip
          then Some (p, strip) else None
      | _ \<Rightarrow> None)"

definition target_findings :: "routing_rule \<Rightarrow> strict_finding list" where
  "target_findings rule =
     (if rule_upstream_url rule \<noteq> None \<and> rule_service_id rule \<noteq> None
      then [strict_finding_new UPSTREAM_AND_SERVICE_ID
              (''rule '' @ quoted (rule_id rule) @ '' sets both upstream_url and service_id (upstream wins; registry lookup is unreachable)'')
              (Some (JObj [(''rule_id'', JStr (rule_id rule))]))]
      else [])
     @ (case strip_unreachable rule of None \<Rightarrow> []
        | Some (p, strip) \<Rightarrow>
            [strict_finding_new STRIP_PREFIX_UNREACHABLE
              (''rule '' @ quoted (rule_id rule) @ '' strip_prefix '' @ quoted strip @
               '' never applies (prefix matcher '' @ quoted p @ '') '' @ em_dash @
               '' path matches never begin with '' @ quoted strip)
              (Some (JObj [(''prefix'', JStr p), (''rule_id'', JStr (rule_id rule)),
                           (''strip_prefix'', JStr strip)]))])"

definition run_strict_config_checks :: "string list \<Rightarrow> app_config \<Rightarrow> strict_finding list" where
  "run_strict_config_checks id_order cfg =
     (let rs = routes cfg in
        empty_findings rs @ duplicate_findings id_order rs @ identical_findings rs
        @ shadow_findings rs @ concat (map target_findings rs))"

text \<open>The iteration order of the id counts: every id once, in some order.\<close>

definition id_order_ok :: "string list \<Rightarrow> app_config \<Rightarrow> bool" where
  "id_order_ok id_order cfg = (distinct id_order \<and> set id_order = rule_id ` set (routes cfg))"

section \<open>Which pairs are compared\<close>

interpretation index_table: priority_table "\<lambda>i. rule_priority (rs ! i)" "sort_key (\<lambda>i. rule_priority (rs ! i))"
  for rs
  by unfold_locales (simp_all add: sort_key_stable)

lemma shadow_pairs_iff:
  "(i, j) \<in> set (shadow_pairs rs is) \<longleftrightarrow>
     (\<exists>us vs ws. is = us @ i # vs @ j # ws) \<and> rule_covers (rs ! i) (rs ! j)"
proof (induction "is")
  case Nil
  then show ?case by simp
next
  case (Cons k "is")
  have "(\<exists>us vs ws. k # is = us @ i # vs @ j # ws) \<longleftrightarrow>
      (k = i \<and> j \<in> set is) \<or> (\<exists>us vs ws. is = us @ i # vs @ j # ws)"
    by (auto simp: Cons_eq_append_conv in_set_conv_decomp) blast+
  with Cons show ?case by auto
qed

text \<open>\<open>i\<close> is evaluated before \<open>j\<close>.\<close>

definition evaluated_before :: "routing_rule list \<Rightarrow> nat \<Rightarrow> nat \<Rightarrow> bool" where
  "evaluated_before rs i j = (i < length rs \<and> j < length rs \<and>
     (rule_priority (rs ! i) < rule_priority (rs ! j) \<or>
      rule_priority (rs ! i) = rule_priority (rs ! j) \<and> i < j))"

lemma evaluation_order_set: "set (routing_evaluation_order_indices rs) = {..<length rs}"
  by (auto simp: routing_evaluation_order_indices_def)

lemma evaluation_order_distinct: "distinct (routing_evaluation_order_indices rs)"
  by (simp add: routing_evaluation_order_indices_def)

lemma evaluation_order_before:
  assumes "routing_evaluation_order_indices rs = us @ i # vs @ j # ws"
  shows "evaluated_before rs i j"
proof -
  let ?f = "\<lambda>i. rule_priority (rs ! i)"
  let ?s = "routing_evaluation_order_indices rs"
  have lt: "i < length rs" "j < length rs"
    using assms evaluation_order_set [of rs] by auto
  have "sorted (map ?f ?s)"
    by (simp add: routing_evaluation_order_indices_def)
  then have le: "?f i \<le> ?f j"
    using assms by (simp add: sorted_append)
  have "i < j" if eq: "?f i = ?f j"
  proof -
    have "filter (\<lambda>k. ?f k = ?f i) ?s = filter (\<lambda>k. ?f k = ?f i) [0..<length rs]"
      by (simp add: routing_evaluation_order_indices_def sort_key_stable)
    then have "sorted_wrt (<) (filter (\<lambda>k. ?f k = ?f i) ?s)"
      by (metis sorted_wrt_filter sorted_wrt_upt)
    then show ?thesis
      using assms eq by (simp add: sorted_wrt_append)
  qed
  with lt le show ?thesis
    by (auto simp: evaluated_before_def)
qed

lemma before_evaluation_order:
  assumes "evaluated_before rs i j"
  shows "\<exists>us vs ws. routing_evaluation_order_indices rs = us @ i # vs @ j # ws"
proof -
  let ?s = "routing_evaluation_order_indices rs"
  have "i \<in> set ?s" "j \<in> set ?s" and ne: "i \<noteq> j"
    using assms by (auto simp: evaluated_before_def evaluation_order_set)
  then obtain us r where s: "?s = us @ i # r"
    by (meson split_list)
  show ?thesis
  proof (cases "j \<in> set r")
    case True
    with s show ?thesis by (auto dest!: split_list)
  next
    case False
    with s ne \<open>j \<in> set ?s\<close> have "j \<in> set us" by auto
    then obtain a b where "us = a @ j # b" by (meson split_list)
    with s have "?s = a @ j # b @ i # r" by simp
    from evaluation_order_before [OF this] assms show ?thesis
      by (auto simp: evaluated_before_def)
  qed
qed

lemma shadow_findings_pairs_aux:
  "(i, j) \<in> set (shadow_pairs rs (routing_evaluation_order_indices rs)) \<longleftrightarrow>
     evaluated_before rs i j \<and> rule_covers (rs ! i) (rs ! j)"
  unfolding shadow_pairs_iff
  using evaluation_order_before before_evaluation_order by blast

text \<open>The shadowing pass compares exactly the right pairs: it reports (left, right)
  precisely when the router tries left before right (smaller priority number, or equal and
  declared earlier) and left's constraints cover right's in the sense of the code.\<close>

theorem shadow_findings_pairs:
  "(i, j) \<in> set (shadow_pairs rs (routing_evaluation_order_indices rs)) \<longleftrightarrow>
     evaluated_before rs i j \<and> rule_covers (rs ! i) (rs ! j)"
  by (rule shadow_findings_pairs_aux)

section \<open>What the findings mean\<close>

lemma path_matcher_covers_accepts:
  "path_matcher_covers a b \<Longrightarrow> path_accepts x b path \<Longrightarrow> path_accepts x a path"
  by (cases a; cases b) (auto simp: str_simps)

lemma method_constraints_cover_accepts:
  "method_constraints_cover a b \<Longrightarrow> method_accepts x b m \<Longrightarrow> method_accepts x a m"
  by (cases a; cases b)
     (auto simp: method_accepts_def list_all_iff list_ex_iff, metis upper_with_case)

text \<open>The direction that makes a covering rule cover: every constraint of the left rule is
  one of the right rule.\<close>

definition headers_weaker ::
  "(string, string) hashmap option \<Rightarrow> (string, string) hashmap option \<Rightarrow> bool" where
  "headers_weaker l r = (case l of None \<Rightarrow> True
     | Some a \<Rightarrow> (case r of None \<Rightarrow> a = [] | Some b \<Rightarrow> set a \<subseteq> set b))"

lemma headers_weaker_accept:
  "headers_weaker a b \<Longrightarrow> headers_accept x b hs \<Longrightarrow> headers_accept x a hs"
  by (cases a; cases b) (auto simp: headers_weaker_def headers_accept_def)

text \<open>C31. A \<^verbatim>\<open>RULE_SHADOWED\<close> finding is right whenever the covering rule has no header
  constraint that the shadowed one lacks: then no request whatsoever is routed to the
  shadowed rule.\<close>

theorem shadow_finding_sound:
  assumes "(i, j) \<in> set (shadow_pairs rs (routing_evaluation_order_indices rs))"
    and "headers_weaker (rule_headers (rs ! i)) (rule_headers (rs ! j))"
  shows "\<not> wins x rs p m hs j"
proof
  assume win: "wins x rs p m hs j"
  then have "accepts x (rs ! j) p m hs" by (simp add: wins_def)
  moreover have ij: "evaluated_before rs i j" "rule_covers (rs ! i) (rs ! j)"
    using assms(1) by (simp_all add: shadow_findings_pairs_aux)
  ultimately have "accepts x (rs ! i) p m hs"
    using assms(2) path_matcher_covers_accepts method_constraints_cover_accepts headers_weaker_accept
    unfolding accepts_def rule_covers_def by blast
  with win ij(1) show False
    by (auto simp: wins_def evaluated_before_def)
qed

text \<open>The two rules of the false alarm: the left one asks for one header more.\<close>

definition route_with :: "string \<Rightarrow> string \<Rightarrow> (string, string) hashmap option \<Rightarrow> string option \<Rightarrow> u32 \<Rightarrow> routing_rule" where
  "route_with i pre hs strip pr = \<lparr> rule_id = i, rule_path = Prefix pre, rule_methods = None,
     rule_headers = hs, rule_service_id = Some ''svc'', rule_upstream_url = None,
     rule_strip_prefix = strip, rule_response_headers = None, rule_priority = pr \<rparr>"

definition canary_routes :: "routing_rule list" where
  "canary_routes =
     [route_with ''canary'' ''/api'' (Some [(''env'', ''prod''), (''ver'', ''2'')]) None 10,
      route_with ''stable'' ''/api'' (Some [(''env'', ''prod'')]) None 20]"

text \<open>The header test of the check points the wrong way: it asks that the right rule's
  constraints occur in the left rule.  A usual canary set-up (a rule with one header
  more, tried first) is reported as \<^verbatim>\<open>RULE_SHADOWED\<close>, while requests without the
  extra header are routed to the allegedly unreachable rule.\<close>

theorem shadow_finding_false_alarm:
  "shadow_finding (canary_routes ! 0) (canary_routes ! 1)
     \<in> set (run_strict_config_checks [''canary'', ''stable''] (default_app_config\<lparr> routes := canary_routes \<rparr>))
   \<and> wins example_ext canary_routes ''/api/x'' ''GET'' [(''env'', ''prod'')] 1"
proof -
  have ij: "(0, 1) \<in> set (shadow_pairs canary_routes (routing_evaluation_order_indices canary_routes))"
    unfolding shadow_pairs_iff
    by (rule conjI, rule before_evaluation_order)
       (simp_all add: evaluated_before_def rule_covers_def canary_routes_def route_with_def starts_with_def)
  have sel: "(i, j) \<in> set (shadow_pairs rs (routing_evaluation_order_indices rs)) \<Longrightarrow>
      shadow_finding (rs ! i) (rs ! j) \<in> set (shadow_findings rs)" for i j rs
    by (force simp: shadow_findings_def)
  have "wins example_ext canary_routes ''/api/x'' ''GET'' [(''env'', ''prod'')] 1"
    unfolding wins_def accepts_def
    by (auto simp: canary_routes_def route_with_def method_accepts_def headers_accept_def
        header_accepts_def header_get_def example_ext_def less_Suc_eq to_lowercase_def lower_char_def)
  with sel [OF ij] show ?thesis
    by (simp add: run_strict_config_checks_def Let_def)
qed

text \<open>\<^verbatim>\<open>STRIP_PREFIX_UNREACHABLE\<close>: the message (no matched path begins with the
  prefix, so nothing is ever stripped) is true exactly when the rule's own prefix is not a
  prefix of the one to strip.  A rule for \<^verbatim>\<open>/api\<close> that strips \<^verbatim>\<open>/api/v1\<close>
  is reported although its paths are rewritten.\<close>

theorem strip_prefix_finding_exact:
  assumes "strip_unreachable rule = Some (p, strip)" and "compile x rule = Inr c"
  shows "(\<forall>path. path_accepts x (rule_path rule) path \<longrightarrow> rewrite_path c path = path)
           \<longleftrightarrow> \<not> prefix p strip"
proof -
  have r: "rule_path rule = Prefix p" "rule_strip_prefix rule = Some strip" "strip \<noteq> []"
    and np: "\<not> prefix strip p"
    using assms(1)
    by (auto simp: strip_unreachable_def strip_prefix_applies_to_matched_requests_def str_simps
        split: path_matcher.splits option.splits if_splits)
  have c: "cr_strip_prefix c = Some strip"
    using assms(2) r(2) by (elim compile_InrE) simp
  show ?thesis
  proof
    assume all: "\<forall>path. path_accepts x (rule_path rule) path \<longrightarrow> rewrite_path c path = path"
    show "\<not> prefix p strip"
    proof
      assume "prefix p strip"
      then have "path_accepts x (rule_path rule) (strip @ ''a'')"
        using r(1) by (simp add: prefix_order.trans)
      with all have "rewrite_path c (strip @ ''a'') = strip @ ''a''" by blast
      moreover have "rewrite_path c (strip @ ''a'') = ''a''"
        by (simp add: rewrite_path_def c strip_prefix_str_def)
      ultimately show False using r(3) by simp
    qed
  next
    assume "\<not> prefix p strip"
    with np have "\<not> prefix strip path" if "prefix p path" for path
      using that prefix_same_cases by blast
    then show "\<forall>path. path_accepts x (rule_path rule) path \<longrightarrow> rewrite_path c path = path"
      by (auto simp: r(1) rewrite_path_def c strip_prefix_str_None [THEN iffD2])
  qed
qed

theorem strip_prefix_finding_exact_witness:
  "\<not> (\<forall>path. path_accepts example_ext (Prefix ''/api'') path \<longrightarrow>
        rewrite_path \<lparr> cr_id = ''r'', cr_path = CPrefix ''/api'', cr_methods = None, cr_headers = None,
          cr_service_id = Some ''svc'', cr_upstream_url = None, cr_strip_prefix = Some ''/api/v1'',
          cr_response_headers = None, cr_priority = 10 \<rparr> path = path)"
  using strip_prefix_finding_exact [of "route_with ''r'' ''/api'' None (Some ''/api/v1'') 10" "''/api''" "''/api/v1''"
      example_ext "\<lparr> cr_id = ''r'', cr_path = CPrefix ''/api'', cr_methods = None, cr_headers = None,
          cr_service_id = Some ''svc'', cr_upstream_url = None, cr_strip_prefix = Some ''/api/v1'',
          cr_response_headers = None, cr_priority = 10 \<rparr>"]
  by (simp add: route_with_def strip_unreachable_def strip_prefix_applies_to_matched_requests_def
      starts_with_def compile_def)

section \<open>A configuration without findings\<close>

lemma identical_findings_NilD:
  "identical_findings rs = [] \<Longrightarrow> i < j \<Longrightarrow> j < length rs \<Longrightarrow> \<not> same_matcher (rs ! i) (rs ! j)"
proof (induction rs arbitrary: i j)
  case Nil
  then show ?case by simp
next
  case (Cons r rs)
  then obtain j' where j: "j = Suc j'" "j' < length rs"
    by (cases j) auto
  show ?case
  proof (cases i)
    case 0
    with Cons.prems(1) j show ?thesis
      by (auto simp: filter_empty_conv)
  next
    case (Suc i')
    with Cons j show ?thesis by auto
  qed
qed

lemma distinct_count_list: "distinct xs \<longleftrightarrow> (\<forall>x. count_list xs x \<le> 1)"
proof (induction xs)
  case Nil
  then show ?case by simp
next
  case (Cons a xs)
  have "(\<forall>x. count_list (a # xs) x \<le> 1) \<longleftrightarrow> count_list xs a = 0 \<and> (\<forall>x. count_list xs x \<le> 1)"
  proof
    assume all: "\<forall>x. count_list (a # xs) x \<le> 1"
    have "count_list xs x \<le> 1" for x
      using spec [OF all, of x] by (auto split: if_splits)
    moreover have "count_list xs a = 0"
      using spec [OF all, of a] by simp
    ultimately show "count_list xs a = 0 \<and> (\<forall>x. count_list xs x \<le> 1)" by blast
  qed auto
  with Cons show ?case by (simp add: count_list_0_iff)
qed

lemma duplicate_findings_Nil:
  assumes "id_order_ok ids cfg"
  shows "duplicate_findings ids (routes cfg) = [] \<longleftrightarrow> distinct (map rule_id (routes cfg))"
proof -
  have "count_list (map rule_id (routes cfg)) k = 0" if "k \<notin> set ids" for k
    using assms that by (simp add: id_order_ok_def count_list_0_iff)
  then show ?thesis
    unfolding duplicate_findings_def map_is_Nil_conv filter_empty_conv distinct_count_list
      id_count_def not_less
    by (metis zero_le)
qed

text \<open>C32. A configuration that passes the strict check has at least one route, distinct
  route ids (so an override or a diff by id is unambiguous), no two rules with the same
  matcher, no rule behind one that covers it, and no rule with two targets; and for every
  rule with a prefix matcher other than \<^verbatim>\<open>/\<close> the prefix to strip occurs in every
  matched path.\<close>

theorem strict_passed_guarantees:
  assumes "id_order_ok ids cfg" and "run_strict_config_checks ids cfg = []"
  shows "routes cfg \<noteq> []
    \<and> distinct (map rule_id (routes cfg))
    \<and> (\<forall>i j. i < j \<and> j < length (routes cfg) \<longrightarrow> \<not> same_matcher (routes cfg ! i) (routes cfg ! j))
    \<and> (\<forall>i j. evaluated_before (routes cfg) i j \<longrightarrow> \<not> rule_covers (routes cfg ! i) (routes cfg ! j))
    \<and> (\<forall>r\<in>set (routes cfg). rule_upstream_url r = None \<or> rule_service_id r = None)
    \<and> (\<forall>r\<in>set (routes cfg). \<forall>p strip path. rule_path r = Prefix p \<and> p \<noteq> ''/'' \<and>
          rule_strip_prefix r = Some strip \<and> path_accepts x (rule_path r) path \<longrightarrow> prefix strip path)"
proof -
  let ?rs = "routes cfg"
  have parts: "empty_findings ?rs = []" "duplicate_findings ids ?rs = []" "identical_findings ?rs = []"
      "shadow_findings ?rs = []" "\<forall>r\<in>set ?rs. target_findings r = []"
    using assms(2) by (auto simp: run_strict_config_checks_def Let_def)
  have pairs: "shadow_pairs ?rs (routing_evaluation_order_indices ?rs) = []"
    using parts(4) by (simp add: shadow_findings_def)
  have "\<not> rule_covers (?rs ! i) (?rs ! j)" if "evaluated_before ?rs i j" for i j
    using pairs shadow_findings_pairs_aux [of i j ?rs] that by simp
  moreover have "prefix strip path"
    if "r \<in> set ?rs" "rule_path r = Prefix p" "p \<noteq> ''/''" "rule_strip_prefix r = Some strip" "prefix p path"
    for r p strip path
  proof -
    have "strip_unreachable r = None"
      using bspec [OF parts(5) that(1)]
      by (cases "strip_unreachable r") (auto simp: target_findings_def)
    with that show ?thesis
      by (cases "strip = []")
         (auto simp: strip_unreachable_def strip_prefix_applies_to_matched_requests_def str_simps
           intro: prefix_order.trans split: if_splits)
  qed
  moreover have "\<forall>r\<in>set ?rs. rule_upstream_url r = None \<or> rule_service_id r = None"
    using parts(5) by (auto simp: target_findings_def split: if_splits)
  moreover have "?rs \<noteq> []"
    using parts(1) by (auto simp: empty_findings_def split: if_splits)
  ultimately show ?thesis
    using parts(2,3) identical_findings_NilD [of ?rs] duplicate_findings_Nil [OF assms(1)]
    by auto
qed

section \<open>Examples\<close>

definition nested_routes :: "routing_rule list" where
  "nested_routes = [route_with ''all'' ''/'' None None 10, route_with ''api'' ''/api'' None None 20]"

theorem shadow_finding_sound_witness:
  "\<not> wins example_ext nested_routes ''/api/x'' ''GET'' [] 1"
proof -
  have "(0, 1) \<in> set (shadow_pairs nested_routes (routing_evaluation_order_indices nested_routes))"
    unfolding shadow_findings_pairs_aux
    by (simp add: evaluated_before_def rule_covers_def nested_routes_def route_with_def starts_with_def)
  moreover have "headers_weaker (rule_headers (nested_routes ! 0)) (rule_headers (nested_routes ! 1))"
    by (simp add: headers_weaker_def nested_routes_def route_with_def)
  ultimately show ?thesis by (rule shadow_finding_sound)
qed

theorem strict_passed_guarantees_witness:
  "distinct (map rule_id (rev nested_routes))"
proof -
  let ?cfg = "default_app_config\<lparr> routes := [route_with ''all'' ''/'' None None 20, route_with ''api'' ''/api'' None None 10] \<rparr>"
  have "run_strict_config_checks [''api'', ''all''] ?cfg = []"
    by code_simp
  moreover have "id_order_ok [''api'', ''all''] ?cfg"
    by (auto simp: id_order_ok_def route_with_def)
  ultimately have "distinct (map rule_id (routes ?cfg))"
    using strict_passed_guarantees by blast
  then show ?thesis by (simp add: nested_routes_def route_with_def)
qed

end
