(* ===== verification/Registry.thy ===== *)
theory Registry
  imports Model
begin

text \<open>
  \<^verbatim>\<open>registry/mod.rs\<close>, \<^verbatim>\<open>registry/resolver.rs\<close> and \<^verbatim>\<open>registry/mock.rs\<close>.
  A \<^verbatim>\<open>dyn ServiceRegistry\<close> is a record of its methods; the answer of a method at the
  time of the call is its value, so the network is inside these functions (the four
  implementations are the mock at the end of this theory, \<open>NacosEureka\<close> and \<open>K8s\<close>).  The
  contract \<open>registry_source\<close> says what the resolver may assume of an implementation.
\<close>

section \<open>Instances and health\<close>

record service_instance =
  si_host :: string
  si_port :: u16
  si_metadata :: "(string, string) hashmap"

definition host_port :: "string \<Rightarrow> u16 \<Rightarrow> string" where
  "host_port h p = h @ '':'' @ show_nat (unat p)"

definition base_url :: "service_instance \<Rightarrow> string" where
  "base_url i = ''http://'' @ si_host i @ '':'' @ show_nat (unat (si_port i))"

definition instance_host_port :: "service_instance \<Rightarrow> string" where
  "instance_host_port i = host_port (si_host i) (si_port i)"

lemma host_port_eq [simp]: "host_port h p = host_port h' p' \<longleftrightarrow> h = h' \<and> p = p'"
  by (auto simp: host_port_def host_port_inject [simplified] word_unat_eq_iff)

datatype registry_health = Healthy | Degraded string | Unhealthy string

fun registry_health_json_row :: "u32 \<Rightarrow> string \<Rightarrow> registry_health \<Rightarrow> json" where
  "registry_health_json_row p k Healthy =
     JObj [(''kind'', JStr k), (''priority'', JInt (uint p)), (''status'', JStr ''healthy'')]"
| "registry_health_json_row p k (Degraded msg) =
     JObj [(''kind'', JStr k), (''message'', JStr msg), (''priority'', JInt (uint p)),
           (''status'', JStr ''degraded'')]"
| "registry_health_json_row p k (Unhealthy msg) =
     JObj [(''kind'', JStr k), (''message'', JStr msg), (''priority'', JInt (uint p)),
           (''status'', JStr ''unhealthy'')]"

fun is_unhealthy :: "registry_health \<Rightarrow> bool" where
  "is_unhealthy (Unhealthy _) = True"
| "is_unhealthy _ = False"

definition any_registry_operational :: "(u32 \<times> string \<times> registry_health) list \<Rightarrow> bool" where
  "any_registry_operational report = list_ex (\<lambda>(_, _, h). \<not> is_unhealthy h) report"

section \<open>Registries\<close>

datatype registry_kind = KNacos | KEureka | KKubernetes | KMock

fun show_registry_kind :: "registry_kind \<Rightarrow> string" where
  "show_registry_kind KNacos = ''Nacos''"
| "show_registry_kind KEureka = ''Eureka''"
| "show_registry_kind KKubernetes = ''Kubernetes''"
| "show_registry_kind KMock = ''Mock''"

record service_registry =
  kind :: registry_kind
  get_healthy_instances :: "string \<Rightarrow> registry_error + service_instance list"
  health :: registry_health

record multi_registry_resolver =
  res_registries :: "(u32 \<times> service_registry) list"
  res_query_mode :: registry_query_mode

definition sort_registries :: "(u32 \<times> service_registry) list \<Rightarrow> (u32 \<times> service_registry) list" where
  "sort_registries rs = sort_key fst rs"

definition resolver_new :: "(u32 \<times> service_registry) list \<Rightarrow> registry_query_mode \<Rightarrow> multi_registry_resolver" where
  "resolver_new rs m = \<lparr> res_registries = sort_registries rs, res_query_mode = m \<rparr>"

definition resolver_is_empty :: "multi_registry_resolver \<Rightarrow> bool" where
  "resolver_is_empty r = (res_registries r = [])"

definition health_report :: "multi_registry_resolver \<Rightarrow> (u32 \<times> string \<times> registry_health) list" where
  "health_report r =
     map (\<lambda>(p, reg). (p, show_registry_kind (kind reg), health reg)) (res_registries r)"

fun resolve_priority ::
  "(u32 \<times> service_registry) list \<Rightarrow> string \<Rightarrow> registry_error + service_instance list" where
  "resolve_priority [] svc = Inl (AllFailed svc)"
| "resolve_priority ((_, reg) # rs) svc =
     (case get_healthy_instances reg svc of
        Inr insts \<Rightarrow> if insts \<noteq> [] then Inr insts else resolve_priority rs svc
      | Inl e \<Rightarrow> resolve_priority rs svc)"

definition instance_key :: "service_instance \<Rightarrow> string \<times> u16" where
  "instance_key i = (si_host i, si_port i)"

fun merge_results ::
  "(registry_error + service_instance list) list \<Rightarrow> (string \<times> u16) set \<times> service_instance list
    \<Rightarrow> (string \<times> u16) set \<times> service_instance list" where
  "merge_results [] acc = acc"
| "merge_results (result # results) acc =
     (case result of
        Inr insts \<Rightarrow> merge_results results (fold (push_unseen instance_key) insts acc)
      | Inl e \<Rightarrow> merge_results results acc)"

definition resolve_merge ::
  "(u32 \<times> service_registry) list \<Rightarrow> string \<Rightarrow> registry_error + service_instance list" where
  "resolve_merge rs svc =
     (let results = map (\<lambda>(_, reg). get_healthy_instances reg svc) rs;
          merged = snd (merge_results results ({}, []))
      in if merged = [] then Inl (AllFailed svc) else Inr merged)"

definition resolve_service ::
  "multi_registry_resolver \<Rightarrow> string \<Rightarrow> registry_error + service_instance list" where
  "resolve_service r svc =
     (case res_query_mode r of
        Priority \<Rightarrow> resolve_priority (res_registries r) svc
      | Merge \<Rightarrow> resolve_merge (res_registries r) svc)"

interpretation registry_table: priority_table fst sort_registries
  by unfold_locales (simp_all add: sort_registries_def sort_key_stable)

section \<open>What the resolver answers\<close>

definition offers :: "service_registry \<Rightarrow> string \<Rightarrow> service_instance list" where
  "offers reg svc = (case get_healthy_instances reg svc of Inr insts \<Rightarrow> insts | Inl _ \<Rightarrow> [])"

text \<open>The contract of a registry: \<open>ask r s\<close> is the answer of implementation \<open>r\<close>,
  \<open>lists r s i\<close> that its backend lists \<open>i\<close> as usable for service \<open>s\<close>.\<close>

locale registry_source =
  fixes ask :: "'r \<Rightarrow> string \<Rightarrow> registry_error + service_instance list"
    and lists :: "'r \<Rightarrow> string \<Rightarrow> service_instance \<Rightarrow> bool"
  assumes ask_lists: "ask r s = Inr insts \<Longrightarrow> i \<in> set insts \<Longrightarrow> lists r s i"
begin

lemma offers_lists:
  assumes "get_healthy_instances reg = ask r" and "i \<in> set (offers reg s)"
  shows "lists r s i"
proof (cases "ask r s")
  case (Inl e)
  with assms show ?thesis by (simp add: offers_def)
next
  case (Inr l)
  with assms have "i \<in> set l" by (simp add: offers_def)
  with Inr show ?thesis by (rule ask_lists)
qed

lemma offers_none:
  assumes "get_healthy_instances reg = ask r" and "\<forall>i. \<not> lists r s i"
  shows "offers reg s = []"
  using offers_lists [OF assms(1)] assms(2) by (metis list.set_intros(1) neq_Nil_conv)

end

lemma resolve_priority_find:
  "resolve_priority regs svc =
     (case find (\<lambda>(p, reg). offers reg svc \<noteq> []) regs of
        None \<Rightarrow> Inl (AllFailed svc) | Some (p, reg) \<Rightarrow> Inr (offers reg svc))"
  by (induction regs svc rule: resolve_priority.induct) (auto simp: offers_def split: sum.split)

lemma merge_results_fold:
  "merge_results results acc =
     fold (push_unseen instance_key) (concat (map (case_sum (\<lambda>_. []) id) results)) acc"
  by (induction results acc rule: merge_results.induct) (auto split: sum.split)

lemma resolve_merge_first_seen:
  "resolve_merge regs svc =
     (let all = concat (map (\<lambda>(p, reg). offers reg svc) regs)
      in if all = [] then Inl (AllFailed svc) else Inr (first_seen instance_key {} all))"
proof -
  have "map (case_sum (\<lambda>_. []) id) (map (\<lambda>(_, reg). get_healthy_instances reg svc) regs)
      = map (\<lambda>(p, reg). offers reg svc) regs"
    by (auto simp: offers_def split: sum.split)
  then show ?thesis
    by (simp only: resolve_merge_def Let_def merge_results_fold fold_push_unseen snd_conv
        append_Nil first_seen_empty_iff)
qed

text \<open>C16. Priority mode: the answer is the whole non-empty list of one registry, and every
  registry that is tried before it (smaller number, or same number and configured
  earlier) reported nothing or failed; if there is no such registry the error is
  \<^verbatim>\<open>AllFailed\<close>.\<close>

theorem resolve_priority_spec:
  assumes "R = resolver_new regs Priority"
  shows "case resolve_service R svc of
      Inl e \<Rightarrow> e = AllFailed svc \<and> (\<forall>(p, reg)\<in>set regs. offers reg svc = [])
    | Inr insts \<Rightarrow> insts \<noteq> [] \<and>
        (\<exists>us p reg vs. regs = us @ (p, reg) # vs \<and> get_healthy_instances reg svc = Inr insts \<and>
           (\<forall>(p', reg')\<in>set (us @ vs). p' < p \<longrightarrow> offers reg' svc = []) \<and>
           (\<forall>(p', reg')\<in>set us. p' = p \<longrightarrow> offers reg' svc = []))"
proof -
  let ?P = "\<lambda>(p :: u32, reg). offers reg svc \<noteq> []"
  have R: "resolve_service R svc = resolve_priority (sort_registries regs) svc"
    by (simp add: assms resolver_new_def resolve_service_def)
  show ?thesis
  proof (cases "find ?P (sort_registries regs)")
    case None
    then show ?thesis
      unfolding R resolve_priority_find using None [unfolded registry_table.no_hit]
      by auto
  next
    case (Some x)
    obtain p reg where x: "x = (p, reg)" by force
    from registry_table.hit_member [OF Some] x have "offers reg svc \<noteq> []" by simp
    moreover from registry_table.hit_declared_first [OF Some] x obtain us vs
      where regs: "regs = us @ (p, reg) # vs"
        and us: "\<forall>u\<in>set us. \<not> (fst u = p \<and> ?P u)"
      by (auto simp: find_Some_append)
    moreover have "offers reg' svc = []" if "(p', reg') \<in> set (us @ vs)" "p' < p" for p' reg'
      using registry_table.hit_least [OF Some, of "(p', reg')"] that regs x
      by (cases "offers reg' svc = []") (auto simp: not_le [symmetric])
    moreover have "get_healthy_instances reg svc = Inr (offers reg svc)"
      using \<open>offers reg svc \<noteq> []\<close> by (auto simp: offers_def split: sum.splits)
    moreover have "\<forall>(p', reg')\<in>set us. p' = p \<longrightarrow> offers reg' svc = []"
      using us by auto
    ultimately have "\<exists>us p reg' vs. regs = us @ (p, reg') # vs \<and>
           get_healthy_instances reg' svc = Inr (offers reg svc) \<and>
           (\<forall>(p', reg')\<in>set (us @ vs). p' < p \<longrightarrow> offers reg' svc = []) \<and>
           (\<forall>(p', reg')\<in>set us. p' = p \<longrightarrow> offers reg' svc = [])"
      by blast
    with \<open>offers reg svc \<noteq> []\<close> show ?thesis
      unfolding R resolve_priority_find Some x by simp
  qed
qed

lemma resolve_service_shape:
  "resolve_service (resolver_new regs m) svc =
     (let all = concat (map (\<lambda>(p, reg). offers reg svc) (sort_registries regs))
      in if all = [] then Inl (AllFailed svc)
         else case m of Merge \<Rightarrow> Inr (first_seen instance_key {} all)
              | Priority \<Rightarrow> (case find (\<lambda>(p, reg). offers reg svc \<noteq> []) (sort_registries regs) of
                  None \<Rightarrow> Inl (AllFailed svc) | Some (p, reg) \<Rightarrow> Inr (offers reg svc)))"
proof (cases m)
  case Priority
  have "concat (map (\<lambda>(p, reg). offers reg svc) (sort_registries regs)) = [] \<Longrightarrow>
      find (\<lambda>(p, reg). offers reg svc \<noteq> []) (sort_registries regs) = None"
    by (auto simp: find_None_iff)
  with Priority show ?thesis
    by (auto simp: resolve_service_def resolver_new_def resolve_priority_find Let_def)
next
  case Merge
  then show ?thesis
    by (simp add: resolve_service_def resolver_new_def resolve_merge_first_seen)
qed

lemma find_in_offers:
  assumes "find (\<lambda>y. instance_key y = k) (concat (map (\<lambda>(p, reg). offers reg svc) l)) = Some i"
  shows "\<exists>p reg. find (\<lambda>(p :: u32, reg). k \<in> instance_key ` set (offers reg svc)) l = Some (p, reg) \<and> i \<in> set (offers reg svc)"
  using assms
proof (induction l)
  case Nil
  then show ?case by simp
next
  case (Cons a l)
  obtain p reg where a: "a = (p, reg)" by force
  show ?case
  proof (cases "k \<in> instance_key ` set (offers reg svc)")
    case True
    then have "find (\<lambda>y. instance_key y = k) (offers reg svc) \<noteq> None"
      by (auto simp: find_None_iff)
    with Cons.prems a have "find (\<lambda>y. instance_key y = k) (offers reg svc) = Some i"
      by (auto simp: find_append)
    then have "i \<in> set (offers reg svc)"
      by (metis find_Some_iff nth_mem)
    with True a show ?thesis by auto
  next
    case False
    then have "find (\<lambda>y. instance_key y = k) (offers reg svc) = None"
      using a by (simp add: find_None_iff) (metis image_eqI)
    with Cons a False show ?thesis by (auto simp: find_append)
  qed
qed

lemma merged_from_least:
  assumes "i \<in> set (first_seen instance_key {} (concat (map (\<lambda>(p, reg). offers reg svc) (sort_registries regs))))"
  shows "\<exists>(p, reg)\<in>set regs. i \<in> set (offers reg svc) \<and>
      (\<forall>(p', reg')\<in>set regs. instance_key i \<in> instance_key ` set (offers reg' svc) \<longrightarrow> p \<le> p')"
proof -
  let ?P = "\<lambda>(p :: u32, reg). instance_key i \<in> instance_key ` set (offers reg svc)"
  obtain p reg where hit: "find ?P (sort_registries regs) = Some (p, reg)" "i \<in> set (offers reg svc)"
    using find_in_offers [OF first_seen_is_first [OF assms]] by blast
  from registry_table.hit_member [OF hit(1)] have "(p, reg) \<in> set regs" by simp
  with hit(2) registry_table.hit_least [OF hit(1)] show ?thesis by fastforce
qed

text \<open>C17. Merge mode: the answer has no two instances with the same host and port, offers
  every host and port that some registry reports, keeps for each of them the entry of the
  registry with the least priority number, and is an error only when no registry reports
  anything.\<close>

theorem resolve_merge_spec:
  assumes "R = resolver_new regs Merge"
  shows "case resolve_service R svc of
      Inl e \<Rightarrow> e = AllFailed svc \<and> (\<forall>(p, reg)\<in>set regs. offers reg svc = [])
    | Inr insts \<Rightarrow> insts \<noteq> [] \<and> distinct (map instance_key insts)
        \<and> instance_key ` set insts = (\<Union>(p, reg)\<in>set regs. instance_key ` set (offers reg svc))
        \<and> (\<forall>i\<in>set insts. \<exists>(p, reg)\<in>set regs. i \<in> set (offers reg svc) \<and>
              (\<forall>(p', reg')\<in>set regs. instance_key i \<in> instance_key ` set (offers reg' svc) \<longrightarrow> p \<le> p'))"
proof -
  let ?l = "sort_registries regs"
  let ?all = "concat (map (\<lambda>(p, reg). offers reg svc) ?l)"
  have R: "resolve_service R svc = (if ?all = [] then Inl (AllFailed svc) else Inr (first_seen instance_key {} ?all))"
    by (simp add: assms resolve_service_shape Let_def)
  have "instance_key ` set (first_seen instance_key {} ?all) =
      (\<Union>(p, reg)\<in>set regs. instance_key ` set (offers reg svc))"
    by (auto simp: key_first_seen registry_table.table_set)
  with merged_from_least [of _ svc regs] show ?thesis
    unfolding R
    by (auto simp: first_seen_empty_iff distinct_first_seen registry_table.table_set)
qed

text \<open>Availability does not depend on the query mode: a service resolves exactly when
  some registry reports an instance of it; the answer is never an empty list, and the only
  error is \<^verbatim>\<open>AllFailed\<close>.  In particular the proxy's branch for an empty instance
  list, and the 404 that \<^verbatim>\<open>ServiceNotFound\<close> would give, cannot be reached.\<close>

theorem resolve_available_iff:
  "((\<exists>insts. resolve_service (resolver_new regs m) svc = Inr insts)
      \<longleftrightarrow> (\<exists>(p, reg)\<in>set regs. offers reg svc \<noteq> []))
   \<and> resolve_service (resolver_new regs m) svc \<noteq> Inr []
   \<and> (\<forall>e. resolve_service (resolver_new regs m) svc = Inl e \<longrightarrow> e = AllFailed svc)"
proof (cases "\<exists>(p, reg)\<in>set regs. offers reg svc \<noteq> []")
  case False
  then show ?thesis
    by (auto simp: resolve_service_shape Let_def registry_table.table_set)
next
  case True
  then have "find (\<lambda>(p, reg). offers reg svc \<noteq> []) (sort_registries regs) \<noteq> None"
    by (simp add: registry_table.no_hit)
  then obtain p reg where hit: "find (\<lambda>(p, reg). offers reg svc \<noteq> []) (sort_registries regs) = Some (p, reg)"
    by auto
  from registry_table.hit_member [OF this] have "offers reg svc \<noteq> []" by simp
  moreover have "concat (map (\<lambda>(p, reg). offers reg svc) (sort_registries regs)) \<noteq> []"
    using True unfolding concat_eq_Nil_conv set_map registry_table.table_set by fast
  ultimately have "\<exists>l. l \<noteq> [] \<and> resolve_service (resolver_new regs m) svc = Inr l"
    using hit by (cases m) (simp_all add: resolve_service_shape Let_def first_seen_empty_iff)
  with True show ?thesis by auto
qed

lemma resolved_is_offered:
  assumes "resolve_service (resolver_new regs m) svc = Inr insts" and "i \<in> set insts"
  shows "\<exists>(p, reg)\<in>set regs. i \<in> set (offers reg svc)"
proof (cases "m")
  case Priority
  with assms obtain p reg where "find (\<lambda>(p, reg). offers reg svc \<noteq> []) (sort_registries regs) = Some (p, reg)"
      and "insts = offers reg svc"
    by (auto simp: resolve_service_shape Let_def split: if_splits option.splits)
  with registry_table.hit_member [of _ regs "(p, reg)"] assms(2) show ?thesis by auto
next
  case Merge
  with assms set_first_seen_subset [of instance_key "{}"] show ?thesis
    by (fastforce simp: resolve_service_shape Let_def registry_table.table_set split: if_splits)
qed

section \<open>The mock registry\<close>

definition mock_instance :: "mock_service_instance \<Rightarrow> service_instance" where
  "mock_instance inst = \<lparr> si_host = mi_host inst, si_port = mi_port inst, si_metadata = mi_metadata inst \<rparr>"

definition mock_get_healthy_instances ::
  "mock_registry_config \<Rightarrow> string \<Rightarrow> registry_error + service_instance list" where
  "mock_get_healthy_instances cfg service_id =
     (case map_of (mc_error_services cfg) service_id of
        Some msg \<Rightarrow> Inl (UnexpectedResponse msg)
      | None \<Rightarrow> Inr (map mock_instance
          (case map_of (mc_services cfg) service_id of Some l \<Rightarrow> l | None \<Rightarrow> [])))"

definition mock_health :: "mock_registry_config \<Rightarrow> registry_health" where
  "mock_health cfg =
     (case mc_health_behavior cfg of
        MockHealthy \<Rightarrow> Healthy
      | MockDegraded message \<Rightarrow> if message = [] then Degraded ''mock degraded'' else Degraded message
      | MockUnhealthy message \<Rightarrow> if message = [] then Unhealthy ''mock unhealthy'' else Unhealthy message)"

definition mock_registry :: "mock_registry_config \<Rightarrow> service_registry" where
  "mock_registry cfg = \<lparr> kind = KMock, get_healthy_instances = mock_get_healthy_instances cfg,
     health = mock_health cfg \<rparr>"

definition mock_lists :: "mock_registry_config \<Rightarrow> string \<Rightarrow> service_instance \<Rightarrow> bool" where
  "mock_lists cfg s i = (map_of (mc_error_services cfg) s = None \<and>
     (\<exists>l. map_of (mc_services cfg) s = Some l \<and> i \<in> mock_instance ` set l))"

interpretation mock: registry_source mock_get_healthy_instances mock_lists
  by unfold_locales (auto simp: mock_get_healthy_instances_def mock_lists_def split: option.splits)

section \<open>Examples\<close>

definition example_registry :: "string \<Rightarrow> service_registry" where
  "example_registry h = mock_registry \<lparr> mc_priority = 1,
     mc_services = [(''svc'', [\<lparr> mi_host = h, mi_port = 80, mi_metadata = [] \<rparr>])],
     mc_error_services = [], mc_health_behavior = MockHealthy \<rparr>"

lemma example_offers: "offers (example_registry h) ''svc'' = [\<lparr> si_host = h, si_port = 80, si_metadata = [] \<rparr>]"
  by (simp add: offers_def example_registry_def mock_registry_def mock_get_healthy_instances_def mock_instance_def)

theorem resolve_priority_spec_witness:
  "case resolve_service (resolver_new [(2, example_registry ''b''), (1, example_registry ''a'')] Priority) ''svc'' of
     Inl e \<Rightarrow> False | Inr insts \<Rightarrow> insts \<noteq> []"
  using resolve_priority_spec [of _ "[(2, example_registry ''b''), (1, example_registry ''a'')]" "''svc''", OF refl]
  by (auto simp: example_offers split: sum.splits)

theorem resolve_merge_spec_witness:
  "case resolve_service (resolver_new [(2, example_registry ''b''), (1, example_registry ''a'')] Merge) ''svc'' of
     Inl e \<Rightarrow> False
   | Inr insts \<Rightarrow> distinct (map instance_key insts) \<and> instance_key ` set insts = {(''a'', 80), (''b'', 80)}"
  using resolve_merge_spec [of _ "[(2, example_registry ''b''), (1, example_registry ''a'')]" "''svc''", OF refl]
  by (auto simp: example_offers instance_key_def split: sum.splits)

theorem resolve_available_iff_witness:
  "\<exists>insts. insts \<noteq> [] \<and>
     resolve_service (resolver_new [(1, example_registry ''a'')] Merge) ''svc'' = Inr insts"
  using resolve_available_iff [of "[(1, example_registry ''a'')]" Merge "''svc''"]
  by (auto simp: example_offers)

end
