(* ===== verification/Serde.thy ===== *)
theory Serde
  imports Model "HOL-Library.List_Lexorder" "HOL-Library.Char_ord"
begin

text \<open>
  The JSON form of the configuration types of \<^verbatim>\<open>config/model.rs\<close>, as their
  \<^verbatim>\<open>Serialize\<close> attributes say: snake-case names, enums tagged by
  \<^verbatim>\<open>type\<close>, absent options as \<^verbatim>\<open>null\<close>, objects in key order.
  The comparison and the snapshot of configurations work on these values.
\<close>

section \<open>Serialization of the configuration\<close>

definition json_word :: "'a :: len word \<Rightarrow> json" where
  "json_word n = JInt (uint n)"

definition json_opt :: "('a \<Rightarrow> json) \<Rightarrow> 'a option \<Rightarrow> json" where
  "json_opt f v = (case v of None \<Rightarrow> JNull | Some y \<Rightarrow> f y)"

definition json_strs :: "string list \<Rightarrow> json" where
  "json_strs l = JArr (map JStr l)"

definition json_map :: "('a \<Rightarrow> json) \<Rightarrow> (string, 'a) hashmap \<Rightarrow> json" where
  "json_map f m = JObj (map (\<lambda>(k, v). (k, f v)) (sort_key fst m))"

definition plugin_json :: "plugin_config \<Rightarrow> json" where
  "plugin_json p = JObj [(''config'', pc_config p), (''enabled'', JBool (pc_enabled p)),
     (''name'', JStr (pc_name p)), (''order'', json_word (pc_order p))]"

definition health_check_json :: "health_check_config \<Rightarrow> json" where
  "health_check_json h = JObj [(''healthy_threshold'', json_word (hc_healthy_threshold h)),
     (''interval_secs'', json_word (hc_interval_secs h)), (''path'', JStr (hc_path h)),
     (''timeout_secs'', json_word (hc_timeout_secs h)),
     (''unhealthy_threshold'', json_word (hc_unhealthy_threshold h))]"

fun selection_json :: "instance_selection \<Rightarrow> json" where
  "selection_json First = JStr ''first''"
| "selection_json RoundRobin = JStr ''round_robin''"
| "selection_json Random = JStr ''random''"
| "selection_json WeightedRoundRobin = JStr ''weighted_round_robin''"

definition server_json :: "server_config \<Rightarrow> json" where
  "server_json s = JObj [
     (''circuit_breaker_recovery_secs'', json_word (circuit_breaker_recovery_secs s)),
     (''circuit_breaker_threshold'', json_word (circuit_breaker_threshold s)),
     (''health_check'', json_opt health_check_json (health_check s)),
     (''host'', JStr (host s)),
     (''instance_selection'', selection_json (instance_selection s)),
     (''max_retries'', json_word (max_retries s)),
     (''plugins'', JArr (map plugin_json (plugins s))),
     (''port'', json_word (port s)),
     (''upstream_timeout_secs'', json_word (upstream_timeout_secs s))]"

definition nacos_auth_json :: "nacos_auth \<Rightarrow> json" where
  "nacos_auth_json a = JObj [(''password'', JStr (na_password a)),
     (''token_refresh_interval_secs'', json_word (na_token_refresh_interval_secs a)),
     (''username'', JStr (na_username a))]"

definition basic_auth_json :: "basic_auth \<Rightarrow> json" where
  "basic_auth_json a = JObj [(''password'', JStr (ba_password a)), (''username'', JStr (ba_username a))]"

definition k8s_auth_json :: "k8s_auth \<Rightarrow> json" where
  "k8s_auth_json a = JObj [(''token'', json_opt JStr (ka_token a)), (''token_file'', json_opt JStr (ka_token_file a))]"

fun mock_health_json :: "mock_health_behavior \<Rightarrow> json" where
  "mock_health_json MockHealthy = JObj [(''type'', JStr ''healthy'')]"
| "mock_health_json (MockDegraded m) = JObj [(''message'', JStr m), (''type'', JStr ''degraded'')]"
| "mock_health_json (MockUnhealthy m) = JObj [(''message'', JStr m), (''type'', JStr ''unhealthy'')]"

definition mock_instance_json :: "mock_service_instance \<Rightarrow> json" where
  "mock_instance_json i = JObj [(''host'', JStr (mi_host i)), (''metadata'', json_map JStr (mi_metadata i)),
     (''port'', json_word (mi_port i))]"

fun registry_json :: "registry_config \<Rightarrow> json" where
  "registry_json (Nacos c) = JObj [(''auth'', json_opt nacos_auth_json (nc_auth c)),
     (''group'', json_opt JStr (nc_group c)), (''namespace'', json_opt JStr (nc_namespace c)),
     (''priority'', json_word (nc_priority c)), (''server_addr'', JStr (nc_server_addr c)),
     (''type'', JStr ''nacos'')]"
| "registry_json (Eureka c) = JObj [(''auth'', json_opt basic_auth_json (ec_auth c)),
     (''health_path'', JStr (ec_health_path c)), (''priority'', json_word (ec_priority c)),
     (''server_url'', JStr (ec_server_url c)), (''type'', JStr ''eureka'')]"
| "registry_json (Kubernetes c) = JObj [(''api_server_url'', JStr (kc_api_server_url c)),
     (''auth'', json_opt k8s_auth_json (kc_auth c)),
     (''endpoint_slice_label_selector'', json_opt JStr (kc_endpoint_slice_label_selector c)),
     (''insecure_skip_tls_verify'', JBool (kc_insecure_skip_tls_verify c)),
     (''kubeconfig_context'', json_opt JStr (kc_kubeconfig_context c)),
     (''kubeconfig_path'', json_opt JStr (kc_kubeconfig_path c)),
     (''namespace'', json_opt JStr (kc_namespace c)), (''priority'', json_word (kc_priority c)),
     (''type'', JStr ''kubernetes'')]"
| "registry_json (Mock c) = JObj [(''error_services'', json_map JStr (mc_error_services c)),
     (''health_behavior'', mock_health_json (mc_health_behavior c)),
     (''priority'', json_word (mc_priority c)),
     (''services'', json_map (\<lambda>is. JArr (map mock_instance_json is)) (mc_services c)),
     (''type'', JStr ''mock'')]"

fun query_mode_json :: "registry_query_mode \<Rightarrow> json" where
  "query_mode_json Priority = JStr ''priority''"
| "query_mode_json Merge = JStr ''merge''"

definition registries_json :: "registries_config \<Rightarrow> json" where
  "registries_json r = JObj [(''query_mode'', query_mode_json (query_mode r)),
     (''sources'', JArr (map registry_json (sources r)))]"

definition tagged_value :: "string \<Rightarrow> string \<Rightarrow> json" where
  "tagged_value t v = JObj [(''type'', JStr t), (''value'', JStr v)]"

fun path_json :: "path_matcher \<Rightarrow> json" where
  "path_json (Exact v) = tagged_value ''exact'' v"
| "path_json (Prefix v) = tagged_value ''prefix'' v"
| "path_json (Glob v) = tagged_value ''glob'' v"
| "path_json (Regex v) = tagged_value ''regex'' v"

definition rule_json :: "routing_rule \<Rightarrow> json" where
  "rule_json r = JObj [(''headers'', json_opt (json_map JStr) (rule_headers r)), (''id'', JStr (rule_id r)),
     (''methods'', json_opt json_strs (rule_methods r)), (''path'', path_json (rule_path r)),
     (''priority'', json_word (rule_priority r)),
     (''response_headers'', json_opt (json_map JStr) (rule_response_headers r)),
     (''service_id'', json_opt JStr (rule_service_id r)),
     (''strip_prefix'', json_opt JStr (rule_strip_prefix r)),
     (''upstream_url'', json_opt JStr (rule_upstream_url r))]"

section \<open>Well-formed values\<close>

text \<open>Every object lists its keys in strictly increasing order.\<close>

fun json_ok :: "json \<Rightarrow> bool" where
  "json_ok (JArr l) = (\<forall>v\<in>set l. json_ok v)"
| "json_ok (JObj m) = (sorted_wrt (<) (map fst m) \<and> (\<forall>kv\<in>set m. json_ok (snd kv)))"
| "json_ok _ = True"

lemma map_of_restore: "distinct (map fst m) \<Longrightarrow> map (\<lambda>k. (k, the (map_of m k))) (map fst m) = m"
  by (auto simp: comp_def map_of_is_SomeI intro!: map_idI)

lemma sorted_map_of_inject:
  assumes "sorted_wrt (<) (map fst (m :: (string \<times> 'a) list))" "sorted_wrt (<) (map fst m')" "map_of m = map_of m'"
  shows "m = m'"
proof -
  have d: "distinct (map fst m)" "distinct (map fst m')"
    using assms(1,2) by (simp_all add: strict_sorted_iff)
  then have "set m = set m'"
    using assms(3) by (simp add: map_of_inject_set)
  then have "map fst m = map fst m'"
    using assms(1,2) by (metis list.set_map strict_sorted_equal)
  with d assms(3) show ?thesis
    by (metis map_of_restore)
qed

lemma strict_sorted_sort_key:
  assumes "hashmap_ok m"
  shows "sorted_wrt (<) (map fst (sort_key fst (m :: (string, 'a) hashmap)))"
proof -
  have "distinct (map fst (sort_key fst m))"
    using assms by (simp add: hashmap_ok_def distinct_map)
  then show ?thesis
    by (simp add: strict_sorted_iff)
qed

lemma map_of_sort_key: "hashmap_ok m \<Longrightarrow> map_of (sort_key fst m) = map_of (m :: (string, 'a) hashmap)"
  by (rule map_of_inject_set [THEN iffD2]) (simp_all add: hashmap_ok_def distinct_map)

text \<open>Maps of the configuration have distinct keys, plugin configurations sorted objects.\<close>

fun registry_ok :: "registry_config \<Rightarrow> bool" where
  "registry_ok (Mock c) = (hashmap_ok (mc_error_services c) \<and> hashmap_ok (mc_services c) \<and>
     (\<forall>(s, is)\<in>set (mc_services c). \<forall>i\<in>set is. hashmap_ok (mi_metadata i)))"
| "registry_ok _ = True"

definition rule_ok :: "routing_rule \<Rightarrow> bool" where
  "rule_ok r = (pred_option hashmap_ok (rule_headers r) \<and> pred_option hashmap_ok (rule_response_headers r))"

definition config_ok :: "app_config \<Rightarrow> bool" where
  "config_ok cfg = (list_all (\<lambda>p. json_ok (pc_config p)) (plugins (server cfg)) \<and>
     list_all registry_ok (sources (registries cfg)) \<and> list_all rule_ok (routes cfg))"

section \<open>Equality up to the order of hash maps\<close>

text \<open>Hash maps with the same entries.\<close>

definition same_map :: "('k, 'v) hashmap \<Rightarrow> ('k, 'v) hashmap \<Rightarrow> bool" where
  "same_map m m' = (map_of m = map_of m')"

definition instance_equiv :: "mock_service_instance \<Rightarrow> mock_service_instance \<Rightarrow> bool" where
  "instance_equiv a b = (mi_host a = mi_host b \<and> mi_port a = mi_port b \<and> same_map (mi_metadata a) (mi_metadata b))"

fun registry_equiv :: "registry_config \<Rightarrow> registry_config \<Rightarrow> bool" where
  "registry_equiv (Mock c) (Mock d) = (mc_priority c = mc_priority d \<and> mc_health_behavior c = mc_health_behavior d \<and>
     same_map (mc_error_services c) (mc_error_services d) \<and>
     (\<forall>s. rel_option (list_all2 instance_equiv) (map_of (mc_services c) s) (map_of (mc_services d) s)))"
| "registry_equiv a b = (a = b)"

definition rule_equiv :: "routing_rule \<Rightarrow> routing_rule \<Rightarrow> bool" where
  "rule_equiv a b = (rule_id a = rule_id b \<and> rule_path a = rule_path b \<and> rule_methods a = rule_methods b \<and>
     rule_service_id a = rule_service_id b \<and> rule_upstream_url a = rule_upstream_url b \<and>
     rule_strip_prefix a = rule_strip_prefix b \<and> rule_priority a = rule_priority b \<and>
     rel_option same_map (rule_headers a) (rule_headers b) \<and>
     rel_option same_map (rule_response_headers a) (rule_response_headers b))"

end
