(* ===== verification/Decode.thy ===== *)
theory Decode
  imports Serde "HOL-Library.Monad_Syntax"
begin

text \<open>
  Reading the configuration: the \<^verbatim>\<open>Deserialize\<close> attributes of
  \<^verbatim>\<open>config/model.rs\<close>, as decoders of JSON-like trees.  A tree is what the parser
  (\<^verbatim>\<open>serde_yaml\<close>, \<^verbatim>\<open>serde_json\<close>) hands to the decoder; which text
  gives which tree is the parser's business.  The rules are those of \<^verbatim>\<open>serde\<close>:
  unknown keys are ignored, a known key must not occur twice, a missing key is an error unless
  the field has a default or is an option, an explicit value must have the field's type.  That
  a value is refused is modelled, the text of the error is not.  (Structs given as sequences and
  variants given by their index, which \<^verbatim>\<open>serde\<close> also accepts, are left out.)
\<close>

section \<open>Decoders\<close>

type_synonym 'a decoder = "json \<Rightarrow> 'a option"

text \<open>Reading a text: the parser's error, or the tree decoded.  The text of a refusal is a
  parameter.\<close>

definition decode_tree :: "(json \<Rightarrow> string) \<Rightarrow> 'a decoder \<Rightarrow> string + json \<Rightarrow> string + 'a" where
  "decode_tree refusal d t =
     (case t of
        Inl e \<Rightarrow> Inl e
      | Inr v \<Rightarrow> (case d v of None \<Rightarrow> Inl (refusal v) | Some y \<Rightarrow> Inr y))"

fun opt_map :: "('a \<Rightarrow> 'b option) \<Rightarrow> 'a list \<Rightarrow> 'b list option" where
  "opt_map f [] = Some []"
| "opt_map f (y # ys) = do { z \<leftarrow> f y; zs \<leftarrow> opt_map f ys; Some (z # zs) }"

definition of_str :: "string decoder" where
  "of_str v = (case v of JStr s \<Rightarrow> Some s | _ \<Rightarrow> None)"

definition of_bool :: "bool decoder" where
  "of_bool v = (case v of JBool b \<Rightarrow> Some b | _ \<Rightarrow> None)"

definition of_word :: "'a :: len word decoder" where
  "of_word v =
     (case v of JInt i \<Rightarrow> if 0 \<le> i \<and> i < 2 ^ LENGTH('a) then Some (word_of_int i) else None | _ \<Rightarrow> None)"

definition of_opt :: "'a decoder \<Rightarrow> 'a option decoder" where
  "of_opt d v = (if v = JNull then Some None else map_option Some (d v))"

definition of_list :: "'a decoder \<Rightarrow> 'a list decoder" where
  "of_list d v = (case v of JArr vs \<Rightarrow> opt_map d vs | _ \<Rightarrow> None)"

definition hashmap_of :: "('k \<times> 'v) list \<Rightarrow> ('k, 'v) hashmap" where
  "hashmap_of l = fold (\<lambda>(k, v). hashmap_insert k v) l []"

definition of_map :: "'a decoder \<Rightarrow> (string, 'a) hashmap decoder" where
  "of_map d v =
     (case v of JObj m \<Rightarrow> map_option hashmap_of (opt_map (\<lambda>(k, v). map_option (Pair k) (d v)) m) | _ \<Rightarrow> None)"

text \<open>\<^verbatim>\<open>serde_json::Value\<close>, whose objects are ordered maps.\<close>

fun value_of_json :: "json \<Rightarrow> json" where
  "value_of_json (JArr l) = JArr (map value_of_json l)"
| "value_of_json (JObj m) = JObj (sort_key fst (hashmap_of (map (\<lambda>kv. (fst kv, value_of_json (snd kv))) m)))"
| "value_of_json v = v"

text \<open>The entries of a struct with the given fields, and the access to one of them.\<close>

definition of_struct :: "string list \<Rightarrow> ((string \<times> json) list \<Rightarrow> 'a option) \<Rightarrow> 'a decoder" where
  "of_struct names f v =
     (case v of
        JObj m \<Rightarrow> if distinct (filter (\<lambda>k. k \<in> set names) (map fst m)) then f m else None
      | _ \<Rightarrow> None)"

definition need :: "'a decoder \<Rightarrow> string \<Rightarrow> (string \<times> json) list \<Rightarrow> 'a option" where
  "need d k m = (case map_of m k of None \<Rightarrow> None | Some v \<Rightarrow> d v)"

definition with_default :: "'a decoder \<Rightarrow> 'a \<Rightarrow> string \<Rightarrow> (string \<times> json) list \<Rightarrow> 'a option" where
  "with_default d y k m = (case map_of m k of None \<Rightarrow> Some y | Some v \<Rightarrow> d v)"

definition optional :: "'a decoder \<Rightarrow> string \<Rightarrow> (string \<times> json) list \<Rightarrow> 'a option option" where
  "optional d k m = with_default (of_opt d) None k m"

text \<open>An enum that is tagged by \<^verbatim>\<open>type\<close>: the variant is chosen by the tag and
  reads the other entries.\<close>

definition of_tagged :: "(string \<Rightarrow> 'a decoder) \<Rightarrow> 'a decoder" where
  "of_tagged variant v =
     (case v of
        JObj m \<Rightarrow>
          (case filter (\<lambda>kv. fst kv = ''type'') m of
             [kv] \<Rightarrow> do { t \<leftarrow> of_str (snd kv); variant t (JObj (filter (\<lambda>kv. fst kv \<noteq> ''type'') m)) }
           | _ \<Rightarrow> None)
      | _ \<Rightarrow> None)"

section \<open>The configuration types\<close>

text \<open>The default functions that the attributes name.\<close>

definition default_config_version :: string where
  "default_config_version = ''1''"

definition default_host :: string where
  "default_host = ''0.0.0.0''"

definition default_port :: u16 where
  "default_port = 8080"

definition default_upstream_timeout :: u64 where
  "default_upstream_timeout = 30"

definition default_cb_recovery :: u64 where
  "default_cb_recovery = 30"

definition default_eureka_health_path :: string where
  "default_eureka_health_path = ''/apps''"

definition default_k8s_api_server :: string where
  "default_k8s_api_server = ''https://kubernetes.default.svc''"

definition default_priority :: u32 where
  "default_priority = 100"

definition default_token_refresh :: u64 where
  "default_token_refresh = 1800"

definition default_rule_priority :: u32 where
  "default_rule_priority = 100"

definition default_plugin_order :: u32 where
  "default_plugin_order = 100"

definition default_enabled :: bool where
  "default_enabled = True"

definition default_hc_interval :: u64 where
  "default_hc_interval = 10"

definition default_hc_path :: string where
  "default_hc_path = ''/health''"

definition default_hc_timeout :: u64 where
  "default_hc_timeout = 5"

definition default_hc_unhealthy_threshold :: u32 where
  "default_hc_unhealthy_threshold = 3"

definition default_hc_healthy_threshold :: u32 where
  "default_hc_healthy_threshold = 1"

definition plugin_of_json :: "plugin_config decoder" where
  "plugin_of_json = of_struct [''name'', ''order'', ''enabled'', ''config''] (\<lambda>m. do {
     pname \<leftarrow> need of_str ''name'' m;
     ord \<leftarrow> with_default of_word default_plugin_order ''order'' m;
     en \<leftarrow> with_default of_bool default_enabled ''enabled'' m;
     cfg \<leftarrow> with_default (\<lambda>v. Some (value_of_json v)) JNull ''config'' m;
     Some \<lparr> pc_name = pname, pc_order = ord, pc_enabled = en, pc_config = cfg \<rparr> })"

definition health_check_of_json :: "health_check_config decoder" where
  "health_check_of_json =
     of_struct [''interval_secs'', ''path'', ''timeout_secs'', ''unhealthy_threshold'', ''healthy_threshold''] (\<lambda>m. do {
     i \<leftarrow> with_default of_word default_hc_interval ''interval_secs'' m;
     p \<leftarrow> with_default of_str default_hc_path ''path'' m;
     t \<leftarrow> with_default of_word default_hc_timeout ''timeout_secs'' m;
     u \<leftarrow> with_default of_word default_hc_unhealthy_threshold ''unhealthy_threshold'' m;
     h \<leftarrow> with_default of_word default_hc_healthy_threshold ''healthy_threshold'' m;
     Some \<lparr> hc_interval_secs = i, hc_path = p, hc_timeout_secs = t, hc_unhealthy_threshold = u, hc_healthy_threshold = h \<rparr> })"

definition selection_of_json :: "instance_selection decoder" where
  "selection_of_json v = do {
     s \<leftarrow> of_str v;
     if s = ''first'' then Some First
     else if s = ''round_robin'' then Some RoundRobin
     else if s = ''random'' then Some Random
     else if s = ''weighted_round_robin'' then Some WeightedRoundRobin
     else None }"

definition server_of_json :: "server_config decoder" where
  "server_of_json = of_struct [''host'', ''port'', ''upstream_timeout_secs'', ''instance_selection'', ''max_retries'',
       ''circuit_breaker_threshold'', ''circuit_breaker_recovery_secs'', ''plugins'', ''health_check''] (\<lambda>m. do {
     h \<leftarrow> with_default of_str default_host ''host'' m;
     p \<leftarrow> with_default of_word default_port ''port'' m;
     t \<leftarrow> with_default of_word default_upstream_timeout ''upstream_timeout_secs'' m;
     sel \<leftarrow> with_default selection_of_json First ''instance_selection'' m;
     r \<leftarrow> with_default of_word 0 ''max_retries'' m;
     cb \<leftarrow> with_default of_word 0 ''circuit_breaker_threshold'' m;
     rec \<leftarrow> with_default of_word default_cb_recovery ''circuit_breaker_recovery_secs'' m;
     ps \<leftarrow> with_default (of_list plugin_of_json) [] ''plugins'' m;
     hc \<leftarrow> with_default (of_opt health_check_of_json) None ''health_check'' m;
     Some \<lparr> host = h, port = p, upstream_timeout_secs = t, instance_selection = sel, max_retries = r,
       circuit_breaker_threshold = cb, circuit_breaker_recovery_secs = rec, plugins = ps, health_check = hc \<rparr> })"

definition nacos_auth_of_json :: "nacos_auth decoder" where
  "nacos_auth_of_json = of_struct [''username'', ''password'', ''token_refresh_interval_secs''] (\<lambda>m. do {
     u \<leftarrow> need of_str ''username'' m;
     p \<leftarrow> need of_str ''password'' m;
     t \<leftarrow> with_default of_word default_token_refresh ''token_refresh_interval_secs'' m;
     Some \<lparr> na_username = u, na_password = p, na_token_refresh_interval_secs = t \<rparr> })"

definition nacos_of_json :: "nacos_config decoder" where
  "nacos_of_json = of_struct [''priority'', ''server_addr'', ''namespace'', ''group'', ''auth''] (\<lambda>m. do {
     pr \<leftarrow> with_default of_word default_priority ''priority'' m;
     a \<leftarrow> need of_str ''server_addr'' m;
     ns \<leftarrow> optional of_str ''namespace'' m;
     g \<leftarrow> optional of_str ''group'' m;
     au \<leftarrow> optional nacos_auth_of_json ''auth'' m;
     Some \<lparr> nc_priority = pr, nc_server_addr = a, nc_namespace = ns, nc_group = g, nc_auth = au \<rparr> })"

definition basic_auth_of_json :: "basic_auth decoder" where
  "basic_auth_of_json = of_struct [''username'', ''password''] (\<lambda>m. do {
     u \<leftarrow> need of_str ''username'' m;
     p \<leftarrow> need of_str ''password'' m;
     Some \<lparr> ba_username = u, ba_password = p \<rparr> })"

definition eureka_of_json :: "eureka_config decoder" where
  "eureka_of_json = of_struct [''priority'', ''server_url'', ''health_path'', ''auth''] (\<lambda>m. do {
     pr \<leftarrow> with_default of_word default_priority ''priority'' m;
     u \<leftarrow> need of_str ''server_url'' m;
     h \<leftarrow> with_default of_str default_eureka_health_path ''health_path'' m;
     au \<leftarrow> optional basic_auth_of_json ''auth'' m;
     Some \<lparr> ec_priority = pr, ec_server_url = u, ec_health_path = h, ec_auth = au \<rparr> })"

definition k8s_auth_of_json :: "k8s_auth decoder" where
  "k8s_auth_of_json = of_struct [''token_file'', ''token''] (\<lambda>m. do {
     f \<leftarrow> optional of_str ''token_file'' m;
     t \<leftarrow> optional of_str ''token'' m;
     Some \<lparr> ka_token_file = f, ka_token = t \<rparr> })"

definition kubernetes_of_json :: "kubernetes_config decoder" where
  "kubernetes_of_json = of_struct [''priority'', ''api_server_url'', ''namespace'', ''kubeconfig_path'',
       ''kubeconfig_context'', ''insecure_skip_tls_verify'', ''endpoint_slice_label_selector'', ''auth''] (\<lambda>m. do {
     pr \<leftarrow> with_default of_word default_priority ''priority'' m;
     u \<leftarrow> with_default of_str default_k8s_api_server ''api_server_url'' m;
     ns \<leftarrow> optional of_str ''namespace'' m;
     kp \<leftarrow> optional of_str ''kubeconfig_path'' m;
     kc \<leftarrow> optional of_str ''kubeconfig_context'' m;
     sk \<leftarrow> with_default of_bool False ''insecure_skip_tls_verify'' m;
     ls \<leftarrow> optional of_str ''endpoint_slice_label_selector'' m;
     au \<leftarrow> optional k8s_auth_of_json ''auth'' m;
     Some \<lparr> kc_priority = pr, kc_api_server_url = u, kc_namespace = ns, kc_kubeconfig_path = kp,
       kc_kubeconfig_context = kc, kc_insecure_skip_tls_verify = sk, kc_endpoint_slice_label_selector = ls,
       kc_auth = au \<rparr> })"

text \<open>The message of a degraded or unhealthy mock registry.\<close>

definition message_of_json :: "string decoder" where
  "message_of_json = of_struct [''message''] (\<lambda>m. with_default of_str '''' ''message'' m)"

definition mock_health_of_json :: "mock_health_behavior decoder" where
  "mock_health_of_json = of_tagged (\<lambda>t v.
     if t = ''healthy'' then Some MockHealthy
     else if t = ''degraded'' then map_option MockDegraded (message_of_json v)
     else if t = ''unhealthy'' then map_option MockUnhealthy (message_of_json v)
     else None)"

definition mock_instance_of_json :: "mock_service_instance decoder" where
  "mock_instance_of_json = of_struct [''host'', ''port'', ''metadata''] (\<lambda>m. do {
     h \<leftarrow> need of_str ''host'' m;
     p \<leftarrow> need of_word ''port'' m;
     md \<leftarrow> with_default (of_map of_str) [] ''metadata'' m;
     Some \<lparr> mi_host = h, mi_port = p, mi_metadata = md \<rparr> })"

definition mock_of_json :: "mock_registry_config decoder" where
  "mock_of_json = of_struct [''priority'', ''services'', ''error_services'', ''health_behavior''] (\<lambda>m. do {
     pr \<leftarrow> with_default of_word default_priority ''priority'' m;
     ss \<leftarrow> with_default (of_map (of_list mock_instance_of_json)) [] ''services'' m;
     es \<leftarrow> with_default (of_map of_str) [] ''error_services'' m;
     hb \<leftarrow> with_default mock_health_of_json MockHealthy ''health_behavior'' m;
     Some \<lparr> mc_priority = pr, mc_services = ss, mc_error_services = es, mc_health_behavior = hb \<rparr> })"

definition registry_of_json :: "registry_config decoder" where
  "registry_of_json = of_tagged (\<lambda>t v.
     if t = ''nacos'' then map_option Nacos (nacos_of_json v)
     else if t = ''eureka'' then map_option Eureka (eureka_of_json v)
     else if t = ''kubernetes'' then map_option Kubernetes (kubernetes_of_json v)
     else if t = ''mock'' then map_option Mock (mock_of_json v)
     else None)"

definition query_mode_of_json :: "registry_query_mode decoder" where
  "query_mode_of_json v = do {
     s \<leftarrow> of_str v;
     if s = ''priority'' then Some Priority else if s = ''merge'' then Some Merge else None }"

definition registries_of_json :: "registries_config decoder" where
  "registries_of_json = of_struct [''query_mode'', ''sources''] (\<lambda>m. do {
     q \<leftarrow> with_default query_mode_of_json Priority ''query_mode'' m;
     ss \<leftarrow> with_default (of_list registry_of_json) [] ''sources'' m;
     Some \<lparr> query_mode = q, sources = ss \<rparr> })"

definition path_of_json :: "path_matcher decoder" where
  "path_of_json = of_tagged (\<lambda>t v. do {
     make \<leftarrow> (if t = ''exact'' then Some Exact
              else if t = ''prefix'' then Some Prefix
              else if t = ''glob'' then Some Glob
              else if t = ''regex'' then Some Regex
              else None);
     s \<leftarrow> of_struct [''value''] (need of_str ''value'') v;
     Some (make s) })"

definition rule_of_json :: "routing_rule decoder" where
  "rule_of_json = of_struct [''id'', ''path'', ''methods'', ''headers'', ''service_id'', ''upstream_url'', ''strip_prefix'',
       ''response_headers'', ''priority''] (\<lambda>m. do {
     i \<leftarrow> need of_str ''id'' m;
     p \<leftarrow> need path_of_json ''path'' m;
     ms \<leftarrow> optional (of_list of_str) ''methods'' m;
     hs \<leftarrow> optional (of_map of_str) ''headers'' m;
     s \<leftarrow> optional of_str ''service_id'' m;
     u \<leftarrow> optional of_str ''upstream_url'' m;
     sp \<leftarrow> optional of_str ''strip_prefix'' m;
     rh \<leftarrow> optional (of_map of_str) ''response_headers'' m;
     pr \<leftarrow> with_default of_word default_rule_priority ''priority'' m;
     Some \<lparr> rule_id = i, rule_path = p, rule_methods = ms, rule_headers = hs, rule_service_id = s,
       rule_upstream_url = u, rule_strip_prefix = sp, rule_response_headers = rh, rule_priority = pr \<rparr> })"

definition app_of_json :: "app_config decoder" where
  "app_of_json = of_struct [''config_version'', ''server'', ''registries'', ''routes'', ''log_level''] (\<lambda>m. do {
     cv \<leftarrow> with_default of_str default_config_version ''config_version'' m;
     s \<leftarrow> need server_of_json ''server'' m;
     r \<leftarrow> need registries_of_json ''registries'' m;
     rs \<leftarrow> need (of_list rule_of_json) ''routes'' m;
     l \<leftarrow> with_default of_str '''' ''log_level'' m;
     Some \<lparr> config_version = cv, server = s, registries = r, routes = rs, log_level = l \<rparr> })"

definition override_of_json :: "local_override_entry decoder" where
  "override_of_json = of_struct [''route_id'', ''upstream_url''] (\<lambda>m. do {
     i \<leftarrow> need of_str ''route_id'' m;
     u \<leftarrow> need of_str ''upstream_url'' m;
     Some \<lparr> lo_route_id = i, lo_upstream_url = u \<rparr> })"

definition overrides_of_json :: "local_override_entry list decoder" where
  "overrides_of_json = of_struct [''overrides''] (need (of_list override_of_json) ''overrides'')"

section \<open>What was written is read back\<close>

lemma opt_map_Some_iff: "opt_map f xs = Some ys \<longleftrightarrow> list_all2 (\<lambda>x y. f x = Some y) xs ys"
proof (induction xs arbitrary: ys)
  case Nil
  then show ?case by auto
next
  case (Cons x xs)
  then show ?case by (cases ys) (auto simp: bind_eq_Some_conv)
qed

lemma opt_map_map: "(\<And>x. x \<in> set xs \<Longrightarrow> f (g x) = Some (h x)) \<Longrightarrow> opt_map f (map g xs) = Some (map h xs)"
  by (induction xs) simp_all

lemma hashmap_insert_fresh: "k \<notin> fst ` set m \<Longrightarrow> hashmap_insert k v m = m @ [(k, v)]"
  by (induction m) auto

lemma hashmap_of_distinct: "distinct (map fst l) \<Longrightarrow> hashmap_of l = l"
proof -
  have "distinct (map fst (m @ l)) \<Longrightarrow> fold (\<lambda>(k, v). hashmap_insert k v) l m = m @ l" for m
    by (induction l arbitrary: m) (auto simp: hashmap_insert_fresh)
  from this [of "[]"] show "distinct (map fst l) \<Longrightarrow> ?thesis"
    by (simp add: hashmap_of_def)
qed

lemma hashmap_of_ok: "hashmap_ok (hashmap_of l)"
proof -
  have "hashmap_ok m \<Longrightarrow> hashmap_ok (fold (\<lambda>(k, v). hashmap_insert k v) l m)" for m
    by (induction l arbitrary: m) (auto simp: hashmap_ok_insert)
  then show ?thesis by (simp add: hashmap_of_def hashmap_ok_def)
qed

lemma map_of_hashmap_of: "map_of (hashmap_of l) = map_of (rev l)"
proof -
  have "map_of (fold (\<lambda>(k, v). hashmap_insert k v) l m) = map_of m ++ map_of (rev l)" for m
    by (induction l arbitrary: m) (auto simp: fun_eq_iff map_add_def split: option.split)
  then show ?thesis by (simp add: hashmap_of_def)
qed

text \<open>The contract of a type's two derived operations: what is written is read back, up to
  the order of hash maps, and is never \<^verbatim>\<open>null\<close>.\<close>

locale codec =
  fixes enc :: "'a \<Rightarrow> json" and dec :: "'a decoder" and norm :: "'a \<Rightarrow> 'a" and ok :: "'a \<Rightarrow> bool"
  assumes dec_enc: "ok y \<Longrightarrow> dec (enc y) = Some (norm y)"
    and enc_not_null: "enc y \<noteq> JNull"
begin

lemma dec_list: "list_all ok ys \<Longrightarrow> of_list dec (JArr (map enc ys)) = Some (map norm ys)"
  by (simp add: of_list_def opt_map_map dec_enc list_all_iff)

lemma dec_opt: "pred_option ok v \<Longrightarrow> of_opt dec (json_opt enc v) = Some (map_option norm v)"
  by (cases v) (simp_all add: of_opt_def json_opt_def dec_enc enc_not_null)

lemma dec_map:
  assumes "hashmap_ok m" and "\<And>k v. (k, v) \<in> set m \<Longrightarrow> ok v"
  shows "of_map dec (json_map enc m) = Some (map (\<lambda>(k, v). (k, norm v)) (sort_key fst m))"
proof -
  have "opt_map (\<lambda>(k, v). map_option (Pair k) (dec v)) (map (\<lambda>(k, v). (k, enc v)) (sort_key fst m))
      = Some (map (\<lambda>(k, v). (k, norm v)) (sort_key fst m))"
    using assms(2) by (intro opt_map_map) (auto simp: dec_enc)
  moreover have "distinct (map fst (map (\<lambda>(k, v). (k, norm v)) (sort_key fst m)))"
    using strict_sorted_sort_key [OF assms(1)] by (simp add: strict_sorted_iff comp_def case_prod_beta)
  ultimately show ?thesis
    by (simp add: of_map_def json_map_def hashmap_of_distinct)
qed

end

interpretation str: codec JStr of_str id "\<lambda>_. True"
  by unfold_locales (simp_all add: of_str_def)

interpretation word: codec json_word of_word "id :: 'a :: len word \<Rightarrow> 'a word" "\<lambda>_. True"
  by unfold_locales (auto simp: of_word_def json_word_def unsigned_less)

lemma of_bool_JBool [simp]: "of_bool (JBool b) = Some b"
  by (simp add: of_bool_def)

lemmas read_back = str.dec_enc word.dec_enc str.dec_list str.dec_opt str.dec_map

lemmas decoding = of_struct_def need_def with_default_def optional_def of_tagged_def option.map_id option.pred_True

lemma value_of_json_ok: "json_ok v \<Longrightarrow> value_of_json v = v"
proof (induction v rule: json_ok.induct)
  case (1 l)
  then show ?case by (simp add: map_idI)
next
  case (2 m)
  then have "map (\<lambda>kv. (fst kv, value_of_json (snd kv))) m = m"
    by (intro map_idI) auto
  moreover have "sorted (map fst m)" "distinct (map fst m)"
    using 2(2) by (simp_all add: strict_sorted_iff)
  ultimately show ?case
    by (simp add: hashmap_of_distinct sort_key_id_if_sorted)
qed simp_all

interpretation plugin: codec plugin_json plugin_of_json id "\<lambda>p. json_ok (pc_config p)"
  by unfold_locales (simp_all add: plugin_json_def plugin_of_json_def decoding read_back value_of_json_ok)

interpretation health_check: codec health_check_json health_check_of_json id "\<lambda>_. True"
  by unfold_locales (simp_all add: health_check_json_def health_check_of_json_def decoding read_back)

lemma selection_read_back [simp]: "selection_of_json (selection_json sel) = Some sel"
  by (cases sel) (simp_all add: selection_of_json_def of_str_def)

lemma server_read_back:
  "list_all (\<lambda>p. json_ok (pc_config p)) (plugins s) \<Longrightarrow> server_of_json (server_json s) = Some s"
  by (simp add: server_json_def server_of_json_def decoding read_back plugin.dec_list health_check.dec_opt)

interpretation nacos_auth: codec nacos_auth_json nacos_auth_of_json id "\<lambda>_. True"
  by unfold_locales (simp_all add: nacos_auth_json_def nacos_auth_of_json_def decoding read_back)

interpretation basic_auth: codec basic_auth_json basic_auth_of_json id "\<lambda>_. True"
  by unfold_locales (simp_all add: basic_auth_json_def basic_auth_of_json_def decoding read_back)

interpretation k8s_auth: codec k8s_auth_json k8s_auth_of_json id "\<lambda>_. True"
  by unfold_locales (simp_all add: k8s_auth_json_def k8s_auth_of_json_def decoding read_back)

lemma mock_health_read_back [simp]: "mock_health_of_json (mock_health_json h) = Some h"
  by (cases h) (simp_all add: mock_health_of_json_def message_of_json_def decoding read_back)

definition norm_instance :: "mock_service_instance \<Rightarrow> mock_service_instance" where
  "norm_instance i = i\<lparr> mi_metadata := sort_key fst (mi_metadata i) \<rparr>"

interpretation mock_instance: codec mock_instance_json mock_instance_of_json norm_instance "\<lambda>i. hashmap_ok (mi_metadata i)"
  by unfold_locales (simp_all add: mock_instance_json_def mock_instance_of_json_def norm_instance_def decoding read_back)

fun norm_registry :: "registry_config \<Rightarrow> registry_config" where
  "norm_registry (Mock c) = Mock (c\<lparr>
     mc_services := map (\<lambda>(k, is). (k, map norm_instance is)) (sort_key fst (mc_services c)),
     mc_error_services := sort_key fst (mc_error_services c) \<rparr>)"
| "norm_registry r = r"

interpretation instances: codec "\<lambda>is. JArr (map mock_instance_json is)" "of_list mock_instance_of_json"
    "map norm_instance" "list_all (\<lambda>i. hashmap_ok (mi_metadata i))"
  by unfold_locales (simp_all add: mock_instance.dec_list)

interpretation registry: codec registry_json registry_of_json norm_registry registry_ok
proof
  fix r
  show "registry_json r \<noteq> JNull"
    by (cases r) simp_all
  assume ok: "registry_ok r"
  show "registry_of_json (registry_json r) = Some (norm_registry r)"
  proof (cases r)
    case (Nacos c)
    then show ?thesis
      by (simp add: registry_of_json_def nacos_of_json_def decoding read_back nacos_auth.dec_opt)
  next
    case (Eureka c)
    then show ?thesis
      by (simp add: registry_of_json_def eureka_of_json_def decoding read_back basic_auth.dec_opt)
  next
    case (Kubernetes c)
    then show ?thesis
      by (simp add: registry_of_json_def kubernetes_of_json_def decoding read_back k8s_auth.dec_opt)
  next
    case (Mock c)
    with ok have "of_map (of_list mock_instance_of_json) (json_map (\<lambda>is. JArr (map mock_instance_json is)) (mc_services c))
        = Some (map (\<lambda>(k, is). (k, map norm_instance is)) (sort_key fst (mc_services c)))"
      by (intro instances.dec_map) (auto simp: list_all_iff)
    with Mock ok show ?thesis
      by (simp add: registry_of_json_def mock_of_json_def decoding read_back)
  qed
qed

lemma query_mode_read_back [simp]: "query_mode_of_json (query_mode_json q) = Some q"
  by (cases q) (simp_all add: query_mode_of_json_def of_str_def)

lemma registries_read_back:
  "list_all registry_ok (sources r) \<Longrightarrow> registries_of_json (registries_json r) = Some (r\<lparr> sources := map norm_registry (sources r) \<rparr>)"
  by (simp add: registries_json_def registries_of_json_def decoding registry.dec_list)

lemma path_read_back [simp]: "path_of_json (path_json p) = Some p"
  by (cases p) (simp_all add: path_of_json_def tagged_value_def decoding read_back)

definition norm_rule :: "routing_rule \<Rightarrow> routing_rule" where
  "norm_rule r = r\<lparr> rule_headers := map_option (sort_key fst) (rule_headers r),
     rule_response_headers := map_option (sort_key fst) (rule_response_headers r) \<rparr>"

interpretation strings: codec json_strs "of_list of_str" id "\<lambda>_. True"
  by unfold_locales (simp_all add: json_strs_def str.dec_list [unfolded list.pred_True])

interpretation string_map: codec "json_map JStr" "of_map of_str" "sort_key fst" hashmap_ok
  by unfold_locales (simp add: str.dec_map, simp add: json_map_def)

interpretation rule: codec rule_json rule_of_json norm_rule rule_ok
  by unfold_locales
     (simp_all add: rule_json_def rule_of_json_def rule_ok_def norm_rule_def decoding read_back strings.dec_opt string_map.dec_opt)

section \<open>Whole configurations\<close>

definition app_json :: "app_config \<Rightarrow> json" where
  "app_json c = JObj [(''config_version'', JStr (config_version c)), (''log_level'', JStr (log_level c)),
     (''registries'', registries_json (registries c)), (''routes'', JArr (map rule_json (routes c))),
     (''server'', server_json (server c))]"

definition norm_config :: "app_config \<Rightarrow> app_config" where
  "norm_config c = c\<lparr> registries := (registries c)\<lparr> sources := map norm_registry (sources (registries c)) \<rparr>,
     routes := map norm_rule (routes c) \<rparr>"

lemma config_read_back: "config_ok c \<Longrightarrow> app_of_json (app_json c) = Some (norm_config c)"
  by (simp add: app_json_def app_of_json_def config_ok_def norm_config_def decoding read_back server_read_back
      registries_read_back rule.dec_list)

section \<open>What is read is well-formed\<close>

lemma set_hashmap_of: "set (hashmap_of l) \<subseteq> set l"
proof
  fix kv
  assume "kv \<in> set (hashmap_of l)"
  moreover obtain k v where kv: "kv = (k, v)" by force
  ultimately have "map_of (hashmap_of l) k = Some v"
    using hashmap_of_ok [of l] by (simp add: hashmap_ok_def)
  then have "map_of (rev l) k = Some v"
    by (simp add: map_of_hashmap_of)
  from map_of_SomeD [OF this] show "kv \<in> set l"
    by (simp add: kv)
qed

lemma value_of_json_is_ok: "json_ok (value_of_json v)"
proof (induction v rule: value_of_json.induct)
  case (2 m)
  let ?l = "map (\<lambda>kv. (fst kv, value_of_json (snd kv))) m"
  have "\<forall>kv\<in>set (hashmap_of ?l). json_ok (snd kv)"
    using set_hashmap_of [of ?l] 2 by auto
  with strict_sorted_sort_key [OF hashmap_of_ok [of ?l]] show ?case
    by simp
qed auto

text \<open>What the decoders of collections say of their elements, as fields of a struct.\<close>

lemma opt_map_elem: "opt_map f xs = Some ys \<Longrightarrow> y \<in> set ys \<Longrightarrow> \<exists>x. f x = Some y"
  by (induction xs arbitrary: ys) (auto simp: bind_eq_Some_conv)

lemma of_list_elem: "of_list d v = Some ys \<Longrightarrow> y \<in> set ys \<Longrightarrow> \<exists>u. d u = Some y"
  by (auto simp: of_list_def split: json.splits dest: opt_map_elem)

lemma of_map_elem:
  assumes "of_map d v = Some m"
  shows "hashmap_ok m" and "(k, y) \<in> set m \<Longrightarrow> \<exists>u. d u = Some y"
proof -
  obtain es l where l: "opt_map (\<lambda>(k, v). map_option (Pair k) (d v)) es = Some l" and m: "m = hashmap_of l"
    using assms by (auto simp: of_map_def split: json.splits)
  show "hashmap_ok m"
    by (simp add: m hashmap_of_ok)
  assume "(k, y) \<in> set m"
  then have "(k, y) \<in> set l"
    using set_hashmap_of by (auto simp: m)
  from opt_map_elem [OF l this] show "\<exists>u. d u = Some y"
    by auto
qed

lemma default_list_elem: "with_default (of_list d) [] k m = Some ys \<Longrightarrow> y \<in> set ys \<Longrightarrow> \<exists>u. d u = Some y"
  by (auto simp: with_default_def split: option.splits dest: of_list_elem)

lemma need_list_elem: "need (of_list d) k m = Some ys \<Longrightarrow> y \<in> set ys \<Longrightarrow> \<exists>u. d u = Some y"
  by (auto simp: need_def split: option.splits dest: of_list_elem)

lemma default_map_elem:
  assumes "with_default (of_map d) [] k m = Some l"
  shows "hashmap_ok l" and "(j, y) \<in> set l \<Longrightarrow> \<exists>u. d u = Some y"
  using assms by (auto simp: with_default_def hashmap_ok_def split: option.splits
      dest: of_map_elem of_map_elem(1) [unfolded hashmap_ok_def])

lemma optional_map_ok: "optional (of_map d) k m = Some h \<Longrightarrow> pred_option hashmap_ok h"
  by (auto simp: optional_def with_default_def of_opt_def split: option.splits if_splits dest: of_map_elem(1))

lemma of_struct_Some: "of_struct names f v = Some z \<Longrightarrow> \<exists>m. f m = Some z"
  by (auto simp: of_struct_def split: json.splits if_splits)

lemmas decoded = bind_eq_Some_conv

lemma plugin_decoded: "plugin_of_json v = Some p \<Longrightarrow> json_ok (pc_config p)"
  unfolding plugin_of_json_def
  by (drule of_struct_Some) (auto simp: decoded with_default_def value_of_json_is_ok split: option.splits)

lemma server_decoded: "server_of_json v = Some s \<Longrightarrow> list_all (\<lambda>p. json_ok (pc_config p)) (plugins s)"
  unfolding server_of_json_def
  by (drule of_struct_Some) (auto simp: decoded list_all_iff dest!: default_list_elem plugin_decoded)

lemma mock_instance_decoded: "mock_instance_of_json v = Some i \<Longrightarrow> hashmap_ok (mi_metadata i)"
  unfolding mock_instance_of_json_def
  by (drule of_struct_Some) (auto simp: decoded dest: default_map_elem)

lemma mock_decoded:
  assumes "mock_of_json v = Some c"
  shows "registry_ok (Mock c)"
proof -
  obtain m where s: "with_default (of_map (of_list mock_instance_of_json)) [] ''services'' m = Some (mc_services c)"
      and e: "with_default (of_map of_str) [] ''error_services'' m = Some (mc_error_services c)"
    using of_struct_Some [OF assms [unfolded mock_of_json_def]] by (auto simp: decoded)
  have "hashmap_ok (mi_metadata i)" if si: "(sv, is) \<in> set (mc_services c)" "i \<in> set is" for sv "is" i
    using default_map_elem(2) [OF s si(1)] of_list_elem [OF _ si(2)] mock_instance_decoded by blast
  with default_map_elem(1) [OF s] default_map_elem(1) [OF e] show ?thesis
    by auto
qed

lemma registry_decoded: "registry_of_json v = Some r \<Longrightarrow> registry_ok r"
  using mock_decoded
  by (auto simp: registry_of_json_def of_tagged_def decoded split: json.splits list.splits if_splits)

lemma rule_decoded: "rule_of_json v = Some r \<Longrightarrow> rule_ok r"
  unfolding rule_of_json_def
  by (drule of_struct_Some) (auto simp: decoded rule_ok_def dest: optional_map_ok)

lemma registries_decoded:
  assumes "registries_of_json v = Some r"
  shows "list_all registry_ok (sources r)"
proof -
  obtain m where "with_default (of_list registry_of_json) [] ''sources'' m = Some (sources r)"
    using of_struct_Some [OF assms [unfolded registries_of_json_def]] by (auto simp: decoded)
  from default_list_elem [OF this] show ?thesis
    using registry_decoded by (auto simp: list_all_iff)
qed

lemma config_decoded:
  assumes "app_of_json v = Some c"
  shows "config_ok c"
proof -
  obtain m where s: "need server_of_json ''server'' m = Some (server c)"
      and r: "need registries_of_json ''registries'' m = Some (registries c)"
      and rs: "need (of_list rule_of_json) ''routes'' m = Some (routes c)"
    using of_struct_Some [OF assms [unfolded app_of_json_def]] by (auto simp: decoded)
  have "list_all (\<lambda>p. json_ok (pc_config p)) (plugins (server c))"
    using s server_decoded by (auto simp: need_def split: option.splits)
  moreover have "list_all registry_ok (sources (registries c))"
    using r registries_decoded by (auto simp: need_def split: option.splits)
  moreover have "list_all rule_ok (routes c)"
    using need_list_elem [OF rs] rule_decoded by (auto simp: list_all_iff)
  ultimately show ?thesis
    by (simp add: config_ok_def)
qed

text \<open>Reading back what was written changes nothing but the order of hash maps.\<close>

lemma same_map_sorted: "hashmap_ok m \<Longrightarrow> same_map m (sort_key fst (m :: (string, 'a) hashmap))"
  by (simp add: same_map_def map_of_sort_key)

lemma sort_key_again: "sort_key fst (sort_key fst m) = sort_key fst (m :: (string, 'a) hashmap)"
  by (rule sort_key_id_if_sorted) (simp add: sorted_sort_key)

lemma map_of_mapped: "map_of (map (\<lambda>(k, v). (k, f v)) m) k = map_option f (map_of m k)"
  by (induction m) auto

lemma norm_instance_equiv: "hashmap_ok (mi_metadata i) \<Longrightarrow> instance_equiv i (norm_instance i)"
  by (simp add: instance_equiv_def norm_instance_def same_map_sorted)

lemma norm_registry_equiv:
  assumes "registry_ok r"
  shows "registry_equiv r (norm_registry r)"
proof (cases r)
  case (Mock c)
  with assms have ok: "hashmap_ok (mc_services c)" "hashmap_ok (mc_error_services c)"
      and ins: "\<And>s is i. (s, is) \<in> set (mc_services c) \<Longrightarrow> i \<in> set is \<Longrightarrow> hashmap_ok (mi_metadata i)"
    by auto
  have "rel_option (list_all2 instance_equiv) (map_of (mc_services c) s)
      (map_option (map norm_instance) (map_of (mc_services c) s))" for s
    using ins norm_instance_equiv
    by (cases "map_of (mc_services c) s") (auto simp: list_all2_map2 list.rel_refl_strong dest: map_of_SomeD intro!: list.rel_refl_strong)
  with Mock ok show ?thesis
    by (simp add: same_map_sorted map_of_mapped map_of_sort_key)
qed simp_all

lemma norm_rule_equiv: "rule_ok r \<Longrightarrow> rule_equiv r (norm_rule r)"
  by (auto simp: rule_ok_def rule_equiv_def norm_rule_def same_map_sorted option.rel_map intro!: option.rel_refl_strong)

lemma json_map_sorted: "json_map f (sort_key fst m) = json_map f m"
  by (simp add: json_map_def sort_key_again)

lemma norm_registry_json: "registry_json (norm_registry r) = registry_json r"
proof (cases r)
  case (Mock c)
  have "sort_key fst (map (\<lambda>(k, is). (k, map norm_instance is)) (sort_key fst (mc_services c)))
      = map (\<lambda>(k, is). (k, map norm_instance is)) (sort_key fst (mc_services c))"
    by (rule sort_key_id_if_sorted) (simp add: sorted_sort_key comp_def case_prod_beta)
  moreover have "mock_instance_json (norm_instance i) = mock_instance_json i" for i
    by (simp add: mock_instance_json_def norm_instance_def json_map_sorted)
  ultimately show ?thesis
    using Mock by (simp add: json_map_sorted) (simp add: json_map_def comp_def case_prod_beta)
qed simp_all

lemma norm_rule_json: "rule_json (norm_rule r) = rule_json r"
  by (simp add: rule_json_def norm_rule_def json_opt_def json_map_sorted split: option.split)

lemma norm_config_json: "app_json (norm_config c) = app_json c"
  by (simp add: app_json_def norm_config_def registries_json_def norm_registry_json norm_rule_json comp_def)

text \<open>C10. A configuration that is written by the derived serializers is read back: the same
  configuration up to the order in which hash maps list their entries, well-formed, and with
  the same serialization.\<close>

theorem config_roundtrip:
  assumes "config_ok c"
  shows "\<exists>c'. app_of_json (app_json c) = Some c' \<and> config_version c' = config_version c \<and> server c' = server c \<and>
    log_level c' = log_level c \<and> query_mode (registries c') = query_mode (registries c) \<and>
    list_all2 registry_equiv (sources (registries c)) (sources (registries c')) \<and>
    list_all2 rule_equiv (routes c) (routes c') \<and> config_ok c' \<and> app_json c' = app_json c"
proof -
  have "list_all2 registry_equiv (sources (registries c)) (map norm_registry (sources (registries c)))"
    "list_all2 rule_equiv (routes c) (map norm_rule (routes c))"
    using assms by (auto simp: config_ok_def list_all_iff list_all2_map2 norm_registry_equiv norm_rule_equiv
        intro!: list.rel_refl_strong)
  moreover note norm_config_json [of c] config_read_back [OF assms]
  ultimately show ?thesis
    using config_decoded [OF config_read_back [OF assms]] by (intro exI [of _ "norm_config c"]) (simp add: norm_config_def)
qed

text \<open>A file that says nothing but the three required sections.\<close>

lemma map_of_unknown: "k \<notin> fst ` set m \<Longrightarrow> (f ++ map_of m) k = f k"
  by (simp add: map_add_dom_app_simps(3) dom_map_of_conv_image_fst)

definition config_keys :: "string list" where
  "config_keys = [''config_version'', ''server'', ''registries'', ''routes'', ''log_level'']"

text \<open>Keys that the configuration does not know are ignored, and a file that holds only
  the three required sections, each of them empty, is the default configuration except for the
  log level, which is empty although the default configuration has \<^verbatim>\<open>info\<close>.
  Without one of the required sections it is refused.\<close>

theorem minimal_config_defaults:
  assumes "set (map fst m) \<inter> set config_keys = {}"
  shows "app_of_json (JObj (m @ [(''server'', JObj []), (''registries'', JObj []), (''routes'', JArr [])]))
      = Some (default_app_config\<lparr> log_level := [] \<rparr>)"
    and "log_level default_app_config = ''info''"
    and "app_of_json (JObj (m @ [(''server'', JObj []), (''registries'', JObj [])])) = None"
    and "app_of_json (JObj (m @ [(''server'', JObj []), (''routes'', JArr [])])) = None"
    and "app_of_json (JObj (m @ [(''registries'', JObj []), (''routes'', JArr [])])) = None"
proof -
  have k: "''config_version'' \<notin> fst ` set m" "''server'' \<notin> fst ` set m" "''registries'' \<notin> fst ` set m"
      "''routes'' \<notin> fst ` set m" "''log_level'' \<notin> fst ` set m"
    using assms by (auto simp: config_keys_def)
  have "filter (\<lambda>k. k \<in> set config_keys) (map fst m) = []"
    using assms by (auto simp: filter_empty_conv)
  then have f: "app_of_json (JObj (m @ m')) = app_of_json (JObj m')" for m'
    by (simp add: app_of_json_def of_struct_def config_keys_def need_def with_default_def map_of_unknown k)
  show "app_of_json (JObj (m @ [(''server'', JObj []), (''registries'', JObj []), (''routes'', JArr [])]))
      = Some (default_app_config\<lparr> log_level := [] \<rparr>)"
    unfolding f by code_simp
  show "log_level default_app_config = ''info''"
    by (simp add: default_app_config_def)
  show "app_of_json (JObj (m @ [(''server'', JObj []), (''registries'', JObj [])])) = None"
    and "app_of_json (JObj (m @ [(''server'', JObj []), (''routes'', JArr [])])) = None"
    and "app_of_json (JObj (m @ [(''registries'', JObj []), (''routes'', JArr [])])) = None"
    unfolding f by code_simp+
qed

theorem minimal_config_defaults_witness:
  "app_of_json (JObj [(''log_levle'', JStr ''debug''), (''server'', JObj []), (''registries'', JObj []), (''routes'', JArr [])])
   = Some (default_app_config\<lparr> log_level := [] \<rparr>)"
  using minimal_config_defaults(1) [of "[(''log_levle'', JStr ''debug'')]"] by (simp add: config_keys_def)

theorem config_roundtrip_witness:
  "\<exists>c'. app_of_json (app_json default_app_config) = Some c' \<and> server c' = default_server_config"
  using config_roundtrip [of default_app_config]
  by (auto simp: config_ok_def default_app_config_def default_server_config_def)

section \<open>What may be left out\<close>

text \<open>An object without the keys outside \<open>K\<close>.\<close>

definition kept :: "string set \<Rightarrow> (string \<times> json) list \<Rightarrow> (string \<times> json) list" where
  "kept K m = filter (\<lambda>kv. fst kv \<in> K) m"

lemma map_of_kept: "map_of (kept K m) k = (if k \<in> K then map_of m k else None)"
  by (induction m) (auto simp: kept_def)

lemma of_struct_kept: "distinct (map fst m) \<Longrightarrow> of_struct names f (JObj (kept K m)) = f (kept K m)"
  by (simp add: of_struct_def kept_def distinct_map_filter filter_map comp_def)

lemma fields_kept:
  "need d k (kept K m) = (if k \<in> K then need d k m else None)"
  "with_default d y k (kept K m) = (if k \<in> K then with_default d y k m else Some y)"
  "optional d k (kept K m) = (if k \<in> K then optional d k m else Some None)"
  by (simp_all add: need_def with_default_def optional_def map_of_kept)

lemma Some_if: "(if b then Some y else Some z) = Some (if b then y else z)"
  by simp

text \<open>The documented defaults in place of the fields outside \<open>K\<close>.\<close>

definition server_kept :: "string set \<Rightarrow> server_config \<Rightarrow> server_config" where
  "server_kept K s = \<lparr>
     host = (if ''host'' \<in> K then host s else ''0.0.0.0''),
     port = (if ''port'' \<in> K then port s else 8080),
     upstream_timeout_secs = (if ''upstream_timeout_secs'' \<in> K then upstream_timeout_secs s else 30),
     instance_selection = (if ''instance_selection'' \<in> K then instance_selection s else First),
     max_retries = (if ''max_retries'' \<in> K then max_retries s else 0),
     circuit_breaker_threshold = (if ''circuit_breaker_threshold'' \<in> K then circuit_breaker_threshold s else 0),
     circuit_breaker_recovery_secs = (if ''circuit_breaker_recovery_secs'' \<in> K then circuit_breaker_recovery_secs s else 30),
     plugins = (if ''plugins'' \<in> K then plugins s else []),
     health_check = (if ''health_check'' \<in> K then health_check s else None) \<rparr>"

definition rule_kept :: "string set \<Rightarrow> routing_rule \<Rightarrow> routing_rule option" where
  "rule_kept K r =
     (if {''id'', ''path''} \<subseteq> K
      then Some (r\<lparr>
        rule_methods := (if ''methods'' \<in> K then rule_methods r else None),
        rule_headers := (if ''headers'' \<in> K then rule_headers r else None),
        rule_service_id := (if ''service_id'' \<in> K then rule_service_id r else None),
        rule_upstream_url := (if ''upstream_url'' \<in> K then rule_upstream_url r else None),
        rule_strip_prefix := (if ''strip_prefix'' \<in> K then rule_strip_prefix r else None),
        rule_response_headers := (if ''response_headers'' \<in> K then rule_response_headers r else None),
        rule_priority := (if ''priority'' \<in> K then rule_priority r else 100) \<rparr>)
      else None)"

definition config_kept :: "string set \<Rightarrow> app_config \<Rightarrow> app_config option" where
  "config_kept K c =
     (if {''server'', ''registries'', ''routes''} \<subseteq> K
      then Some (c\<lparr> config_version := (if ''config_version'' \<in> K then config_version c else ''1''),
                    log_level := (if ''log_level'' \<in> K then log_level c else []) \<rparr>)
      else None)"

lemma server_omitted:
  assumes "list_all (\<lambda>p. json_ok (pc_config p)) (plugins s)" and "server_json s = JObj m"
  shows "server_of_json (JObj (kept K m)) = Some (server_kept K s)"
proof -
  have m: "m = [(''circuit_breaker_recovery_secs'', json_word (circuit_breaker_recovery_secs s)),
     (''circuit_breaker_threshold'', json_word (circuit_breaker_threshold s)),
     (''health_check'', json_opt health_check_json (health_check s)), (''host'', JStr (host s)),
     (''instance_selection'', selection_json (instance_selection s)), (''max_retries'', json_word (max_retries s)),
     (''plugins'', JArr (map plugin_json (plugins s))), (''port'', json_word (port s)),
     (''upstream_timeout_secs'', json_word (upstream_timeout_secs s))]"
    using assms(2) by (simp add: server_json_def)
  have d: "distinct (map fst m)" by (simp add: m)
  show ?thesis
    unfolding server_of_json_def of_struct_kept [OF d] fields_kept
    by (simp add: m decoding read_back plugin.dec_list health_check.dec_opt assms(1) Some_if server_kept_def
        default_host_def default_port_def default_upstream_timeout_def default_cb_recovery_def)
qed

lemma rule_omitted:
  assumes "rule_ok r" and "rule_json r = JObj m"
  shows "rule_of_json (JObj (kept K m)) = rule_kept K (norm_rule r)"
proof -
  have m: "m = [(''headers'', json_opt (json_map JStr) (rule_headers r)), (''id'', JStr (rule_id r)),
     (''methods'', json_opt json_strs (rule_methods r)), (''path'', path_json (rule_path r)),
     (''priority'', json_word (rule_priority r)), (''response_headers'', json_opt (json_map JStr) (rule_response_headers r)),
     (''service_id'', json_opt JStr (rule_service_id r)), (''strip_prefix'', json_opt JStr (rule_strip_prefix r)),
     (''upstream_url'', json_opt JStr (rule_upstream_url r))]"
    using assms(2) by (simp add: rule_json_def)
  have d: "distinct (map fst m)" by (simp add: m)
  show ?thesis
    unfolding rule_of_json_def of_struct_kept [OF d] fields_kept
    using assms(1)
    by (simp add: m decoding read_back strings.dec_opt string_map.dec_opt Some_if rule_kept_def rule_ok_def norm_rule_def
        default_rule_priority_def)
qed

lemma config_omitted:
  assumes "config_ok c" and "app_json c = JObj m"
  shows "app_of_json (JObj (kept K m)) = config_kept K (norm_config c)"
proof -
  have m: "m = [(''config_version'', JStr (config_version c)), (''log_level'', JStr (log_level c)),
     (''registries'', registries_json (registries c)), (''routes'', JArr (map rule_json (routes c))),
     (''server'', server_json (server c))]"
    using assms(2) by (simp add: app_json_def)
  have d: "distinct (map fst m)" by (simp add: m)
  show ?thesis
    unfolding app_of_json_def of_struct_kept [OF d] fields_kept
    using assms(1)
    by (simp add: m config_ok_def decoding read_back server_read_back registries_read_back rule.dec_list Some_if
        config_kept_def norm_config_def default_config_version_def)
qed

text \<open>C13. Every key that a file may leave out has its documented default, whatever other keys are
  left out: reading a written configuration from which all keys outside \<open>K\<close> were removed at
  the top level, in the server section or in a route gives the original with the default in
  place of every missing field (up to the order of hash maps), and it is refused exactly when a
  required key is missing.  The log level that is left out is empty, not \<^verbatim>\<open>info\<close>.\<close>

theorem omitted_keys_default:
  assumes "config_ok c" and "app_json c = JObj ap" and "server_json (server c) = JObj srv"
    and "r \<in> set (routes c)" and "rule_json r = JObj rt"
  shows "app_of_json (JObj (kept K ap)) = config_kept K (norm_config c) \<and>
    server_of_json (JObj (kept K srv)) = Some (server_kept K (server c)) \<and>
    rule_of_json (JObj (kept K rt)) = rule_kept K (norm_rule r)"
proof -
  have "list_all (\<lambda>p. json_ok (pc_config p)) (plugins (server c))" "rule_ok r"
    using assms(1,4) by (auto simp: config_ok_def list_all_iff)
  then show ?thesis
    using config_omitted [OF assms(1,2)] server_omitted [OF _ assms(3)] rule_omitted [OF _ assms(5)] by blast
qed

definition example_kept :: routing_rule where
  "example_kept = \<lparr> rule_id = ''r'', rule_path = Prefix ''/'', rule_methods = None, rule_headers = None,
     rule_service_id = Some ''svc'', rule_upstream_url = None, rule_strip_prefix = None, rule_response_headers = None,
     rule_priority = 7 \<rparr>"

theorem omitted_keys_default_witness:
  "server_of_json (JObj [(''max_retries'', JInt 3)]) = Some (default_server_config\<lparr> max_retries := 3 \<rparr>)"
proof -
  let ?c = "default_app_config\<lparr> server := default_server_config\<lparr> max_retries := 3 \<rparr>, routes := [example_kept] \<rparr>"
  obtain ap srv rt where json: "app_json ?c = JObj ap" "server_json (server ?c) = JObj srv" "rule_json example_kept = JObj rt"
    by (simp add: app_json_def server_json_def rule_json_def)
  have "config_ok ?c"
    by (simp add: config_ok_def default_app_config_def default_server_config_def example_kept_def rule_ok_def)
  from omitted_keys_default [OF this json(1,2) _ json(3), where K = "{''max_retries''}"]
  have "server_of_json (JObj (kept {''max_retries''} srv)) = Some (server_kept {''max_retries''} (server ?c))" by simp
  moreover have "kept {''max_retries''} srv = [(''max_retries'', JInt 3)]"
    using json(2) by (auto simp: server_json_def kept_def json_word_def)
  ultimately show ?thesis
    by (simp add: server_kept_def default_server_config_def)
qed

text \<open>Configurations that are their own normal form.\<close>

definition reads_back :: "app_config \<Rightarrow> bool" where
  "reads_back c = (config_ok c \<and> norm_config c = c)"

lemmas reads_back_simps = reads_back_def config_ok_def norm_config_def norm_rule_def rule_ok_def hashmap_ok_def
  default_app_config_def default_server_config_def

lemma reads_back_decode: "reads_back c \<Longrightarrow> app_of_json (app_json c) = Some c"
  by (simp add: reads_back_def config_read_back)

end
