(* ===== verification/NacosEureka.thy ===== *)
theory NacosEureka
  imports Registry Decode
begin

text \<open>
  \<^verbatim>\<open>registry/nacos.rs\<close> and \<^verbatim>\<open>registry/eureka.rs\<close>.  The HTTP exchanges and
  the JSON parser are parameters; requests of one call are numbered, since a
  server may answer the same request differently.  The access token of Nacos is the state
  of its registry; the periodic refresh is one operation on it.
\<close>

definition http_success :: "nat \<Rightarrow> bool" where
  "http_success status \<longleftrightarrow> 200 \<le> status \<and> status < 300"

section \<open>Nacos\<close>

record nacos_host =
  nh_ip :: string
  nh_port :: u16
  nh_healthy :: bool
  nh_metadata :: "(string, string) hashmap option"

record nacos_ext =
  nx_get :: "nat \<Rightarrow> string option \<Rightarrow> string \<Rightarrow> string + nat \<times> string"  \<comment> \<open>request number, token, URL\<close>
  nx_login :: "string \<Rightarrow> string \<Rightarrow> string \<Rightarrow> string + nat \<times> string"      \<comment> \<open>URL, user, password\<close>
  nx_json :: "string \<Rightarrow> string + json"
  nx_decode_error :: "json \<Rightarrow> string"
  nx_status_text :: "nat \<Rightarrow> string"

text \<open>The access token and its time to live.\<close>

definition login_of_json :: "(string \<times> u64) decoder" where
  "login_of_json = of_struct [''accessToken'', ''tokenTtl''] (\<lambda>m. do {
     t \<leftarrow> need of_str ''accessToken'' m;
     l \<leftarrow> need of_word ''tokenTtl'' m;
     Some (t, l) })"

definition nacos_host_of_json :: "nacos_host decoder" where
  "nacos_host_of_json = of_struct [''ip'', ''port'', ''healthy'', ''metadata''] (\<lambda>m. do {
     i \<leftarrow> need of_str ''ip'' m;
     p \<leftarrow> need of_word ''port'' m;
     h \<leftarrow> need of_bool ''healthy'' m;
     md \<leftarrow> optional (of_map of_str) ''metadata'' m;
     Some \<lparr> nh_ip = i, nh_port = p, nh_healthy = h, nh_metadata = md \<rparr> })"

definition hosts_of_json :: "nacos_host list decoder" where
  "hosts_of_json = of_struct [''hosts''] (need (of_list nacos_host_of_json) ''hosts'')"

definition nx_decode_login :: "nacos_ext \<Rightarrow> string \<Rightarrow> string + string \<times> u64" where
  "nx_decode_login n body = decode_tree (nx_decode_error n) login_of_json (nx_json n body)"

definition nx_decode_hosts :: "nacos_ext \<Rightarrow> string \<Rightarrow> string + nacos_host list" where
  "nx_decode_hosts n body = decode_tree (nx_decode_error n) hosts_of_json (nx_json n body)"

record nacos_registry =
  nr_config :: nacos_config
  nr_token :: string

definition nacos_api_base :: "nacos_config \<Rightarrow> string" where
  "nacos_api_base cfg =
     (let base = trim_end_matches (nc_server_addr cfg) CHR ''/''
      in if ends_with base ''/nacos'' then base else base @ ''/nacos'')"

definition authenticate :: "nacos_ext \<Rightarrow> nacos_registry \<Rightarrow> (registry_error + unit) \<times> nacos_registry" where
  "authenticate n r =
     (case nc_auth (nr_config r) of
        None \<Rightarrow> (Inr (), r)
      | Some auth \<Rightarrow>
          (case nx_login n (nacos_api_base (nr_config r) @ ''/v1/auth/login'') (na_username auth) (na_password auth) of
             Inl e \<Rightarrow> (Inl (RegHttp e), r)
           | Inr (status, body) \<Rightarrow>
               if status = 403 \<or> status = 401 then (Inl AuthFailed, r)
               else (case nx_decode_login n body of
                       Inl e \<Rightarrow> (Inl (UnexpectedResponse e), r)
                     | Inr (access_token, ttl) \<Rightarrow> (Inr (), r\<lparr> nr_token := access_token \<rparr>))))"

definition nacos_registry_new :: "nacos_ext \<Rightarrow> nacos_config \<Rightarrow> registry_error + nacos_registry" where
  "nacos_registry_new n cfg =
     (let r = \<lparr> nr_config = cfg, nr_token = [] \<rparr>
      in if nc_auth cfg \<noteq> None
         then (case authenticate n r of (Inl e, _) \<Rightarrow> Inl e | (Inr _, r') \<Rightarrow> Inr r')
         else Inr r)"

text \<open>One tick of the refresh task: any failure keeps the old token.\<close>

definition token_refresh_tick :: "nacos_ext \<Rightarrow> nacos_registry \<Rightarrow> nacos_registry" where
  "token_refresh_tick n r =
     (case nc_auth (nr_config r) of
        None \<Rightarrow> r
      | Some auth \<Rightarrow>
          (case nx_login n (nacos_api_base (nr_config r) @ ''/v1/auth/login'') (na_username auth) (na_password auth) of
             Inl e \<Rightarrow> r
           | Inr (status, body) \<Rightarrow>
               (case nx_decode_login n body of
                  Inl e \<Rightarrow> r
                | Inr (access_token, ttl) \<Rightarrow> r\<lparr> nr_token := access_token \<rparr>)))"

definition refresh_interval_secs :: "nacos_registry \<Rightarrow> u64" where
  "refresh_interval_secs r =
     (case nc_auth (nr_config r) of None \<Rightarrow> 1800 | Some a \<Rightarrow> na_token_refresh_interval_secs a)"

definition nacos_instance :: "nacos_host \<Rightarrow> service_instance" where
  "nacos_instance h = \<lparr> si_host = nh_ip h, si_port = nh_port h,
     si_metadata = (case nh_metadata h of None \<Rightarrow> [] | Some m \<Rightarrow> m) \<rparr>"

definition parse_instances ::
  "nacos_ext \<Rightarrow> nat \<times> string \<Rightarrow> registry_error + service_instance list" where
  "parse_instances n resp =
     (case resp of (status, body) \<Rightarrow>
        if \<not> http_success status then Inl (UnexpectedResponse (''Nacos returned '' @ nx_status_text n status))
        else (case nx_decode_hosts n body of
                Inl e \<Rightarrow> Inl (UnexpectedResponse e)
              | Inr hosts \<Rightarrow> Inr (map nacos_instance (filter nh_healthy hosts))))"

definition nacos_list_url :: "nacos_registry \<Rightarrow> string \<Rightarrow> string" where
  "nacos_list_url r service_id =
     (let cfg = nr_config r in
      nacos_api_base cfg @ ''/v1/ns/instance/list?serviceName='' @ service_id @ ''&healthyOnly=true''
      @ (case nc_namespace cfg of None \<Rightarrow> [] | Some ns \<Rightarrow> ''&namespaceId='' @ ns)
      @ (case nc_group cfg of None \<Rightarrow> [] | Some grp \<Rightarrow> ''&groupName='' @ grp))"

definition nacos_get_healthy_instances ::
  "nacos_ext \<Rightarrow> nacos_registry \<Rightarrow> string \<Rightarrow> (registry_error + service_instance list) \<times> nacos_registry" where
  "nacos_get_healthy_instances n r service_id =
     (let url = nacos_list_url r service_id; token = nr_token r
      in case nx_get n 0 (if token \<noteq> [] then Some token else None) url of
           Inl e \<Rightarrow> (Inl (RegHttp e), r)
         | Inr (status, body) \<Rightarrow>
             if status = 401 \<or> status = 403 then
               (case authenticate n r of
                  (Inl e, r') \<Rightarrow> (Inl e, r')
                | (Inr _, r') \<Rightarrow>
                    (case nx_get n 1 (Some (nr_token r')) url of
                       Inl e \<Rightarrow> (Inl (RegHttp e), r')
                     | Inr resp \<Rightarrow> (parse_instances n resp, r')))
             else (parse_instances n (status, body), r))"

definition nacos_health :: "nacos_ext \<Rightarrow> nacos_registry \<Rightarrow> registry_health" where
  "nacos_health n r =
     (case nx_get n 0 None (nacos_api_base (nr_config r) @ ''/v1/console/health/liveness'') of
        Inl e \<Rightarrow> Unhealthy e
      | Inr (status, _) \<Rightarrow> if http_success status then Healthy
          else Degraded (''HTTP '' @ nx_status_text n status))"

definition nacos_service_registry :: "nacos_ext \<Rightarrow> nacos_registry \<Rightarrow> service_registry" where
  "nacos_service_registry n r = \<lparr> kind = KNacos,
     get_healthy_instances = (\<lambda>s. fst (nacos_get_healthy_instances n r s)), health = nacos_health n r \<rparr>"

text \<open>The server lists \<open>i\<close> as healthy in one of its answers.\<close>

definition nacos_lists :: "nacos_ext \<times> nacos_registry \<Rightarrow> string \<Rightarrow> service_instance \<Rightarrow> bool" where
  "nacos_lists nr s i =
     (case nr of (n, r) \<Rightarrow> \<exists>k token status body hosts h.
        nx_get n k token (nacos_list_url r s) = Inr (status, body) \<and> http_success status \<and>
        nx_decode_hosts n body = Inr hosts \<and> h \<in> set hosts \<and> nh_healthy h \<and> i = nacos_instance h)"

interpretation nacos: registry_source "\<lambda>(n, r) s. fst (nacos_get_healthy_instances n r s)" nacos_lists
  by unfold_locales
     (fastforce simp: nacos_get_healthy_instances_def nacos_lists_def parse_instances_def Let_def
       split: sum.splits if_splits prod.splits)

text \<open>The server address may be given with or without the \<^verbatim>\<open>/nacos\<close> path and
  with any number of trailing slashes: all forms give the same API root, which has exactly
  one such suffix and no trailing slash.\<close>

theorem nacos_api_base_normal_form:
  "nacos_api_base (c\<lparr> nc_server_addr := a @ replicate n CHR ''/'' \<rparr>) = nacos_api_base (c\<lparr> nc_server_addr := a \<rparr>)
   \<and> nacos_api_base (c\<lparr> nc_server_addr := nacos_api_base c @ replicate n CHR ''/'' \<rparr>) = nacos_api_base c
   \<and> (\<exists>root. nacos_api_base c = root @ ''/nacos'')"
proof -
  have slash: "trim_end_matches (a @ replicate n x) x = trim_end_matches a x" for a n x
  proof -
    have "dropWhile (\<lambda>y. y = x) (replicate n x @ b) = dropWhile (\<lambda>y. y = x) b" for b
      by (induction n) auto
    then show ?thesis by (simp add: trim_end_matches_def)
  qed
  have suffix: "\<exists>root. nacos_api_base c = root @ ''/nacos''"
  proof (cases "ends_with (trim_end_matches (nc_server_addr c) CHR ''/'') ''/nacos''")
    case True
    then have "prefix (rev ''/nacos'') (rev (trim_end_matches (nc_server_addr c) CHR ''/''))"
      by (simp add: ends_with_def starts_with_prefix)
    then obtain r where "rev (trim_end_matches (nc_server_addr c) CHR ''/'') = rev ''/nacos'' @ r"
      by (auto simp: prefix_def)
    then have "trim_end_matches (nc_server_addr c) CHR ''/'' = rev r @ ''/nacos''"
      by (metis rev_append rev_rev_ident)
    with True show ?thesis by (simp add: nacos_api_base_def Let_def)
  next
    case False
    then show ?thesis by (simp add: nacos_api_base_def Let_def)
  qed
  then obtain root where root: "nacos_api_base c = root @ ''/nacos''" by blast
  have "trim_end_matches (root @ ''/nacos'') CHR ''/'' = root @ ''/nacos''"
    by (simp add: trim_end_matches_def)
  moreover have "ends_with (root @ ''/nacos'') ''/nacos''"
    by (simp add: ends_with_def starts_with_def)
  moreover have "nc_server_addr (c\<lparr> nc_server_addr := t \<rparr>) = t" for t
    by simp
  ultimately have "nacos_api_base (c\<lparr> nc_server_addr := nacos_api_base c @ replicate n CHR ''/'' \<rparr>) = nacos_api_base c"
    by (simp only: nacos_api_base_def [of "c\<lparr> nc_server_addr := _ \<rparr>"] root slash Let_def if_True)
  then show ?thesis
    using suffix by (simp add: nacos_api_base_def slash)
qed

section \<open>Eureka\<close>

record eureka_instance =
  ei_ip_addr :: string
  ei_port :: u16
  ei_status :: string
  ei_metadata :: "(string, string) hashmap option"

record eureka_ext =
  ex_get :: "(string \<times> string) option \<Rightarrow> string \<Rightarrow> string + nat \<times> string"  \<comment> \<open>basic auth, URL\<close>
  ex_json :: "string \<Rightarrow> string + json"
  ex_decode_error :: "json \<Rightarrow> string"
  ex_status_text :: "nat \<Rightarrow> string"

definition eureka_instance_of_json :: "eureka_instance decoder" where
  "eureka_instance_of_json = of_struct [''ipAddr'', ''port'', ''status'', ''metadata''] (\<lambda>m. do {
     i \<leftarrow> need of_str ''ipAddr'' m;
     p \<leftarrow> need (of_struct [''$''] (need of_word ''$'')) ''port'' m;
     s \<leftarrow> need of_str ''status'' m;
     md \<leftarrow> optional (of_map of_str) ''metadata'' m;
     Some \<lparr> ei_ip_addr = i, ei_port = p, ei_status = s, ei_metadata = md \<rparr> })"

definition eureka_app_of_json :: "eureka_instance list decoder" where
  "eureka_app_of_json = of_struct [''application'']
     (need (of_struct [''instance''] (need (of_list eureka_instance_of_json) ''instance'')) ''application'')"

definition ex_decode_app :: "eureka_ext \<Rightarrow> string \<Rightarrow> string + eureka_instance list" where
  "ex_decode_app e body = decode_tree (ex_decode_error e) eureka_app_of_json (ex_json e body)"

definition eureka_base_url :: "eureka_config \<Rightarrow> string" where
  "eureka_base_url cfg = trim_end_matches (ec_server_url cfg) CHR ''/''"

definition app_url :: "eureka_config \<Rightarrow> string \<Rightarrow> string" where
  "app_url cfg service_name = eureka_base_url cfg @ ''/apps/'' @ service_name"

definition eureka_health_url :: "eureka_config \<Rightarrow> string" where
  "eureka_health_url cfg =
     (let path = trim (ec_health_path cfg)
      in if path = [] then eureka_base_url cfg @ ''/apps''
         else if starts_with path ''/'' then eureka_base_url cfg @ path
         else eureka_base_url cfg @ ''/'' @ path)"

definition add_auth :: "eureka_config \<Rightarrow> (string \<times> string) option" where
  "add_auth cfg = map_option (\<lambda>a. (ba_username a, ba_password a)) (ec_auth cfg)"

definition eureka_to_instance :: "eureka_instance \<Rightarrow> service_instance" where
  "eureka_to_instance i = \<lparr> si_host = ei_ip_addr i, si_port = ei_port i,
     si_metadata = (case ei_metadata i of None \<Rightarrow> [] | Some m \<Rightarrow> m) \<rparr>"

definition eureka_get_healthy_instances ::
  "eureka_ext \<Rightarrow> eureka_config \<Rightarrow> string \<Rightarrow> registry_error + service_instance list" where
  "eureka_get_healthy_instances e cfg service_id =
     (case ex_get e (add_auth cfg) (app_url cfg (to_uppercase service_id)) of
        Inl err \<Rightarrow> Inl (RegHttp err)
      | Inr (status, body) \<Rightarrow>
          if status = 401 then Inl AuthFailed
          else if status = 404 then Inr []
          else if \<not> http_success status then
            Inl (UnexpectedResponse (''Eureka returned '' @ ex_status_text e status))
          else (case ex_decode_app e body of
                  Inl err \<Rightarrow> Inl (UnexpectedResponse err)
                | Inr insts \<Rightarrow> Inr (map eureka_to_instance (filter (\<lambda>i. ei_status i = ''UP'') insts))))"

definition eureka_health :: "eureka_ext \<Rightarrow> eureka_config \<Rightarrow> registry_health" where
  "eureka_health e cfg =
     (case ex_get e (add_auth cfg) (eureka_health_url cfg) of
        Inl err \<Rightarrow> Unhealthy err
      | Inr (status, _) \<Rightarrow> if http_success status then Healthy
          else Degraded (''HTTP '' @ ex_status_text e status))"

definition eureka_service_registry :: "eureka_ext \<Rightarrow> eureka_config \<Rightarrow> service_registry" where
  "eureka_service_registry e cfg = \<lparr> kind = KEureka,
     get_healthy_instances = eureka_get_healthy_instances e cfg, health = eureka_health e cfg \<rparr>"

definition eureka_lists :: "eureka_ext \<times> eureka_config \<Rightarrow> string \<Rightarrow> service_instance \<Rightarrow> bool" where
  "eureka_lists ec s i =
     (case ec of (e, cfg) \<Rightarrow> \<exists>status body insts j.
        ex_get e (add_auth cfg) (app_url cfg (to_uppercase s)) = Inr (status, body) \<and> http_success status \<and>
        ex_decode_app e body = Inr insts \<and> j \<in> set insts \<and> ei_status j = ''UP'' \<and> i = eureka_to_instance j)"

interpretation eureka: registry_source "\<lambda>(e, cfg). eureka_get_healthy_instances e cfg" eureka_lists
  by unfold_locales
     (fastforce simp: eureka_get_healthy_instances_def eureka_lists_def split: sum.splits if_splits prod.splits)

end
