(* ===== verification/K8s.thy ===== *)
theory K8s
  imports Registry Decode
begin

text \<open>
  \<^verbatim>\<open>registry/k8s.rs\<close>: the Kubernetes registry.  Decoded API objects are records with
  the fields the program reads, decoded from JSON-like trees as the \<^verbatim>\<open>Deserialize\<close>
  attributes say; the HTTP exchange, file access, the parsers of JSON and YAML,
  \<^verbatim>\<open>base64\<close>, \<^verbatim>\<open>url\<close> and the TLS material are
  parameters, gathered in \<open>k8s_ext\<close>.  The lemmas: the two flattenings list exactly the
  allowed, ready address and port pairs, each once, and the answer of the registry is what
  Endpoints say or, failing that, what EndpointSlices say.
\<close>

section \<open>API objects\<close>

datatype target_port = TargetInt u64 | TargetName string

record k8s_service_port =
  ksp_target_port :: "target_port option"
  ksp_protocol :: "string option"

record k8s_endpoint_port =
  kep_port :: u16
  kep_name :: "string option"
  kep_protocol :: "string option"

record k8s_endpoint_subset =
  ks_addresses :: "string list option"
  ks_ports :: "k8s_endpoint_port list option"

record slice_endpoint =
  se_addresses :: "string list"
  se_ready :: "bool option"
  se_serving :: "bool option"

record slice_port =
  sp_port :: "u16 option"
  sp_name :: "string option"
  sp_protocol :: "string option"

record endpoint_slice =
  sl_endpoints :: "slice_endpoint list"
  sl_ports :: "slice_port list"

record raw_user =
  ru_token :: "string option"
  ru_client_certificate_data :: "string option"
  ru_client_key_data :: "string option"

record raw_cluster =
  rc_server :: string
  rc_certificate_authority_data :: "string option"

record raw_kubeconfig =
  rk_clusters :: "(string \<times> raw_cluster) list option"
  rk_users :: "(string \<times> raw_user) list option"
  rk_contexts :: "(string \<times> string \<times> string) list option"  \<comment> \<open>name, cluster, user\<close>
  rk_current_context :: "string option"

record kubeconfig_details =
  kd_server_url :: string
  kd_ca_pem :: "string option"
  kd_client_identity_pem :: "(string \<times> string) option"
  kd_user_token :: "string option"

record http_client =
  hcl_timeout_secs :: u64
  hcl_accept_invalid_certs :: bool
  hcl_root_certificate :: "string option"
  hcl_identity :: "string option"

section \<open>External operations\<close>

record k8s_ext =
  kx_get :: "http_client \<Rightarrow> string option \<Rightarrow> string \<Rightarrow> string + nat \<times> string"
    \<comment> \<open>client, bearer token, URL; error of \<^verbatim>\<open>send\<close>, or status and body\<close>
  kx_status_text :: "nat \<Rightarrow> string"
  kx_json :: "string \<Rightarrow> string + json"   \<comment> \<open>reading and parsing a body\<close>
  kx_decode_error :: "json \<Rightarrow> string"
  kx_encode_pair :: "string \<Rightarrow> string \<Rightarrow> string"   \<comment> \<open>\<^verbatim>\<open>form_urlencoded\<close>\<close>
  kx_read_file :: "string \<Rightarrow> string + string"
  kx_yaml :: "string \<Rightarrow> string + json"
  kx_base64_decode :: "string \<Rightarrow> string + string"
  kx_certificate_error :: "string \<Rightarrow> string option"
  kx_identity_error :: "string \<Rightarrow> string option"
  kx_client_error :: "http_client \<Rightarrow> string option"

section \<open>Decoding\<close>

definition target_port_of_json :: "target_port decoder" where
  "target_port_of_json v =
     (case of_word v of
        Some n \<Rightarrow> Some (TargetInt n)
      | None \<Rightarrow> map_option TargetName (of_str v))"

definition service_port_of_json :: "k8s_service_port decoder" where
  "service_port_of_json = of_struct [''targetPort'', ''protocol''] (\<lambda>m. do {
     t \<leftarrow> optional target_port_of_json ''targetPort'' m;
     p \<leftarrow> optional of_str ''protocol'' m;
     Some \<lparr> ksp_target_port = t, ksp_protocol = p \<rparr> })"

definition service_spec_of_json :: "k8s_service_port list decoder" where
  "service_spec_of_json = of_struct [''ports''] (with_default (of_list service_port_of_json) [] ''ports'')"

definition service_of_json :: "k8s_service_port list decoder" where
  "service_of_json = of_struct [''spec''] (with_default service_spec_of_json [] ''spec'')"

definition endpoint_address_of_json :: "string decoder" where
  "endpoint_address_of_json = of_struct [''ip''] (need of_str ''ip'')"

definition endpoint_port_of_json :: "k8s_endpoint_port decoder" where
  "endpoint_port_of_json = of_struct [''port'', ''name'', ''protocol''] (\<lambda>m. do {
     n \<leftarrow> need of_word ''port'' m;
     nm \<leftarrow> optional of_str ''name'' m;
     p \<leftarrow> optional of_str ''protocol'' m;
     Some \<lparr> kep_port = n, kep_name = nm, kep_protocol = p \<rparr> })"

definition endpoint_subset_of_json :: "k8s_endpoint_subset decoder" where
  "endpoint_subset_of_json = of_struct [''addresses'', ''ports''] (\<lambda>m. do {
     as \<leftarrow> optional (of_list endpoint_address_of_json) ''addresses'' m;
     ps \<leftarrow> optional (of_list endpoint_port_of_json) ''ports'' m;
     Some \<lparr> ks_addresses = as, ks_ports = ps \<rparr> })"

definition endpoints_of_json :: "k8s_endpoint_subset list option decoder" where
  "endpoints_of_json = of_struct [''subsets''] (optional (of_list endpoint_subset_of_json) ''subsets'')"

definition slice_conditions_of_json :: "(bool option \<times> bool option) decoder" where
  "slice_conditions_of_json = of_struct [''ready'', ''serving''] (\<lambda>m. do {
     r \<leftarrow> optional of_bool ''ready'' m;
     s \<leftarrow> optional of_bool ''serving'' m;
     Some (r, s) })"

definition slice_endpoint_of_json :: "slice_endpoint decoder" where
  "slice_endpoint_of_json = of_struct [''addresses'', ''conditions''] (\<lambda>m. do {
     as \<leftarrow> with_default (of_list of_str) [] ''addresses'' m;
     c \<leftarrow> with_default slice_conditions_of_json (None, None) ''conditions'' m;
     Some \<lparr> se_addresses = as, se_ready = fst c, se_serving = snd c \<rparr> })"

definition slice_port_of_json :: "slice_port decoder" where
  "slice_port_of_json = of_struct [''port'', ''name'', ''protocol''] (\<lambda>m. do {
     n \<leftarrow> optional of_word ''port'' m;
     nm \<leftarrow> optional of_str ''name'' m;
     p \<leftarrow> optional of_str ''protocol'' m;
     Some \<lparr> sp_port = n, sp_name = nm, sp_protocol = p \<rparr> })"

definition slice_of_json :: "endpoint_slice decoder" where
  "slice_of_json = of_struct [''endpoints'', ''ports''] (\<lambda>m. do {
     es \<leftarrow> with_default (of_list slice_endpoint_of_json) [] ''endpoints'' m;
     ps \<leftarrow> with_default (of_list slice_port_of_json) [] ''ports'' m;
     Some \<lparr> sl_endpoints = es, sl_ports = ps \<rparr> })"

definition slices_of_json :: "endpoint_slice list decoder" where
  "slices_of_json = of_struct [''items''] (with_default (of_list slice_of_json) [] ''items'')"

definition raw_cluster_of_json :: "raw_cluster decoder" where
  "raw_cluster_of_json = of_struct [''server'', ''certificate-authority-data''] (\<lambda>m. do {
     s \<leftarrow> need of_str ''server'' m;
     c \<leftarrow> optional of_str ''certificate-authority-data'' m;
     Some \<lparr> rc_server = s, rc_certificate_authority_data = c \<rparr> })"

definition raw_user_of_json :: "raw_user decoder" where
  "raw_user_of_json = of_struct [''token'', ''client-certificate-data'', ''client-key-data''] (\<lambda>m. do {
     t \<leftarrow> optional of_str ''token'' m;
     c \<leftarrow> optional of_str ''client-certificate-data'' m;
     k \<leftarrow> optional of_str ''client-key-data'' m;
     Some \<lparr> ru_token = t, ru_client_certificate_data = c, ru_client_key_data = k \<rparr> })"

definition raw_context_of_json :: "(string \<times> string) decoder" where
  "raw_context_of_json = of_struct [''cluster'', ''user''] (\<lambda>m. do {
     c \<leftarrow> need of_str ''cluster'' m;
     u \<leftarrow> need of_str ''user'' m;
     Some (c, u) })"

text \<open>An entry that gives a name to a thing.\<close>

definition named_of_json :: "string \<Rightarrow> 'a decoder \<Rightarrow> (string \<times> 'a) decoder" where
  "named_of_json k d = of_struct [''name'', k] (\<lambda>m. do {
     n \<leftarrow> need of_str ''name'' m;
     y \<leftarrow> need d k m;
     Some (n, y) })"

definition kubeconfig_of_json :: "raw_kubeconfig decoder" where
  "kubeconfig_of_json = of_struct [''clusters'', ''users'', ''contexts'', ''current-context''] (\<lambda>m. do {
     cls \<leftarrow> optional (of_list (named_of_json ''cluster'' raw_cluster_of_json)) ''clusters'' m;
     us \<leftarrow> optional (of_list (named_of_json ''user'' raw_user_of_json)) ''users'' m;
     cs \<leftarrow> optional (of_list (named_of_json ''context'' raw_context_of_json)) ''contexts'' m;
     cc \<leftarrow> optional of_str ''current-context'' m;
     Some \<lparr> rk_clusters = cls, rk_users = us, rk_contexts = cs, rk_current_context = cc \<rparr> })"

definition kx_decode_service :: "k8s_ext \<Rightarrow> string \<Rightarrow> string + k8s_service_port list" where
  "kx_decode_service k body = decode_tree (kx_decode_error k) service_of_json (kx_json k body)"

definition kx_decode_endpoints :: "k8s_ext \<Rightarrow> string \<Rightarrow> string + k8s_endpoint_subset list option" where
  "kx_decode_endpoints k body = decode_tree (kx_decode_error k) endpoints_of_json (kx_json k body)"

definition kx_decode_slices :: "k8s_ext \<Rightarrow> string \<Rightarrow> string + endpoint_slice list" where
  "kx_decode_slices k body = decode_tree (kx_decode_error k) slices_of_json (kx_json k body)"

definition kx_parse_kubeconfig :: "k8s_ext \<Rightarrow> string \<Rightarrow> string + raw_kubeconfig" where
  "kx_parse_kubeconfig k raw = decode_tree (kx_decode_error k) kubeconfig_of_json (kx_yaml k raw)"

section \<open>Port filter\<close>

record service_tcp_filter =
  numeric_targets :: "u16 set"
  named_targets :: "string set"

definition tcp_filter_default :: service_tcp_filter where
  "tcp_filter_default = \<lparr> numeric_targets = {}, named_targets = {} \<rparr>"

definition filter_allows :: "service_tcp_filter \<Rightarrow> u16 \<Rightarrow> string option \<Rightarrow> bool" where
  "filter_allows f p port_entry_name =
     (if numeric_targets f = {} \<and> named_targets f = {} then True
      else if p \<in> numeric_targets f then True
      else case port_entry_name of Some name \<Rightarrow> name \<in> named_targets f | None \<Rightarrow> False)"

definition protocol_excluded_from_http_proxy :: "string option \<Rightarrow> bool" where
  "protocol_excluded_from_http_proxy protocol =
     (case protocol of None \<Rightarrow> False
      | Some p \<Rightarrow> eq_ignore_ascii_case p ''UDP'' \<or> eq_ignore_ascii_case p ''SCTP'')"

definition add_service_port :: "k8s_service_port \<Rightarrow> service_tcp_filter \<Rightarrow> service_tcp_filter" where
  "add_service_port p f =
     (if protocol_excluded_from_http_proxy (ksp_protocol p) then f
      else case ksp_target_port p of
             Some (TargetInt v) \<Rightarrow>
               if unat v < 2 ^ 16 then f\<lparr> numeric_targets := insert (ucast v) (numeric_targets f) \<rparr> else f
           | Some (TargetName n) \<Rightarrow>
               if n \<noteq> [] then f\<lparr> named_targets := insert n (named_targets f) \<rparr> else f
           | None \<Rightarrow> f)"

definition from_service_ports :: "k8s_service_port list \<Rightarrow> service_tcp_filter" where
  "from_service_ports ports = fold add_service_port ports tcp_filter_default"

section \<open>Flattening\<close>

definition bare_instance :: "string \<Rightarrow> u16 \<Rightarrow> service_instance" where
  "bare_instance h p = \<lparr> si_host = h, si_port = p, si_metadata = [] \<rparr>"

definition endpoint_slices_to_instances ::
  "endpoint_slice list \<Rightarrow> service_tcp_filter \<Rightarrow> service_instance list" where
  "endpoint_slices_to_instances items f =
     snd (fold (\<lambda>slice acc.
       if sl_ports slice = [] \<and> sl_endpoints slice = [] then acc
       else fold (\<lambda>ep acc.
         if se_ready ep = Some False \<or> se_serving ep = Some False then acc
         else fold (\<lambda>addr acc.
           fold (\<lambda>port_ent acc.
             if protocol_excluded_from_http_proxy (sp_protocol port_ent) then acc
             else case sp_port port_ent of
                    None \<Rightarrow> acc
                  | Some port_num \<Rightarrow>
                      if \<not> filter_allows f port_num (sp_name port_ent) then acc
                      else push_unseen instance_host_port (bare_instance addr port_num) acc)
             (sl_ports slice) acc)
           (se_addresses ep) acc)
         (sl_endpoints slice) acc)
       items ({}, []))"

definition unwrap_list :: "'a list option \<Rightarrow> 'a list" where
  "unwrap_list o' = (case o' of None \<Rightarrow> [] | Some l \<Rightarrow> l)"

definition endpoints_to_instances ::
  "k8s_endpoint_subset list option \<Rightarrow> service_tcp_filter \<Rightarrow> service_instance list" where
  "endpoints_to_instances subsets f =
     snd (fold (\<lambda>subset acc.
       fold (\<lambda>address acc.
         fold (\<lambda>p acc.
           if protocol_excluded_from_http_proxy (kep_protocol p) then acc
           else if \<not> filter_allows f (kep_port p) (kep_name p) then acc
           else push_unseen instance_host_port (bare_instance address (kep_port p)) acc)
           (unwrap_list (ks_ports subset)) acc)
         (unwrap_list (ks_addresses subset)) acc)
       (unwrap_list subsets) ({}, []))"

section \<open>Kubeconfig, token, client\<close>

definition decode_base64_field :: "k8s_ext \<Rightarrow> string option \<Rightarrow> registry_error + string option" where
  "decode_base64_field k input =
     (case input of
        None \<Rightarrow> Inr None
      | Some v \<Rightarrow> (case kx_base64_decode k v of
          Inl e \<Rightarrow> Inl (UnexpectedResponse (''invalid kubeconfig base64 data: '' @ e))
        | Inr bytes \<Rightarrow> Inr (Some bytes)))"

definition ok_or :: "'a option \<Rightarrow> string \<Rightarrow> registry_error + 'a" where
  "ok_or o' msg = (case o' of None \<Rightarrow> Inl (UnexpectedResponse msg) | Some v \<Rightarrow> Inr v)"

definition prefix_err :: "string \<Rightarrow> string + 'a \<Rightarrow> registry_error + 'a" where
  "prefix_err msg r = (case r of Inl e \<Rightarrow> Inl (UnexpectedResponse (msg @ e)) | Inr v \<Rightarrow> Inr v)"

definition select_kubeconfig ::
  "k8s_ext \<Rightarrow> string option \<Rightarrow> raw_kubeconfig \<Rightarrow> registry_error + kubeconfig_details" where
  "select_kubeconfig k wanted doc =
     res_bind (ok_or (case wanted of Some c \<Rightarrow> Some c | None \<Rightarrow> rk_current_context doc)
                     ''kubeconfig has no context'') (\<lambda>context_name.
     res_bind (ok_or (find (\<lambda>c. fst c = context_name) (unwrap_list (rk_contexts doc)))
                     (''kubeconfig context not found: '' @ context_name)) (\<lambda>(_, cluster_name, user_name).
     res_bind (ok_or (find (\<lambda>c. fst c = cluster_name) (unwrap_list (rk_clusters doc)))
                     (''kubeconfig cluster not found: '' @ cluster_name)) (\<lambda>(_, cluster).
     res_bind (ok_or (find (\<lambda>u. fst u = user_name) (unwrap_list (rk_users doc)))
                     (''kubeconfig user not found: '' @ user_name)) (\<lambda>(_, user).
     res_bind (decode_base64_field k (rc_certificate_authority_data cluster)) (\<lambda>ca_pem.
     res_bind (decode_base64_field k (ru_client_certificate_data user)) (\<lambda>client_cert.
     res_bind (decode_base64_field k (ru_client_key_data user)) (\<lambda>client_key.
     Inr \<lparr> kd_server_url = rc_server cluster, kd_ca_pem = ca_pem,
           kd_client_identity_pem =
             (case (client_cert, client_key) of (Some c, Some key) \<Rightarrow> Some (c, key) | _ \<Rightarrow> None),
           kd_user_token = ru_token user \<rparr>)))))))"

definition load_kubeconfig_details ::
  "k8s_ext \<Rightarrow> kubernetes_config \<Rightarrow> registry_error + kubeconfig_details option" where
  "load_kubeconfig_details k cfg =
     (case kc_kubeconfig_path cfg of
        None \<Rightarrow> Inr None
      | Some path \<Rightarrow>
          res_bind (prefix_err ''read kubeconfig failed: '' (kx_read_file k path)) (\<lambda>raw.
          res_bind (prefix_err ''parse kubeconfig failed: '' (kx_parse_kubeconfig k raw)) (\<lambda>doc.
          res_bind (select_kubeconfig k (kc_kubeconfig_context cfg) doc) (\<lambda>d. Inr (Some d)))))"

definition resolve_bearer_token ::
  "k8s_ext \<Rightarrow> kubernetes_config \<Rightarrow> kubeconfig_details option \<Rightarrow> registry_error + string option" where
  "resolve_bearer_token k cfg kubeconfig =
     (let fallback = Inr (case kubeconfig of None \<Rightarrow> None | Some d \<Rightarrow> kd_user_token d);
          from_file = (\<lambda>auth. case ka_token_file auth of
             None \<Rightarrow> fallback
           | Some token_file \<Rightarrow>
               res_bind (prefix_err ''read token file failed: '' (kx_read_file k token_file)) (\<lambda>token.
               if trim token \<noteq> [] then Inr (Some (trim token)) else fallback))
      in case kc_auth cfg of
           None \<Rightarrow> fallback
         | Some auth \<Rightarrow>
             (case ka_token auth of
                None \<Rightarrow> from_file auth
              | Some token \<Rightarrow> if trim token \<noteq> [] then Inr (Some token) else from_file auth))"

definition build_http_client ::
  "k8s_ext \<Rightarrow> kubernetes_config \<Rightarrow> u64 \<Rightarrow> kubeconfig_details option \<Rightarrow> registry_error + http_client" where
  "build_http_client k cfg timeout_secs kubeconfig =
     (let none_err = (\<lambda>msg e. case e of None \<Rightarrow> Inr () | Some s \<Rightarrow> Inl (UnexpectedResponse (msg @ s)));
          ca = (case kubeconfig of None \<Rightarrow> None | Some d \<Rightarrow> kd_ca_pem d);
          identity = (case kubeconfig of None \<Rightarrow> None
             | Some d \<Rightarrow> map_option (\<lambda>(cert_pem, key_pem). cert_pem @ key_pem) (kd_client_identity_pem d));
          client = \<lparr> hcl_timeout_secs = timeout_secs,
                     hcl_accept_invalid_certs = kc_insecure_skip_tls_verify cfg,
                     hcl_root_certificate = ca, hcl_identity = identity \<rparr>
      in res_bind (case ca of None \<Rightarrow> Inr ()
                   | Some pem \<Rightarrow> none_err ''invalid kubeconfig CA data: '' (kx_certificate_error k pem)) (\<lambda>_.
         res_bind (case identity of None \<Rightarrow> Inr ()
                   | Some pem \<Rightarrow> none_err ''invalid kubeconfig client cert/key: '' (kx_identity_error k pem)) (\<lambda>_.
         res_bind (none_err ''build k8s HTTP client failed: '' (kx_client_error k client)) (\<lambda>_.
         Inr client))))"

section \<open>The registry\<close>

record k8s_registry =
  kr_config :: kubernetes_config
  kr_http :: http_client
  kr_bearer_token :: "string option"

definition k8s_registry_new :: "k8s_ext \<Rightarrow> kubernetes_config \<Rightarrow> u64 \<Rightarrow> registry_error + k8s_registry" where
  "k8s_registry_new k cfg timeout_secs =
     res_bind (load_kubeconfig_details k cfg) (\<lambda>kubeconfig.
     let cfg' = (case kubeconfig of
                   None \<Rightarrow> cfg
                 | Some details \<Rightarrow>
                     if trim (kc_api_server_url cfg) = ''https://kubernetes.default.svc''
                     then cfg\<lparr> kc_api_server_url := kd_server_url details \<rparr> else cfg)
     in res_bind (resolve_bearer_token k cfg' kubeconfig) (\<lambda>token.
        res_bind (build_http_client k cfg' timeout_secs kubeconfig) (\<lambda>http.
        Inr \<lparr> kr_config = cfg', kr_http = http, kr_bearer_token = token \<rparr>)))"

definition build_endpoint_slice_label_selector :: "string \<Rightarrow> string option \<Rightarrow> string" where
  "build_endpoint_slice_label_selector service_name extra =
     (let s = ''kubernetes.io/service-name='' @ service_name
      in case extra of None \<Rightarrow> s | Some x \<Rightarrow> let t = trim x in if t \<noteq> [] then s @ '','' @ t else s)"

definition api_base :: "k8s_registry \<Rightarrow> string" where
  "api_base r = trim_end_matches (kc_api_server_url (kr_config r)) CHR ''/''"

definition endpoint_url :: "k8s_registry \<Rightarrow> string \<Rightarrow> string \<Rightarrow> string" where
  "endpoint_url r namespace service_id =
     api_base r @ ''/api/v1/namespaces/'' @ namespace @ ''/endpoints/'' @ service_id"

definition service_url :: "k8s_registry \<Rightarrow> string \<Rightarrow> string \<Rightarrow> string" where
  "service_url r namespace service_id =
     api_base r @ ''/api/v1/namespaces/'' @ namespace @ ''/services/'' @ service_id"

definition endpoint_slices_list_url :: "k8s_ext \<Rightarrow> k8s_registry \<Rightarrow> string \<Rightarrow> string \<Rightarrow> string" where
  "endpoint_slices_list_url k r namespace service_name =
     api_base r @ ''/apis/discovery.k8s.io/v1/namespaces/'' @ namespace @ ''/endpointslices'' @ ''?'' @
     kx_encode_pair k ''labelSelector''
       (build_endpoint_slice_label_selector service_name (kc_endpoint_slice_label_selector (kr_config r)))"

definition k8s_health_url :: "k8s_registry \<Rightarrow> string" where
  "k8s_health_url r = api_base r @ ''/readyz''"

definition with_auth :: "k8s_registry \<Rightarrow> string option" where
  "with_auth r = (case kr_bearer_token r of
     Some token \<Rightarrow> if trim token \<noteq> [] then Some token else None | None \<Rightarrow> None)"

definition is_success :: "nat \<Rightarrow> bool" where
  "is_success status \<longleftrightarrow> 200 \<le> status \<and> status < 300"

text \<open>The common shape of the three fetches: send, reject 401 and 403, map 404 to a default,
  reject other statuses, decode.\<close>

definition fetch_object ::
  "k8s_ext \<Rightarrow> k8s_registry \<Rightarrow> string \<Rightarrow> string \<Rightarrow> 'b \<Rightarrow> (string \<Rightarrow> string + 'a) \<Rightarrow> ('a \<Rightarrow> 'b) \<Rightarrow> registry_error + 'b" where
  "fetch_object k r what url not_found decode use =
     (case kx_get k (kr_http r) (with_auth r) url of
        Inl e \<Rightarrow> Inl (RegHttp e)
      | Inr (status, body) \<Rightarrow>
          if status = 401 \<or> status = 403 then Inl AuthFailed
          else if status = 404 then Inr not_found
          else if \<not> is_success status then
            Inl (UnexpectedResponse (''Kubernetes '' @ what @ '' '' @ url @ '' returned '' @ kx_status_text k status))
          else (case decode body of Inl e \<Rightarrow> Inl (UnexpectedResponse e) | Inr v \<Rightarrow> Inr (use v)))"

definition fetch_service_tcp_filter ::
  "k8s_ext \<Rightarrow> k8s_registry \<Rightarrow> string \<Rightarrow> string \<Rightarrow> registry_error + service_tcp_filter" where
  "fetch_service_tcp_filter k r namespace name =
     fetch_object k r ''service'' (service_url r namespace name) tcp_filter_default
       (kx_decode_service k) from_service_ports"

definition fetch_core_endpoints ::
  "k8s_ext \<Rightarrow> k8s_registry \<Rightarrow> string \<Rightarrow> string \<Rightarrow> service_tcp_filter \<Rightarrow> registry_error + service_instance list" where
  "fetch_core_endpoints k r namespace name f =
     fetch_object k r ''endpoints'' (endpoint_url r namespace name) []
       (kx_decode_endpoints k) (\<lambda>e. endpoints_to_instances e f)"

definition fetch_endpoint_slices ::
  "k8s_ext \<Rightarrow> k8s_registry \<Rightarrow> string \<Rightarrow> string \<Rightarrow> service_tcp_filter \<Rightarrow> registry_error + service_instance list" where
  "fetch_endpoint_slices k r namespace name f =
     fetch_object k r ''endpointSlices'' (endpoint_slices_list_url k r namespace name) []
       (kx_decode_slices k) (\<lambda>l. endpoint_slices_to_instances l f)"

definition k8s_namespace :: "k8s_registry \<Rightarrow> string" where
  "k8s_namespace r = (case kc_namespace (kr_config r) of None \<Rightarrow> ''default'' | Some n \<Rightarrow> n)"

definition k8s_get_healthy_instances ::
  "k8s_ext \<Rightarrow> k8s_registry \<Rightarrow> string \<Rightarrow> registry_error + service_instance list" where
  "k8s_get_healthy_instances k r service_id =
     (let namespace = k8s_namespace r
      in res_bind (fetch_service_tcp_filter k r namespace service_id) (\<lambda>f.
         res_bind (fetch_core_endpoints k r namespace service_id f) (\<lambda>from_core.
         if from_core \<noteq> [] then Inr from_core
         else fetch_endpoint_slices k r namespace service_id f)))"

definition k8s_health :: "k8s_ext \<Rightarrow> k8s_registry \<Rightarrow> registry_health" where
  "k8s_health k r =
     (case kx_get k (kr_http r) (with_auth r) (k8s_health_url r) of
        Inl e \<Rightarrow> Unhealthy e
      | Inr (status, _) \<Rightarrow> if is_success status then Healthy
          else Degraded (''HTTP '' @ kx_status_text k status))"

definition k8s_service_registry :: "k8s_ext \<Rightarrow> k8s_registry \<Rightarrow> service_registry" where
  "k8s_service_registry k r = \<lparr> kind = KKubernetes,
     get_healthy_instances = k8s_get_healthy_instances k r, health = k8s_health k r \<rparr>"

section \<open>What the flattenings list\<close>

text \<open>A port that the Service forwards to over TCP: a protocol that is not UDP or SCTP in any
  case, and one of the target ports by number or by name, if the Service names any.\<close>

definition wanted_port :: "service_tcp_filter \<Rightarrow> u16 \<Rightarrow> string option \<Rightarrow> string option \<Rightarrow> bool" where
  "wanted_port f p name protocol \<longleftrightarrow>
     (\<forall>s. protocol = Some s \<longrightarrow> to_lowercase s \<noteq> ''udp'' \<and> to_lowercase s \<noteq> ''sctp'') \<and>
     (numeric_targets f = {} \<and> named_targets f = {} \<or> p \<in> numeric_targets f \<or> (\<exists>n\<in>named_targets f. name = Some n))"

definition slice_pair :: "service_tcp_filter \<Rightarrow> endpoint_slice list \<Rightarrow> string \<Rightarrow> u16 \<Rightarrow> bool" where
  "slice_pair f items h p = (\<exists>sl\<in>set items. \<exists>ep\<in>set (sl_endpoints sl). \<exists>pe\<in>set (sl_ports sl).
     se_ready ep \<noteq> Some False \<and> se_serving ep \<noteq> Some False \<and> h \<in> set (se_addresses ep) \<and>
     sp_port pe = Some p \<and> wanted_port f p (sp_name pe) (sp_protocol pe))"

definition endpoint_pair :: "service_tcp_filter \<Rightarrow> k8s_endpoint_subset list option \<Rightarrow> string \<Rightarrow> u16 \<Rightarrow> bool" where
  "endpoint_pair f subsets h p = (\<exists>s\<in>set (unwrap_list subsets). \<exists>pe\<in>set (unwrap_list (ks_ports s)).
     h \<in> set (unwrap_list (ks_addresses s)) \<and> kep_port pe = p \<and>
     wanted_port f p (kep_name pe) (kep_protocol pe))"

lemma wanted_port_iff:
  "wanted_port f p name protocol \<longleftrightarrow> \<not> protocol_excluded_from_http_proxy protocol \<and> filter_allows f p name"
proof -
  have "to_lowercase ''UDP'' = ''udp''" "to_lowercase ''SCTP'' = ''sctp''"
    by code_simp+
  then show ?thesis
    by (auto simp: wanted_port_def protocol_excluded_from_http_proxy_def filter_allows_def eq_ignore_ascii_case_def
        split: option.split)
qed

definition slice_candidates :: "service_tcp_filter \<Rightarrow> endpoint_slice \<Rightarrow> service_instance list" where
  "slice_candidates f sl =
     concat (map (\<lambda>ep. if se_ready ep = Some False \<or> se_serving ep = Some False then []
       else concat (map (\<lambda>addr. concat (map (\<lambda>pe.
              if protocol_excluded_from_http_proxy (sp_protocol pe) then []
              else case sp_port pe of None \<Rightarrow> []
                   | Some n \<Rightarrow> if filter_allows f n (sp_name pe) then [bare_instance addr n] else [])
              (sl_ports sl))) (se_addresses ep))) (sl_endpoints sl))"

definition subset_candidates :: "service_tcp_filter \<Rightarrow> k8s_endpoint_subset \<Rightarrow> service_instance list" where
  "subset_candidates f s =
     concat (map (\<lambda>addr. concat (map (\<lambda>pe.
              if protocol_excluded_from_http_proxy (kep_protocol pe) then []
              else if filter_allows f (kep_port pe) (kep_name pe) then [bare_instance addr (kep_port pe)] else [])
              (unwrap_list (ks_ports s)))) (unwrap_list (ks_addresses s)))"

lemma slices_first_seen:
  "endpoint_slices_to_instances items f =
     first_seen instance_host_port {} (concat (map (slice_candidates f) items))"
proof -
  have "endpoint_slices_to_instances items f =
      snd (fold (push_unseen instance_host_port) (concat (map (slice_candidates f) items)) ({}, []))"
    unfolding endpoint_slices_to_instances_def
    by (rule arg_cong [where f = snd], rule fold_push_concat)
       (auto simp: slice_candidates_def intro!: fold_push_concat split: option.split)
  then show ?thesis by (simp add: fold_push_unseen)
qed

lemma endpoints_first_seen:
  "endpoints_to_instances subsets f =
     first_seen instance_host_port {} (concat (map (subset_candidates f) (unwrap_list subsets)))"
proof -
  have "endpoints_to_instances subsets f =
      snd (fold (push_unseen instance_host_port)
            (concat (map (subset_candidates f) (unwrap_list subsets))) ({}, []))"
    unfolding endpoints_to_instances_def
    by (rule arg_cong [where f = snd], rule fold_push_concat)
       (auto simp: subset_candidates_def intro!: fold_push_concat)
  then show ?thesis by (simp add: fold_push_unseen)
qed

lemma mem_guarded:
  "i \<in> set (if c then [] else l) \<longleftrightarrow> \<not> c \<and> i \<in> set l"
  "i \<in> set (if c then l else []) \<longleftrightarrow> c \<and> i \<in> set l"
  "i \<in> set (case q of None \<Rightarrow> [] | Some n \<Rightarrow> g n) \<longleftrightarrow> (\<exists>n. q = Some n \<and> i \<in> set (g n))"
  by (auto split: option.splits)

lemma mem_concat_map: "i \<in> set (concat (map g l)) \<longleftrightarrow> (\<exists>x\<in>set l. i \<in> set (g x))"
  by simp

lemma set_slice_candidates:
  "(\<exists>sl\<in>set items. i \<in> set (slice_candidates f sl)) \<longleftrightarrow>
     (\<exists>h p. i = bare_instance h p \<and> slice_pair f items h p)"
  unfolding slice_candidates_def slice_pair_def wanted_port_iff mem_concat_map mem_guarded list.set insert_iff empty_iff
  by blast

lemma set_subset_candidates:
  "(\<exists>s\<in>set (unwrap_list subsets). i \<in> set (subset_candidates f s)) \<longleftrightarrow>
     (\<exists>h p. i = bare_instance h p \<and> endpoint_pair f subsets h p)"
  unfolding subset_candidates_def endpoint_pair_def wanted_port_iff mem_concat_map mem_guarded list.set insert_iff empty_iff
  by blast

lemma first_seen_bare:
  assumes "\<And>i. i \<in> set l \<longleftrightarrow> (\<exists>h p. i = bare_instance h p \<and> P h p)"
  shows "distinct (map instance_host_port (first_seen instance_host_port {} l))"
    and "i \<in> set (first_seen instance_host_port {} l) \<longleftrightarrow> (\<exists>h p. i = bare_instance h p \<and> P h p)"
proof -
  show "distinct (map instance_host_port (first_seen instance_host_port {} l))"
    by (rule distinct_first_seen)
  show "i \<in> set (first_seen instance_host_port {} l) \<longleftrightarrow> (\<exists>h p. i = bare_instance h p \<and> P h p)"
  proof
    assume "i \<in> set (first_seen instance_host_port {} l)"
    then have "i \<in> set l" by (rule subsetD [OF set_first_seen_subset])
    then show "\<exists>h p. i = bare_instance h p \<and> P h p" by (simp add: assms)
  next
    assume "\<exists>h p. i = bare_instance h p \<and> P h p"
    then obtain h p where i: "i = bare_instance h p" and "i \<in> set l" by (auto simp: assms)
    then have "instance_host_port i \<in> instance_host_port ` set (first_seen instance_host_port {} l)"
      by (simp add: key_first_seen)
    then obtain j where j: "j \<in> set (first_seen instance_host_port {} l)"
      "instance_host_port j = instance_host_port i" by auto
    then have "j \<in> set l" using set_first_seen_subset by (metis subsetD)
    then have "j = i" using j(2) i by (auto simp: assms instance_host_port_def bare_instance_def)
    with j show "i \<in> set (first_seen instance_host_port {} l)" by simp
  qed
qed

lemma k8s_flattening_set:
  "set (endpoint_slices_to_instances items f) = {bare_instance h p | h p. slice_pair f items h p}"
  "set (endpoints_to_instances subsets f) = {bare_instance h p | h p. endpoint_pair f subsets h p}"
proof -
  have "i \<in> set (concat (map (slice_candidates f) items)) \<longleftrightarrow>
      (\<exists>h p. i = bare_instance h p \<and> slice_pair f items h p)" for i
    using set_slice_candidates by simp
  note 1 = first_seen_bare [OF this]
  have "i \<in> set (concat (map (subset_candidates f) (unwrap_list subsets))) \<longleftrightarrow>
      (\<exists>h p. i = bare_instance h p \<and> endpoint_pair f subsets h p)" for i
    using set_subset_candidates by simp
  note 2 = first_seen_bare [OF this]
  show "set (endpoint_slices_to_instances items f) = {bare_instance h p | h p. slice_pair f items h p}"
    and "set (endpoints_to_instances subsets f) = {bare_instance h p | h p. endpoint_pair f subsets h p}"
    unfolding slices_first_seen endpoints_first_seen using 1(2) 2(2) by blast+
qed

text \<open>C33. Flattening is exact.  From Endpoints and from EndpointSlices alike, the instances are
  exactly the pairs of a listed address and a port of the same group whose protocol is not
  UDP or SCTP and which the Service's target ports allow (and, for slices, whose endpoint is
  neither marked not ready nor not serving), each pair once, with no metadata.\<close>

theorem k8s_flattening_exact:
  "distinct (map instance_host_port (endpoint_slices_to_instances items f))
   \<and> set (endpoint_slices_to_instances items f) = {bare_instance h p | h p. slice_pair f items h p}
   \<and> distinct (map instance_host_port (endpoints_to_instances subsets f))
   \<and> set (endpoints_to_instances subsets f) = {bare_instance h p | h p. endpoint_pair f subsets h p}"
  unfolding k8s_flattening_set by (simp add: slices_first_seen endpoints_first_seen distinct_first_seen)

section \<open>The contract\<close>

text \<open>What the cluster says about service \<open>s\<close>, read through the API objects.\<close>

definition ok_body :: "k8s_ext \<Rightarrow> k8s_registry \<Rightarrow> string \<Rightarrow> string option" where
  "ok_body k r url = (case kx_get k (kr_http r) (with_auth r) url of
     Inl _ \<Rightarrow> None | Inr (status, body) \<Rightarrow> if is_success status then Some body else None)"

definition k8s_lists :: "k8s_ext \<times> k8s_registry \<Rightarrow> string \<Rightarrow> service_instance \<Rightarrow> bool" where
  "k8s_lists kr s i =
     (case kr of (k, r) \<Rightarrow>
      \<exists>f. fetch_service_tcp_filter k r (k8s_namespace r) s = Inr f \<and>
        ((\<exists>body subsets. ok_body k r (endpoint_url r (k8s_namespace r) s) = Some body \<and>
            kx_decode_endpoints k body = Inr subsets \<and> endpoint_pair f subsets (si_host i) (si_port i))
         \<or> (\<exists>body items. ok_body k r (endpoint_slices_list_url k r (k8s_namespace r) s) = Some body \<and>
            kx_decode_slices k body = Inr items \<and> slice_pair f items (si_host i) (si_port i))))"

lemma fetch_object_Inr:
  "fetch_object k r what url d decode use = Inr v \<Longrightarrow>
     v = d \<or> (\<exists>body x. ok_body k r url = Some body \<and> decode body = Inr x \<and> v = use x)"
  by (auto simp: fetch_object_def ok_body_def split: sum.splits prod.splits if_splits)

lemma core_listed:
  assumes "fetch_core_endpoints k r ns s f = Inr insts" and "i \<in> set insts"
  shows "\<exists>body subsets. ok_body k r (endpoint_url r ns s) = Some body \<and>
    kx_decode_endpoints k body = Inr subsets \<and> endpoint_pair f subsets (si_host i) (si_port i)"
proof -
  obtain body x where "ok_body k r (endpoint_url r ns s) = Some body" "kx_decode_endpoints k body = Inr x"
    "insts = endpoints_to_instances x f"
    using fetch_object_Inr [OF assms(1) [unfolded fetch_core_endpoints_def]] assms(2) by auto
  moreover from this assms(2) have "endpoint_pair f x (si_host i) (si_port i)"
    using k8s_flattening_set(2) by (auto simp: bare_instance_def)
  ultimately show ?thesis by blast
qed

lemma slices_listed:
  assumes "fetch_endpoint_slices k r ns s f = Inr insts" and "i \<in> set insts"
  shows "\<exists>body items. ok_body k r (endpoint_slices_list_url k r ns s) = Some body \<and>
    kx_decode_slices k body = Inr items \<and> slice_pair f items (si_host i) (si_port i)"
proof -
  obtain body x where "ok_body k r (endpoint_slices_list_url k r ns s) = Some body"
    "kx_decode_slices k body = Inr x" "insts = endpoint_slices_to_instances x f"
    using fetch_object_Inr [OF assms(1) [unfolded fetch_endpoint_slices_def]] assms(2) by auto
  moreover from this assms(2) have "slice_pair f x (si_host i) (si_port i)"
    using k8s_flattening_set(1) by (auto simp: bare_instance_def)
  ultimately show ?thesis by blast
qed

interpretation k8s: registry_source "\<lambda>(k, r). k8s_get_healthy_instances k r" k8s_lists
proof
  fix kr s insts i
  assume ask: "(case kr of (k, r) \<Rightarrow> k8s_get_healthy_instances k r) s = Inr insts" and i: "i \<in> set insts"
  obtain k r where kr: "kr = (k, r)" by force
  from ask obtain f core where f: "fetch_service_tcp_filter k r (k8s_namespace r) s = Inr f"
    and core: "fetch_core_endpoints k r (k8s_namespace r) s f = Inr core"
    and out: "if core \<noteq> [] then insts = core else fetch_endpoint_slices k r (k8s_namespace r) s f = Inr insts"
    by (auto simp: kr k8s_get_healthy_instances_def Let_def res_simps split: if_splits)
  show "k8s_lists kr s i"
  proof (cases "core = []")
    case True
    with out slices_listed i f show ?thesis by (fastforce simp: k8s_lists_def kr)
  next
    case False
    with out core_listed [OF core] i f show ?thesis by (fastforce simp: k8s_lists_def kr)
  qed
qed

section \<open>Lists that are null\<close>

lemma opt_map_None: "y \<in> set ys \<Longrightarrow> f y = None \<Longrightarrow> opt_map f ys = None"
  by (induction ys) (auto split: option.splits simp: bind_eq_None_conv)

lemma null_slice: "map_of sl ''endpoints'' = Some JNull \<or> map_of sl ''ports'' = Some JNull \<Longrightarrow> slice_of_json (JObj sl) = None"
  by (auto simp: slice_of_json_def of_struct_def with_default_def of_list_def bind_eq_None_conv)

text \<open>C14. A cluster writes the \<^verbatim>\<open>endpoints\<close> and \<^verbatim>\<open>ports\<close> of a slice without
  entries as \<^verbatim>\<open>null\<close>.  One such slice makes the decoder refuse the whole list: a
  service that has no Core Endpoints then cannot be resolved, whatever the other slices
  list.  In Endpoints the same \<^verbatim>\<open>null\<close> is accepted as nothing.\<close>

theorem null_slice_refused:
  assumes "kx_get k (kr_http r) (with_auth r) (endpoint_slices_list_url k r (k8s_namespace r) s) = Inr (200, body)"
    and "kx_json k body = Inr (JObj m)" and "map_of m ''items'' = Some (JArr vs)" and "JObj sl \<in> set vs"
    and "map_of sl ''endpoints'' = Some JNull \<or> map_of sl ''ports'' = Some JNull"
    and "fetch_service_tcp_filter k r (k8s_namespace r) s = Inr f"
    and "fetch_core_endpoints k r (k8s_namespace r) s f = Inr []"
  shows "k8s_get_healthy_instances k r s = Inl (UnexpectedResponse (kx_decode_error k (JObj m)))
    \<and> endpoints_of_json (JObj [(''subsets'', JNull)]) = Some None"
proof
  have "slices_of_json (JObj m) = None"
    using opt_map_None [where f = slice_of_json, OF assms(4) null_slice [OF assms(5)]] assms(3)
    by (simp add: slices_of_json_def of_struct_def with_default_def of_list_def)
  with assms show "k8s_get_healthy_instances k r s = Inl (UnexpectedResponse (kx_decode_error k (JObj m)))"
    by (simp add: k8s_get_healthy_instances_def Let_def fetch_endpoint_slices_def fetch_object_def is_success_def
        kx_decode_slices_def decode_tree_def)
next
  show "endpoints_of_json (JObj [(''subsets'', JNull)]) = Some None"
    by code_simp
qed

text \<open>A cluster with no Service and no Endpoints object and two slices, one of them empty.\<close>

definition example_slices :: "(string \<times> json) list" where
  "example_slices = [(''items'', JArr [
     JObj [(''endpoints'', JArr [JObj [(''addresses'', JArr [JStr ''10.0.0.1''])]]), (''ports'', JArr [JObj [(''port'', JInt 80)]])],
     JObj [(''endpoints'', JNull), (''ports'', JNull)]])]"

definition example_k8s_registry :: k8s_registry where
  "example_k8s_registry = \<lparr> kr_config = \<lparr> kc_priority = 1, kc_api_server_url = ''k'', kc_namespace = None,
       kc_kubeconfig_path = None, kc_kubeconfig_context = None, kc_insecure_skip_tls_verify = False,
       kc_endpoint_slice_label_selector = None, kc_auth = None \<rparr>,
     kr_http = \<lparr> hcl_timeout_secs = 5, hcl_accept_invalid_certs = False, hcl_root_certificate = None, hcl_identity = None \<rparr>,
     kr_bearer_token = None \<rparr>"

definition example_k8s_ext :: k8s_ext where
  "example_k8s_ext = \<lparr>
     kx_get = (\<lambda>c token url. if url = endpoint_url example_k8s_registry ''default'' ''s''
         \<or> url = service_url example_k8s_registry ''default'' ''s'' then Inr (404, []) else Inr (200, [])),
     kx_status_text = show_nat, kx_json = (\<lambda>_. Inr (JObj example_slices)), kx_decode_error = (\<lambda>_. ''bad value''),
     kx_encode_pair = (\<lambda>a b. a @ ''='' @ b), kx_read_file = (\<lambda>_. Inl ''not found''), kx_yaml = (\<lambda>_. Inl ''bad''),
     kx_base64_decode = (\<lambda>_. Inl ''bad''), kx_certificate_error = (\<lambda>_. None),
     kx_identity_error = (\<lambda>_. None), kx_client_error = (\<lambda>_. None) \<rparr>"

theorem null_slice_refused_witness:
  "k8s_get_healthy_instances example_k8s_ext example_k8s_registry ''s'' = Inl (UnexpectedResponse ''bad value'')"
proof -
  have ns: "k8s_namespace example_k8s_registry = ''default''"
    by (simp add: k8s_namespace_def example_k8s_registry_def)
  have url: "endpoint_slices_list_url example_k8s_ext example_k8s_registry ''default'' ''s''
      \<noteq> endpoint_url example_k8s_registry ''default'' ''s''"
    "endpoint_slices_list_url example_k8s_ext example_k8s_registry ''default'' ''s''
      \<noteq> service_url example_k8s_registry ''default'' ''s''"
    by code_simp+
  show ?thesis
    using null_slice_refused [where k = example_k8s_ext and r = example_k8s_registry and s = "''s''" and body = "[]"
        and m = example_slices and sl = "[(''endpoints'', JNull), (''ports'', JNull)]" and f = tcp_filter_default,
        unfolded ns] url
    by (simp add: example_k8s_ext_def fetch_service_tcp_filter_def fetch_core_endpoints_def fetch_object_def)
       (simp add: example_slices_def)
qed

end
