(* ===== verification/Factory.thy ===== *)
theory Factory
  imports NacosEureka K8s
begin

text \<open>
  \<^verbatim>\<open>registry/factory.rs\<close>: the clients of the configured sources, and the resolver over
  them.  What a client answers depends on the outside world (\<open>registry_ext\<close>) at the moment it
  is asked, so a resolver is the view \<open>resolver_at\<close> of its clients in one such world; the only
  part of a client that changes is the token of a Nacos client (\<open>client_moves\<close>).  The four
  kinds of registries meet their contract \<open>registry_source\<close>, so whatever the resolver answers is
  listed by the backend of one of its clients.
\<close>

record registry_ext =
  rx_nacos :: nacos_ext
  rx_eureka :: eureka_ext
  rx_k8s :: k8s_ext

section \<open>Clients\<close>

text \<open>The implementations behind \<^verbatim>\<open>Arc<dyn ServiceRegistry>\<close>.\<close>

datatype registry_client =
    NacosClient nacos_registry
  | EurekaClient eureka_config
  | KubernetesClient k8s_registry
  | MockClient mock_registry_config

fun build_client :: "registry_ext \<Rightarrow> u64 \<Rightarrow> registry_config \<Rightarrow> registry_error + registry_client" where
  "build_client x timeout (Nacos cfg) =
     res_bind (nacos_registry_new (rx_nacos x) cfg) (\<lambda>r. Inr (NacosClient r))"
| "build_client x timeout (Eureka cfg) = Inr (EurekaClient cfg)"
| "build_client x timeout (Kubernetes cfg) =
     res_bind (k8s_registry_new (rx_k8s x) cfg timeout) (\<lambda>r. Inr (KubernetesClient r))"
| "build_client x timeout (Model.Mock cfg) = Inr (MockClient cfg)"

text \<open>Dynamic dispatch: how a client answers in a world.\<close>

fun client_service :: "registry_ext \<Rightarrow> registry_client \<Rightarrow> service_registry" where
  "client_service x (NacosClient r) = nacos_service_registry (rx_nacos x) r"
| "client_service x (EurekaClient cfg) = eureka_service_registry (rx_eureka x) cfg"
| "client_service x (KubernetesClient r) = k8s_service_registry (rx_k8s x) r"
| "client_service x (MockClient cfg) = mock_registry cfg"

type_synonym clients = "(u32 \<times> registry_client) list"

definition resolver_at :: "registry_ext \<Rightarrow> registry_query_mode \<Rightarrow> clients \<Rightarrow> multi_registry_resolver" where
  "resolver_at x m cs = resolver_new (map (\<lambda>(p, c). (p, client_service x c)) cs) m"

definition build_clients :: "registry_ext \<Rightarrow> app_config \<Rightarrow> registry_error + clients" where
  "build_clients x cfg =
     try_map (\<lambda>source. res_bind (build_client x (upstream_timeout_secs (server cfg)) source)
                         (\<lambda>c. Inr (registry_config_priority source, c)))
             (sources (registries cfg))"

definition build_resolver :: "registry_ext \<Rightarrow> app_config \<Rightarrow> registry_error + multi_registry_resolver" where
  "build_resolver x cfg =
     res_bind (build_clients x cfg) (\<lambda>cs. Inr (resolver_at x (query_mode (registries cfg)) cs))"

definition clients_of :: "registry_ext \<Rightarrow> app_config \<Rightarrow> clients" where
  "clients_of x cfg = (case build_clients x cfg of Inr cs \<Rightarrow> cs | Inl _ \<Rightarrow> [])"

lemma build_clients_none: "sources (registries cfg) = [] \<Longrightarrow> build_clients x cfg = Inr []"
  by (simp add: build_clients_def)

lemma resolver_at_none [simp]: "resolver_at x m [] = resolver_new [] m"
  by (simp add: resolver_at_def)

lemma build_resolver_none:
  "sources (registries cfg) = [] \<Longrightarrow> build_resolver x cfg = Inr (resolver_new [] (query_mode (registries cfg)))"
  by (simp add: build_resolver_def build_clients_none)

lemma clients_of_none: "sources (registries cfg) = [] \<Longrightarrow> clients_of x cfg = []"
  by (simp add: clients_of_def build_clients_none)

lemma query_mode_resolver_at [simp]: "res_query_mode (resolver_at x m cs) = m"
  by (simp add: resolver_at_def resolver_new_def)

section \<open>How clients change\<close>

text \<open>The token of a Nacos client is written by the refresh task and by a request that is
  answered with 401 or 403; nothing else in a client is mutable.\<close>

fun client_moves :: "registry_ext \<Rightarrow> registry_client \<Rightarrow> registry_client \<Rightarrow> bool" where
  "client_moves x (NacosClient r) c =
     (c \<in> {NacosClient r, NacosClient (token_refresh_tick (rx_nacos x) r)} \<or>
      (\<exists>svc. c = NacosClient (snd (nacos_get_healthy_instances (rx_nacos x) r svc))))"
| "client_moves x c c' = (c' = c)"

text \<open>The settings of a client: all of it but the token.\<close>

fun same_settings :: "registry_client \<Rightarrow> registry_client \<Rightarrow> bool" where
  "same_settings (NacosClient r) (NacosClient r') = (nr_config r' = nr_config r)"
| "same_settings (NacosClient r) c = False"
| "same_settings c c' = (c' = c)"

lemma same_settings_refl [simp]: "same_settings c c"
  by (cases c) simp_all

lemma same_settings_trans: "same_settings a b \<Longrightarrow> same_settings b c \<Longrightarrow> same_settings a c"
  by (cases a; cases b; cases c) simp_all

lemma authenticate_config [simp]: "nr_config (snd (authenticate n r)) = nr_config r"
  by (simp add: authenticate_def split: option.split sum.split prod.split)

lemma refresh_config [simp]: "nr_config (token_refresh_tick n r) = nr_config r"
  by (simp add: token_refresh_tick_def split: option.split sum.split prod.split)

lemma nacos_get_config [simp]: "nr_config (snd (nacos_get_healthy_instances n r svc)) = nr_config r"
  by (cases "authenticate n r") (use authenticate_config [of n r] in
    \<open>simp add: nacos_get_healthy_instances_def Let_def split: sum.split\<close>)

lemma client_moves_settings: "client_moves x c c' \<Longrightarrow> same_settings c c'"
  by (cases c) auto

definition clients_move :: "registry_ext \<Rightarrow> clients \<Rightarrow> clients \<Rightarrow> bool" where
  "clients_move x = list_all2 (rel_prod (=) (client_moves x))"

definition same_clients :: "clients \<Rightarrow> clients \<Rightarrow> bool" where
  "same_clients = list_all2 (rel_prod (=) same_settings)"

lemma same_clients_refl [simp]: "same_clients cs cs"
  by (auto simp: same_clients_def intro: list.rel_refl)

lemma same_clients_moves: "same_clients cs0 cs \<Longrightarrow> clients_move x cs cs' \<Longrightarrow> same_clients cs0 cs'"
proof -
  have "rel_prod (=) same_settings a c" if "rel_prod (=) same_settings a b" "rel_prod (=) (client_moves x) b c"
    for a b c :: "u32 \<times> registry_client"
    using that client_moves_settings same_settings_trans by (cases a; cases b; cases c) fastforce
  then show "same_clients cs0 cs \<Longrightarrow> clients_move x cs cs' \<Longrightarrow> same_clients cs0 cs'"
    unfolding same_clients_def clients_move_def by (rule list_all2_trans)
qed

section \<open>What a resolver answers\<close>

text \<open>The backend of a client lists the instance as usable.\<close>

fun client_lists :: "registry_ext \<Rightarrow> registry_client \<Rightarrow> string \<Rightarrow> service_instance \<Rightarrow> bool" where
  "client_lists x (NacosClient r) s i = nacos_lists (rx_nacos x, r) s i"
| "client_lists x (EurekaClient cfg) s i = eureka_lists (rx_eureka x, cfg) s i"
| "client_lists x (KubernetesClient r) s i = k8s_lists (rx_k8s x, r) s i"
| "client_lists x (MockClient cfg) s i = mock_lists cfg s i"

lemma client_offers_lists:
  assumes "i \<in> set (offers (client_service x c) s)"
  shows "client_lists x c s i"
proof (cases c)
  case (NacosClient r)
  have "get_healthy_instances (client_service x c) = (case (rx_nacos x, r) of (n, r) \<Rightarrow> \<lambda>s. fst (nacos_get_healthy_instances n r s))"
    by (simp add: NacosClient nacos_service_registry_def)
  from nacos.offers_lists [OF this assms] NacosClient show ?thesis by simp
next
  case (EurekaClient cfg)
  have "get_healthy_instances (client_service x c) = (case (rx_eureka x, cfg) of (e, c) \<Rightarrow> eureka_get_healthy_instances e c)"
    by (simp add: EurekaClient eureka_service_registry_def)
  from eureka.offers_lists [OF this assms] EurekaClient show ?thesis by simp
next
  case (KubernetesClient r)
  have "get_healthy_instances (client_service x c) = (case (rx_k8s x, r) of (k, r) \<Rightarrow> k8s_get_healthy_instances k r)"
    by (simp add: KubernetesClient k8s_service_registry_def)
  from k8s.offers_lists [OF this assms] KubernetesClient show ?thesis by simp
next
  case (MockClient cfg)
  have "get_healthy_instances (client_service x c) = mock_get_healthy_instances cfg"
    by (simp add: MockClient mock_registry_def)
  from mock.offers_lists [OF this assms] MockClient show ?thesis by simp
qed

lemma resolver_at_sound:
  assumes "resolve_service (resolver_at x m cs) s = Inr insts" and "i \<in> set insts"
  shows "\<exists>(p, c)\<in>set cs. client_lists x c s i"
  using resolved_is_offered [OF assms [unfolded resolver_at_def]] client_offers_lists by fastforce

text \<open>The backend of a configured source lists the instance as usable.\<close>

definition source_lists :: "registry_ext \<Rightarrow> u64 \<Rightarrow> registry_config \<Rightarrow> string \<Rightarrow> service_instance \<Rightarrow> bool" where
  "source_lists x timeout source s i = (\<exists>c. build_client x timeout source = Inr c \<and> client_lists x c s i)"

lemma built_client_source:
  assumes "build_clients x cfg = Inr cs" and "(p, c) \<in> set cs"
  shows "\<exists>source\<in>set (sources (registries cfg)). registry_config_priority source = p \<and>
    build_client x (upstream_timeout_secs (server cfg)) source = Inr c"
proof -
  let ?t = "upstream_timeout_secs (server cfg)"
  have all: "list_all2 (\<lambda>source pc. \<exists>c. build_client x ?t source = Inr c \<and>
        (registry_config_priority source, c) = pc) (sources (registries cfg)) cs"
    using assms(1) by (auto simp: build_clients_def res_simps try_map_Inr_iff)
  obtain k where "k < length cs" "cs ! k = (p, c)"
    using assms(2) by (auto simp: in_set_conv_nth)
  with all show ?thesis
    by (intro bexI [of _ "sources (registries cfg) ! k"]) (auto simp: list_all2_conv_all_nth)
qed

text \<open>Discovery is sound from end to end.  Whatever the query mode, every instance the
  resolver built from the configuration returns is listed as usable by the backend of a
  configured source: a healthy Nacos host, an \<^verbatim>\<open>UP\<close> Eureka instance, a ready and
  allowed Kubernetes address and port, or a mock entry.\<close>

theorem discovery_sound:
  assumes "build_resolver x cfg = Inr resolver" and "resolve_service resolver s = Inr insts"
    and "i \<in> set insts"
  shows "\<exists>source\<in>set (sources (registries cfg)). source_lists x (upstream_timeout_secs (server cfg)) source s i"
proof -
  obtain cs where cs: "build_clients x cfg = Inr cs" "resolver = resolver_at x (query_mode (registries cfg)) cs"
    using assms(1) by (auto simp: build_resolver_def res_simps)
  from resolver_at_sound [OF assms(2) [unfolded cs(2)] assms(3)] built_client_source [OF cs(1)]
  show ?thesis unfolding source_lists_def by blast
qed

definition example_mock :: mock_registry_config where
  "example_mock = \<lparr> mc_priority = 1,
     mc_services = [(''svc'', [\<lparr> mi_host = ''h'', mi_port = 80, mi_metadata = [] \<rparr>])],
     mc_error_services = [], mc_health_behavior = MockHealthy \<rparr>"

theorem discovery_sound_witness:
  "mock_lists example_mock ''svc'' (bare_instance ''h'' 80)"
proof -
  let ?cfg = "default_app_config\<lparr> registries := \<lparr> query_mode = Merge, sources = [Model.Mock example_mock] \<rparr> \<rparr>"
  let ?res = "resolver_new [(1, mock_registry example_mock)] Merge"
  have "build_resolver x ?cfg = Inr ?res" for x
    by (simp add: build_resolver_def build_clients_def resolver_at_def example_mock_def)
  moreover have "resolve_service ?res ''svc'' = Inr [bare_instance ''h'' 80]"
    by (simp add: resolve_service_def resolver_new_def sort_registries_def resolve_merge_def mock_registry_def
        mock_get_healthy_instances_def example_mock_def mock_instance_def bare_instance_def)
  ultimately show ?thesis
    using discovery_sound [of _ ?cfg ?res "''svc''" "[bare_instance ''h'' 80]" "bare_instance ''h'' 80"]
    by (simp add: source_lists_def)
qed

end
