(* ===== verification/Cli.thy ===== *)
theory Cli
  imports Prelude
begin

text \<open>
  The command line of \<^verbatim>\<open>main.rs\<close>.  Each arm of \<^verbatim>\<open>parse_command\<close> is a
  definition on the arguments after the subcommand; an index loop over \<^verbatim>\<open>args\<close> is
  recursion on the arguments still to be read.  The loop of \<^verbatim>\<open>route-explain\<close> does
  not always advance its index, so it is a partial function: \<^verbatim>\<open>None\<close> is a parse
  that never returns.  Messages on standard error are not part of the result.
\<close>

section \<open>Commands\<close>

datatype command =
    Run (run_config: string) (run_local_override: "string option")
  | Init string string
  | CheckConfig string bool bool
  | Doctor string bool bool
  | RouteExplain string string string "(string \<times> string) list" "string option" bool bool
  | ConfigDiff string string bool bool
  | ConfigSnapshot string "string option"
  | SmokeProxy string string string u16
  | Replay string string
  | ConfigDrift string "string list" bool
  | Help

definition default_config :: string where
  "default_config = ''config/config.yaml''"

definition is_flag :: "string \<Rightarrow> bool" where
  "is_flag a = starts_with a ''-''"

section \<open>The arms of the parser\<close>

fun run_args :: "string list \<Rightarrow> string \<Rightarrow> string option \<Rightarrow> command" where
  "run_args [] config_path local_override = Run config_path local_override"
| "run_args (a # rest) config_path local_override =
     (if a = ''--local-override'' then
        (case rest of
           v # rest' \<Rightarrow> run_args rest' config_path (Some v)
         | [] \<Rightarrow> run_args rest config_path local_override)
      else if \<not> is_flag a then run_args rest a local_override
      else run_args rest config_path local_override)"

function (sequential) init_args :: "string list \<Rightarrow> string \<Rightarrow> string \<Rightarrow> command" where
  "init_args [] template output_dir = Init template output_dir"
| "init_args (a # rest) template output_dir =
     (if a = ''--template'' \<or> a = ''-t'' then
        (case rest of v # rest' \<Rightarrow> init_args rest' v output_dir | [] \<Rightarrow> init_args rest template output_dir)
      else if a = ''--output'' \<or> a = ''-o'' then
        (case rest of v # rest' \<Rightarrow> init_args rest' template v | [] \<Rightarrow> init_args rest template output_dir)
      else if \<not> is_flag a then init_args rest template a
      else init_args rest template output_dir)"
  by pat_completeness auto
termination
  by (relation "measure (\<lambda>(as, _). length as)") simp_all

fun check_args :: "string list \<Rightarrow> string \<Rightarrow> bool \<Rightarrow> bool \<Rightarrow> command" where
  "check_args [] config_path as_json strict = CheckConfig config_path as_json strict"
| "check_args (a # rest) config_path as_json strict =
     (if a = ''--json'' then check_args rest config_path True strict
      else if a = ''--strict'' then check_args rest config_path as_json True
      else check_args rest a as_json strict)"

fun doctor_args :: "string list \<Rightarrow> string \<Rightarrow> bool \<Rightarrow> bool \<Rightarrow> command" where
  "doctor_args [] config_path probe as_json = Doctor config_path probe as_json"
| "doctor_args (a # rest) config_path probe as_json =
     (if a = ''--config'' then
        (case rest of v # rest' \<Rightarrow> doctor_args rest' v probe as_json | [] \<Rightarrow> doctor_args rest config_path probe as_json)
      else if a = ''--probe-upstream'' then doctor_args rest config_path True as_json
      else if a = ''--json'' then doctor_args rest config_path probe True
      else doctor_args rest a probe as_json)"

record explain_state =
  xs_config :: string
  xs_headers :: "(string \<times> string) list"
  xs_json :: bool
  xs_verbose :: bool
  xs_request_file :: "string option"
  xs_positionals :: "string list"

definition add_header_arg :: "string \<Rightarrow> explain_state \<Rightarrow> explain_state" where
  "add_header_arg v s =
     (case split_once CHR '':'' v of
        None \<Rightarrow> s
      | Some (k, w) \<Rightarrow> s\<lparr> xs_headers := xs_headers s @ [(trim k, trim w)] \<rparr>)"

text \<open>A value flag without a value leaves the index where it is.\<close>

partial_function (option) explain_args :: "string list \<Rightarrow> explain_state \<Rightarrow> explain_state option" where
  "explain_args args s =
     (case args of
        [] \<Rightarrow> Some s
      | a # rest \<Rightarrow>
          if a = ''--config'' then
            (case rest of v # rest' \<Rightarrow> explain_args rest' (s\<lparr> xs_config := v \<rparr>) | [] \<Rightarrow> explain_args args s)
          else if a = ''--request-file'' then
            (case rest of v # rest' \<Rightarrow> explain_args rest' (s\<lparr> xs_request_file := Some v \<rparr>) | [] \<Rightarrow> explain_args args s)
          else if a = ''--header'' then
            (case rest of v # rest' \<Rightarrow> explain_args rest' (add_header_arg v s) | [] \<Rightarrow> explain_args args s)
          else if a = ''--json'' then explain_args rest (s\<lparr> xs_json := True \<rparr>)
          else if a = ''--verbose'' then explain_args rest (s\<lparr> xs_verbose := True \<rparr>)
          else if is_flag a then explain_args rest s
          else explain_args rest (s\<lparr> xs_positionals := xs_positionals s @ [a] \<rparr>))"

definition nth_or :: "string list \<Rightarrow> nat \<Rightarrow> string \<Rightarrow> string" where
  "nth_or l k d = (if k < length l then l ! k else d)"

definition explain_start :: explain_state where
  "explain_start = \<lparr> xs_config = default_config, xs_headers = [], xs_json = False, xs_verbose = False,
     xs_request_file = None, xs_positionals = [] \<rparr>"

definition explain_command :: "explain_state \<Rightarrow> command" where
  "explain_command s = RouteExplain (xs_config s) (nth_or (xs_positionals s) 0 ''/'')
     (nth_or (xs_positionals s) 1 ''GET'') (xs_headers s) (xs_request_file s) (xs_json s) (xs_verbose s)"

fun snapshot_args :: "string list \<Rightarrow> string option \<Rightarrow> string option \<Rightarrow> command" where
  "snapshot_args [] config_path output =
     ConfigSnapshot (case config_path of None \<Rightarrow> default_config | Some c \<Rightarrow> c) output"
| "snapshot_args (a # rest) config_path output =
     (if a = ''--config'' then
        (case rest of v # rest' \<Rightarrow> snapshot_args rest' (Some v) output | [] \<Rightarrow> snapshot_args rest config_path output)
      else if a = ''-o'' \<or> a = ''--output'' then
        (case rest of v # rest' \<Rightarrow> snapshot_args rest' config_path (Some v) | [] \<Rightarrow> snapshot_args rest config_path output)
      else if \<not> is_flag a then snapshot_args rest (Some a) output
      else snapshot_args rest config_path output)"

definition parse_status :: "string \<Rightarrow> u16" where
  "parse_status v = (case parse_unsigned 16 v of None \<Rightarrow> 200 | Some n \<Rightarrow> of_nat n)"

function smoke_args :: "string list \<Rightarrow> string \<Rightarrow> string \<Rightarrow> string \<Rightarrow> u16 \<Rightarrow> command" where
  "smoke_args [] config_path request_path m status = SmokeProxy config_path request_path m status"
| "smoke_args (a # rest) config_path request_path m status =
     (if a = ''--request'' \<or> a = ''-r'' then
        (case rest of v # rest' \<Rightarrow> smoke_args rest' config_path v m status
         | [] \<Rightarrow> smoke_args rest config_path request_path m status)
      else if a = ''--method'' \<or> a = ''-m'' then
        (case rest of v # rest' \<Rightarrow> smoke_args rest' config_path request_path (to_uppercase v) status
         | [] \<Rightarrow> smoke_args rest config_path request_path m status)
      else if a = ''--expect-status'' then
        (case rest of v # rest' \<Rightarrow> smoke_args rest' config_path request_path m (parse_status v)
         | [] \<Rightarrow> smoke_args rest config_path request_path m status)
      else if a = ''--config'' then
        (case rest of v # rest' \<Rightarrow> smoke_args rest' v request_path m status
         | [] \<Rightarrow> smoke_args rest config_path request_path m status)
      else if \<not> is_flag a then smoke_args rest a request_path m status
      else smoke_args rest config_path request_path m status)"
  by pat_completeness auto
termination
  by (relation "measure (\<lambda>(args, _). length args)") simp_all

fun replay_args :: "string list \<Rightarrow> string \<Rightarrow> string option \<Rightarrow> command" where
  "replay_args [] config_path replay_file =
     (case replay_file of Some rf \<Rightarrow> Replay config_path rf | None \<Rightarrow> Help)"
| "replay_args (a # rest) config_path replay_file =
     (if a = ''--config'' then
        (case rest of v # rest' \<Rightarrow> replay_args rest' v replay_file | [] \<Rightarrow> replay_args rest config_path replay_file)
      else if a = ''--file'' \<or> a = ''-f'' then
        (case rest of v # rest' \<Rightarrow> replay_args rest' config_path (Some v) | [] \<Rightarrow> replay_args rest config_path replay_file)
      else if \<not> is_flag a then
        (if replay_file = None then replay_args rest config_path (Some a) else replay_args rest a replay_file)
      else replay_args rest config_path replay_file)"

function (sequential) drift_args :: "string list \<Rightarrow> string option \<Rightarrow> string list \<Rightarrow> bool \<Rightarrow> command" where
  "drift_args [] base_path profile_paths as_json =
     (case base_path of
        Some bp \<Rightarrow> if profile_paths \<noteq> [] then ConfigDrift bp profile_paths as_json else Help
      | None \<Rightarrow> Help)"
| "drift_args (a # rest) base_path profile_paths as_json =
     (if a = ''--json'' then drift_args rest base_path profile_paths True
      else if a = ''--base'' then
        (case rest of v # rest' \<Rightarrow> drift_args rest' (Some v) profile_paths as_json
         | [] \<Rightarrow> drift_args rest base_path profile_paths as_json)
      else if a = ''--profile'' \<or> a = ''-p'' then
        (case rest of v # rest' \<Rightarrow> drift_args rest' base_path (profile_paths @ [v]) as_json
         | [] \<Rightarrow> drift_args rest base_path profile_paths as_json)
      else if \<not> is_flag a then
        (if base_path = None then drift_args rest (Some a) profile_paths as_json
         else drift_args rest base_path (profile_paths @ [a]) as_json)
      else drift_args rest base_path profile_paths as_json)"
  by pat_completeness auto
termination
  by (relation "measure (\<lambda>(as, _). length as)") simp_all

fun diff_args :: "string list \<Rightarrow> string list \<Rightarrow> bool \<Rightarrow> bool \<Rightarrow> command" where
  "diff_args [] positionals as_json markdown =
     (if length positionals < 2 then Help
      else ConfigDiff (positionals ! 0) (positionals ! 1) as_json markdown)"
| "diff_args (a # rest) positionals as_json markdown =
     (if a = ''--json'' then diff_args rest positionals True markdown
      else if a = ''--markdown'' then diff_args rest positionals as_json True
      else if \<not> is_flag a then diff_args rest (positionals @ [a]) as_json markdown
      else diff_args rest positionals as_json markdown)"

definition parse_command :: "string list \<Rightarrow> command option" where
  "parse_command args =
     (case args of
        [] \<Rightarrow> Some (Run default_config None)
      | sub # rest \<Rightarrow>
          if sub = ''run'' then Some (run_args rest default_config None)
          else if sub = ''init'' then Some (init_args rest ''mock'' ''.'')
          else if sub = ''check-config'' then Some (check_args rest default_config False False)
          else if sub = ''doctor'' then Some (doctor_args rest default_config False False)
          else if sub = ''route-explain'' then map_option explain_command (explain_args rest explain_start)
          else if sub = ''config-snapshot'' then Some (snapshot_args rest None None)
          else if sub = ''smoke-proxy'' then Some (smoke_args rest default_config ''/health'' ''GET'' 200)
          else if sub = ''replay'' then Some (replay_args rest default_config None)
          else if sub = ''config-drift'' then Some (drift_args rest None [] False)
          else if sub = ''config-diff'' then Some (diff_args rest [] False False)
          else Some Help)"

section \<open>Which command lines are parsed\<close>

text \<open>Read as flags and values, the arguments end in a flag that lacks its value.\<close>

fun dangling :: "string list \<Rightarrow> bool" where
  "dangling [] = False"
| "dangling (a # rest) =
     (if a = ''--config'' \<or> a = ''--request-file'' \<or> a = ''--header''
      then (case rest of [] \<Rightarrow> True | v # rest' \<Rightarrow> dangling rest') else dangling rest)"

definition takes_value :: "string \<Rightarrow> bool" where
  "takes_value a = (a = ''--config'' \<or> a = ''--request-file'' \<or> a = ''--header'')"

definition set_value :: "string \<Rightarrow> string \<Rightarrow> explain_state \<Rightarrow> explain_state" where
  "set_value a v s = (if a = ''--config'' then s\<lparr> xs_config := v \<rparr>
     else if a = ''--request-file'' then s\<lparr> xs_request_file := Some v \<rparr> else add_header_arg v s)"

definition set_single :: "string \<Rightarrow> explain_state \<Rightarrow> explain_state" where
  "set_single a s = (if a = ''--json'' then s\<lparr> xs_json := True \<rparr>
     else if a = ''--verbose'' then s\<lparr> xs_verbose := True \<rparr>
     else if is_flag a then s else s\<lparr> xs_positionals := xs_positionals s @ [a] \<rparr>)"

lemma explain_body:
  "(case args of
        [] \<Rightarrow> Some s
      | a # rest \<Rightarrow>
          if a = ''--config'' then
            (case rest of v # rest' \<Rightarrow> f rest' (s\<lparr> xs_config := v \<rparr>) | [] \<Rightarrow> f args s)
          else if a = ''--request-file'' then
            (case rest of v # rest' \<Rightarrow> f rest' (s\<lparr> xs_request_file := Some v \<rparr>) | [] \<Rightarrow> f args s)
          else if a = ''--header'' then
            (case rest of v # rest' \<Rightarrow> f rest' (add_header_arg v s) | [] \<Rightarrow> f args s)
          else if a = ''--json'' then f rest (s\<lparr> xs_json := True \<rparr>)
          else if a = ''--verbose'' then f rest (s\<lparr> xs_verbose := True \<rparr>)
          else if is_flag a then f rest s
          else f rest (s\<lparr> xs_positionals := xs_positionals s @ [a] \<rparr>)) =
   (case args of [] \<Rightarrow> Some s
      | a # rest \<Rightarrow> if takes_value a
          then (case rest of [] \<Rightarrow> f args s | v # rest' \<Rightarrow> f rest' (set_value a v s))
          else f rest (set_single a s))"
  by (simp add: takes_value_def set_value_def set_single_def split: list.split)

lemma dangling_simps:
  "dangling [] = False"
  "dangling (a # rest) = (if takes_value a then (case rest of [] \<Rightarrow> True | v # rest' \<Rightarrow> dangling rest')
     else dangling rest)"
  by (simp_all add: takes_value_def)

declare dangling.simps [simp del]

lemmas explain_step = explain_args.simps [unfolded explain_body]

lemma explain_args_Nil [simp]: "explain_args [] s = Some s"
  by (subst explain_step) simp

lemma explain_args_single: "\<not> takes_value a \<Longrightarrow> explain_args (a # rest) s = explain_args rest (set_single a s)"
  by (subst explain_step) simp

lemma explain_args_value: "takes_value a \<Longrightarrow> explain_args (a # v # rest) s = explain_args rest (set_value a v s)"
  by (subst explain_step) simp

lemma explain_args_total: "\<not> dangling args \<Longrightarrow> \<exists>r. explain_args args s = Some r"
proof (induction "length args" arbitrary: args s rule: less_induct)
  case less
  show ?case
  proof (cases args)
    case Nil
    then show ?thesis by simp
  next
    case (Cons a rest)
    with less show ?thesis
      by (cases "takes_value a"; cases rest)
         (auto simp: explain_args_single explain_args_value dangling_simps)
  qed
qed

text \<open>A loop that keeps its state yields nothing.\<close>

lemma explain_args_stuck:
  assumes "explain_args args s = Some r"
  shows "\<not> dangling args"
proof (rule explain_args.raw_induct [where P = "\<lambda>args s r. \<not> dangling args", OF _ assms])
  fix f :: "string list \<Rightarrow> explain_state \<Rightarrow> explain_state option"
    and args :: "string list" and s r :: explain_state
  assume IH: "\<And>args s r. f args s = Some r \<Longrightarrow> \<not> dangling args"
  assume "(case args of
        [] \<Rightarrow> Some s
      | a # rest \<Rightarrow>
          if a = ''--config'' then
            (case rest of [] \<Rightarrow> f args s | v # rest' \<Rightarrow> f rest' (s\<lparr> xs_config := v \<rparr>))
          else if a = ''--request-file'' then
            (case rest of [] \<Rightarrow> f args s | v # rest' \<Rightarrow> f rest' (s\<lparr> xs_request_file := Some v \<rparr>))
          else if a = ''--header'' then
            (case rest of [] \<Rightarrow> f args s | v # rest' \<Rightarrow> f rest' (add_header_arg v s))
          else if a = ''--json'' then f rest (s\<lparr> xs_json := True \<rparr>)
          else if a = ''--verbose'' then f rest (s\<lparr> xs_verbose := True \<rparr>)
          else if is_flag a then f rest s
          else f rest (s\<lparr> xs_positionals := xs_positionals s @ [a] \<rparr>)) = Some r"
  then have "(case args of [] \<Rightarrow> Some s
      | a # rest \<Rightarrow> if takes_value a
          then (case rest of [] \<Rightarrow> f args s | v # rest' \<Rightarrow> f rest' (set_value a v s))
          else f rest (set_single a s)) = Some r"
    unfolding explain_body .
  then show "\<not> dangling args"
    using IH [of args s] IH [of "tl args" "set_single (hd args) s"]
      IH [of "tl (tl args)" "set_value (hd args) (hd (tl args)) s"]
    by (cases args; cases "takes_value (hd args)"; cases "tl args") (auto simp: dangling_simps)
qed

text \<open>C29. Parsing returns for every command line except those of \<^verbatim>\<open>route-explain\<close>
  that end in \<^verbatim>\<open>--config\<close>, \<^verbatim>\<open>--request-file\<close> or
  \<^verbatim>\<open>--header\<close> in flag position without a value: on these the program loops forever.\<close>

theorem parse_command_returns_iff:
  "(\<exists>c. parse_command args = Some c) \<longleftrightarrow>
     \<not> (\<exists>rest. args = ''route-explain'' # rest \<and> dangling rest)"
proof (cases args)
  case Nil
  then show ?thesis by (simp add: parse_command_def)
next
  case (Cons sub rest)
  have "(\<exists>r. explain_args rest explain_start = Some r) \<longleftrightarrow> \<not> dangling rest"
    using explain_args_total explain_args_stuck by blast
  with Cons show ?thesis
    by (auto simp: parse_command_def)
qed

section \<open>Every command can be written down\<close>

definition flag :: "string \<Rightarrow> bool \<Rightarrow> string list" where
  "flag f b = (if b then [f] else [])"

definition valued :: "string \<Rightarrow> string option \<Rightarrow> string list" where
  "valued f v = (case v of None \<Rightarrow> [] | Some s \<Rightarrow> [f, s])"

fun command_line :: "command \<Rightarrow> string list" where
  "command_line (Run c lo) = [''run'', c] @ valued ''--local-override'' lo"
| "command_line (Init t d) = [''init'', ''--template'', t, ''--output'', d]"
| "command_line (CheckConfig c j s) = [''check-config'', c] @ flag ''--json'' j @ flag ''--strict'' s"
| "command_line (Doctor c p j) = [''doctor'', ''--config'', c] @ flag ''--probe-upstream'' p @ flag ''--json'' j"
| "command_line (RouteExplain c p m hs f j v) =
     [''route-explain'', p, m, ''--config'', c] @ concat (map (\<lambda>(k, w). [''--header'', k @ '':'' @ w]) hs)
     @ valued ''--request-file'' f @ flag ''--json'' j @ flag ''--verbose'' v"
| "command_line (ConfigDiff l r j m) = [''config-diff'', l, r] @ flag ''--json'' j @ flag ''--markdown'' m"
| "command_line (ConfigSnapshot c out) = [''config-snapshot'', ''--config'', c] @ valued ''--output'' out"
| "command_line (SmokeProxy c p m s) =
     [''smoke-proxy'', ''--config'', c, ''--request'', p, ''--method'', m, ''--expect-status'', show_nat (unat s)]"
| "command_line (Replay c f) = [''replay'', ''--file'', f, ''--config'', c]"
| "command_line (ConfigDrift b ps j) =
     [''config-drift'', ''--base'', b] @ concat (map (\<lambda>p. [''--profile'', p]) ps) @ flag ''--json'' j"
| "command_line Help = [''help'']"

fun expressible :: "command \<Rightarrow> bool" where
  "expressible (Run c lo) = (\<not> is_flag c)"
| "expressible (CheckConfig c j s) = (c \<noteq> ''--json'' \<and> c \<noteq> ''--strict'')"
| "expressible (RouteExplain c p m hs f j v) =
     (\<not> is_flag p \<and> \<not> is_flag m \<and> (\<forall>(k, w)\<in>set hs. CHR '':'' \<notin> set k \<and> trim k = k \<and> trim w = w))"
| "expressible (ConfigDiff l r j m) = (\<not> is_flag l \<and> \<not> is_flag r)"
| "expressible (SmokeProxy c p m s) = (to_uppercase m = m)"
| "expressible (ConfigDrift b ps j) = (ps \<noteq> [])"
| "expressible _ = True"

lemma is_flag_literals [simp]:
  "is_flag ''--config''" "is_flag ''--request-file''" "is_flag ''--header''" "is_flag ''--json''"
  "is_flag ''--verbose''" "is_flag ''--local-override''" "is_flag ''--markdown''"
  by (simp_all add: is_flag_def starts_with_def)

lemma explain_positional:
  assumes "\<not> is_flag a"
  shows "explain_args (a # rest) s = explain_args rest (s\<lparr> xs_positionals := xs_positionals s @ [a] \<rparr>)"
proof -
  have "\<not> takes_value a" "set_single a s = s\<lparr> xs_positionals := xs_positionals s @ [a] \<rparr>"
    using assms by (auto simp: takes_value_def set_single_def)
  then show ?thesis by (simp add: explain_args_single)
qed

lemma explain_values:
  "explain_args (''--config'' # v # rest) s = explain_args rest (s\<lparr> xs_config := v \<rparr>)"
  "explain_args (''--request-file'' # v # rest) s = explain_args rest (s\<lparr> xs_request_file := Some v \<rparr>)"
  "explain_args (''--header'' # v # rest) s = explain_args rest (add_header_arg v s)"
  "explain_args (''--json'' # rest) s = explain_args rest (s\<lparr> xs_json := True \<rparr>)"
  "explain_args (''--verbose'' # rest) s = explain_args rest (s\<lparr> xs_verbose := True \<rparr>)"
  by (simp_all add: explain_args_single explain_args_value takes_value_def set_value_def set_single_def)

lemma explain_headers:
  assumes "\<forall>(k, w)\<in>set hs. CHR '':'' \<notin> set k \<and> trim k = k \<and> trim w = w"
  shows "explain_args (concat (map (\<lambda>(k, w). [''--header'', k @ '':'' @ w]) hs) @ rest) s =
    explain_args rest (s\<lparr> xs_headers := xs_headers s @ hs \<rparr>)"
  using assms
proof (induction hs arbitrary: s)
  case Nil
  then show ?case by simp
next
  case (Cons h hs)
  obtain k w where h: "h = (k, w)" by force
  with Cons.prems have "split_once CHR '':'' (k @ CHR '':'' # w) = Some (k, w)" "trim k = k" "trim w = w"
    by (auto simp: split_once_append)
  then have "add_header_arg (k @ CHR '':'' # w) s = s\<lparr> xs_headers := xs_headers s @ [(k, w)] \<rparr>"
    by (simp add: add_header_arg_def)
  with Cons h show ?case by (simp add: explain_values)
qed

lemma drift_profiles:
  "drift_args (concat (map (\<lambda>p. [''--profile'', p]) ps) @ rest) (Some b) qs j = drift_args rest (Some b) (qs @ ps) j"
  by (induction ps arbitrary: qs) simp_all

lemma parse_status_show [simp]: "parse_status (show_nat (unat s)) = s"
proof -
  have "unat s < 2 ^ LENGTH(16)"
    by (rule unsigned_less)
  then have "parse_unsigned 16 (show_nat (unat s)) = Some (unat s)"
    by (intro parse_unsigned_show_nat) simp
  then show ?thesis by (simp add: parse_status_def)
qed

text \<open>C28. The parser understands every command: for each one (whose positional arguments do
  not look like flags, and whose headers are trimmed and have no colon in their names) there
  is a command line that is parsed to exactly that command, with all its options.\<close>

theorem command_line_roundtrip:
  assumes "expressible c"
  shows "parse_command (command_line c) = Some c"
proof (cases c)
  case (RouteExplain cfg p m hs f j v)
  with assms have ok: "\<not> is_flag p" "\<not> is_flag m"
      "\<forall>(k, w)\<in>set hs. CHR '':'' \<notin> set k \<and> trim k = k \<and> trim w = w" by auto
  have tail: "explain_args (valued ''--request-file'' f @ flag ''--json'' j @ flag ''--verbose'' v) s =
      Some (s\<lparr> xs_request_file := (case f of None \<Rightarrow> xs_request_file s | Some x \<Rightarrow> Some x),
        xs_json := xs_json s \<or> j, xs_verbose := xs_verbose s \<or> v \<rparr>)" for s
    by (simp add: valued_def flag_def explain_values split: option.split)
  show ?thesis
    using ok
    by (simp add: RouteExplain parse_command_def explain_positional explain_values
        explain_headers [simplified] tail explain_start_def explain_command_def nth_or_def split: option.split)
next
  case (ConfigDrift b ps j)
  with assms show ?thesis
    by (simp add: parse_command_def drift_profiles flag_def)
qed (use assms in \<open>auto simp: parse_command_def valued_def flag_def is_flag_def starts_with_def split: option.split\<close>)

theorem command_line_roundtrip_witness:
  "parse_command [''route-explain'', ''/api'', ''GET'', ''--config'', ''c.yaml'', ''--header'', ''env:prod'', ''--json'']
     = Some (RouteExplain ''c.yaml'' ''/api'' ''GET'' [(''env'', ''prod'')] None True False)"
  using command_line_roundtrip [of "RouteExplain ''c.yaml'' ''/api'' ''GET'' [(''env'', ''prod'')] None True False"]
  by (simp add: is_flag_def starts_with_def trim_def is_space_def Let_def valued_def flag_def)

end
