(* ===== verification/Breaker.thy ===== *)
theory Breaker
  imports Interfaces
begin

text \<open>
  \<^verbatim>\<open>server/circuit_breaker.rs\<close>.  The concurrent map of per-upstream states is a
  partial function from the upstream to its two atomics; every operation returns the map
  after it.  The clock reading is an argument.  The contract \<open>breaker\<close> is what the
  proxy's retry loop relies on; \<open>abs_state\<close> is the Closed/Open/Half-Open machine of the
  documentation, which the code implements up to one difference: the half-open state
  admits any number of requests.
\<close>

section \<open>State and operations\<close>

record break_state =
  consecutive_failures :: u32
  open_since_epoch_secs :: u64

record circuit_breaker_map =
  cb_states :: "string \<rightharpoonup> break_state"
  cb_threshold :: u32
  cb_recovery_secs :: u64

definition circuit_breaker_new :: "u32 \<Rightarrow> u64 \<Rightarrow> circuit_breaker_map" where
  "circuit_breaker_new threshold recovery_secs =
     \<lparr> cb_states = Map.empty, cb_threshold = threshold, cb_recovery_secs = recovery_secs \<rparr>"

definition is_disabled :: "circuit_breaker_map \<Rightarrow> bool" where
  "is_disabled cb = (cb_threshold cb = 0)"

definition fresh_break_state :: break_state where
  "fresh_break_state = \<lparr> consecutive_failures = 0, open_since_epoch_secs = 0 \<rparr>"

text \<open>\<^verbatim>\<open>states.entry(u).or_insert_with(..)\<close>\<close>

definition break_entry :: "circuit_breaker_map \<Rightarrow> string \<Rightarrow> break_state" where
  "break_entry cb u = (case cb_states cb u of None \<Rightarrow> fresh_break_state | Some s \<Rightarrow> s)"

definition put_entry :: "circuit_breaker_map \<Rightarrow> string \<Rightarrow> break_state \<Rightarrow> circuit_breaker_map" where
  "put_entry cb u s = cb\<lparr> cb_states := (cb_states cb)(u \<mapsto> s) \<rparr>"

definition saturating_sub :: "u64 \<Rightarrow> u64 \<Rightarrow> u64" where
  "saturating_sub a b = (if b \<le> a then a - b else 0)"

definition allow :: "u64 \<Rightarrow> circuit_breaker_map \<Rightarrow> string \<Rightarrow> bool \<times> circuit_breaker_map" where
  "allow now_secs cb u =
     (if cb_threshold cb = 0 then (True, cb)
      else let e = break_entry cb u; cb' = put_entry cb u e
           in if consecutive_failures e < cb_threshold cb then (True, cb')
              else (cb_recovery_secs cb \<le> saturating_sub now_secs (open_since_epoch_secs e), cb'))"

definition record_success :: "circuit_breaker_map \<Rightarrow> string \<Rightarrow> circuit_breaker_map" where
  "record_success cb u =
     (if cb_threshold cb = 0 then cb
      else case cb_states cb u of
             None \<Rightarrow> cb
           | Some e \<Rightarrow> put_entry cb u (e\<lparr> consecutive_failures := 0, open_since_epoch_secs := 0 \<rparr>))"

text \<open>\<^verbatim>\<open>fetch_add\<close> wraps, and so does the \<^verbatim>\<open>prev + 1\<close> of a release build.\<close>

definition record_failure :: "u64 \<Rightarrow> circuit_breaker_map \<Rightarrow> string \<Rightarrow> circuit_breaker_map" where
  "record_failure now_secs cb u =
     (if cb_threshold cb = 0 then cb
      else let e = break_entry cb u; prev = consecutive_failures e;
               e' = e\<lparr> consecutive_failures := prev + 1 \<rparr>
           in put_entry cb u (if cb_threshold cb \<le> prev + 1
                              then e'\<lparr> open_since_epoch_secs := now_secs \<rparr> else e'))"

lemmas breaker_defs = allow_def record_success_def record_failure_def put_entry_def
  break_entry_def fresh_break_state_def Let_def

section \<open>The contract of the retry loop\<close>

text \<open>\<open>fails b u\<close> counts consecutive failures, \<open>since b u\<close> is the time of the last one
  that reached the threshold.\<close>

locale breaker =
  fixes admits :: "u64 \<Rightarrow> 'b \<Rightarrow> string \<Rightarrow> bool"
    and succeed :: "'b \<Rightarrow> string \<Rightarrow> 'b"
    and fail :: "u64 \<Rightarrow> 'b \<Rightarrow> string \<Rightarrow> 'b"
    and fails :: "'b \<Rightarrow> string \<Rightarrow> u32"
    and limit :: "'b \<Rightarrow> u32"
  assumes succeed_fails: "limit b \<noteq> 0 \<Longrightarrow> fails (succeed b u) v = (if v = u then 0 else fails b v)"
    and fail_fails: "limit b \<noteq> 0 \<Longrightarrow> fails (fail t b u) v = (if v = u then fails b v + 1 else fails b v)"
    and limit_succeed: "limit (succeed b u) = limit b"
    and limit_fail: "limit (fail t b u) = limit b"
    and below_limit_admits: "limit b \<noteq> 0 \<Longrightarrow> fails b u < limit b \<Longrightarrow> admits t b u"
    and disabled_admits: "limit b = 0 \<Longrightarrow> admits t b u"
begin

lemmas breaker_laws = succeed_fails fail_fails limit_succeed limit_fail

lemma admits_after_success: "admits t (succeed b u) u"
  by (cases "limit b = 0")
     (auto simp: breaker_laws disabled_admits intro!: below_limit_admits word_gt_0 [THEN iffD2])

text \<open>A run of failures of one upstream at the times \<open>ts\<close>.\<close>

lemma limit_fold_fail: "limit (fold (\<lambda>t b. fail t b u) ts b) = limit b"
  by (induction ts arbitrary: b) (auto simp: limit_fail)

lemma fails_fold_fail:
  "limit b \<noteq> 0 \<Longrightarrow> fails (fold (\<lambda>t b. fail t b u) ts b) v =
     (if v = u then fails b u + of_nat (length ts) else fails b v)"
  by (induction ts arbitrary: b) (auto simp: breaker_laws)

lemma admits_before_limit:
  assumes "unat (fails b u) + length ts < unat (limit b)"
  shows "admits t (fold (\<lambda>t b. fail t b u) ts b) u"
proof (rule below_limit_admits)
  have l: "limit b \<noteq> 0"
    using assms by auto
  then show "limit (fold (\<lambda>t b. fail t b u) ts b) \<noteq> 0"
    by (simp add: limit_fold_fail)
  have "unat (fails b u) + length ts < 2 ^ 32"
  proof -
    have "unat (limit b) < 2 ^ 32"
      using unsigned_less [of "limit b"] by simp
    with assms show ?thesis by linarith
  qed
  then have "unat (fails b u + of_nat (length ts)) = unat (fails b u) + length ts"
    by (simp add: unat_word_ariths unat_of_nat take_bit_eq_mod)
  with assms l show "fails (fold (\<lambda>t b. fail t b u) ts b) u < limit (fold (\<lambda>t b. fail t b u) ts b)"
    by (simp add: fails_fold_fail limit_fold_fail word_less_nat_alt)
qed

end

definition failures_of :: "circuit_breaker_map \<Rightarrow> string \<Rightarrow> u32" where
  "failures_of cb u = consecutive_failures (break_entry cb u)"

definition opened_of :: "circuit_breaker_map \<Rightarrow> string \<Rightarrow> u64" where
  "opened_of cb u = open_since_epoch_secs (break_entry cb u)"

lemma fst_allow:
  "fst (allow t cb u) \<longleftrightarrow> cb_threshold cb = 0 \<or> failures_of cb u < cb_threshold cb
     \<or> cb_recovery_secs cb \<le> saturating_sub t (opened_of cb u)"
  by (simp add: allow_def Let_def failures_of_def opened_of_def)

interpretation cb: breaker "\<lambda>t b u. fst (allow t b u)" record_success record_failure failures_of cb_threshold
  by unfold_locales (auto simp: breaker_defs failures_of_def split: option.splits)

section \<open>The answer of the breaker after any history\<close>

text \<open>Events of all upstreams, interleaved: questions, successes, failures with the clock.\<close>

datatype cb_event = Asked u64 string | Succeeded string | Failed u64 string

fun cb_event_step :: "cb_event \<Rightarrow> circuit_breaker_map \<Rightarrow> circuit_breaker_map" where
  "cb_event_step (Asked t u) cb = snd (allow t cb u)"
| "cb_event_step (Succeeded u) cb = record_success cb u"
| "cb_event_step (Failed t u) cb = record_failure t cb u"

text \<open>Reference: the times of the failures of \<open>u\<close> since its last success.\<close>

fun failure_step :: "string \<Rightarrow> cb_event \<Rightarrow> u64 list \<Rightarrow> u64 list" where
  "failure_step u (Asked t v) ts = ts"
| "failure_step u (Succeeded v) ts = (if v = u then [] else ts)"
| "failure_step u (Failed t v) ts = (if v = u then ts @ [t] else ts)"

definition failures_since_success :: "string \<Rightarrow> cb_event list \<Rightarrow> u64 list" where
  "failures_since_success u evs = fold (failure_step u) evs []"

lemma cb_threshold_step [simp]: "cb_threshold (cb_event_step e cb) = cb_threshold cb"
  by (cases e) (auto simp: breaker_defs split: option.splits)

lemma cb_recovery_step [simp]: "cb_recovery_secs (cb_event_step e cb) = cb_recovery_secs cb"
  by (cases e) (auto simp: breaker_defs split: option.splits)

lemma cb_params_run [simp]:
  "cb_threshold (fold cb_event_step evs cb) = cb_threshold cb"
  "cb_recovery_secs (fold cb_event_step evs cb) = cb_recovery_secs cb"
  by (induction evs arbitrary: cb) auto

lemma failures_of_step:
  assumes "cb_threshold cb \<noteq> 0" and "failures_of cb u = of_nat (length ts)"
  shows "failures_of (cb_event_step e cb) u = of_nat (length (failure_step u e ts))"
  using assms by (cases e) (auto simp: breaker_defs failures_of_def split: option.splits)

lemma opened_of_step:
  assumes "cb_threshold cb \<noteq> 0" and "failures_of cb u = of_nat (length ts)"
    and "unat (cb_threshold cb) \<le> length ts \<longrightarrow> opened_of cb u = last ts"
    and "length (failure_step u e ts) < 2 ^ 32"
    and "unat (cb_threshold cb) \<le> length (failure_step u e ts)"
  shows "opened_of (cb_event_step e cb) u = last (failure_step u e ts)"
proof (cases e)
  case (Asked t v)
  with assms show ?thesis
    by (auto simp: breaker_defs opened_of_def failures_of_def split: option.splits)
next
  case (Succeeded v)
  with assms show ?thesis
    by (cases "v = u")
       (auto simp: breaker_defs opened_of_def failures_of_def unat_eq_0 split: option.splits)
next
  case (Failed t v)
  show ?thesis
  proof (cases "v = u")
    case False
    with Failed assms show ?thesis
      by (auto simp: breaker_defs opened_of_def failures_of_def split: option.splits)
  next
    case True
    have "unat (failures_of cb u + 1) = length ts + 1"
      using assms(2,4) True Failed
      by (simp add: unat_word_ariths unat_of_nat take_bit_eq_mod)
    with assms(5) True Failed have "cb_threshold cb \<le> failures_of cb u + 1"
      by (simp add: word_le_nat_alt)
    with True Failed assms(1) show ?thesis
      by (auto simp: breaker_defs opened_of_def failures_of_def split: option.splits)
  qed
qed

lemma length_failure_step: "length (failure_step u e ts) \<le> length ts + 1"
  by (cases e) auto

lemma failures_run:
  assumes "cb_threshold cb \<noteq> 0" "failures_of cb u = of_nat (length ts)"
    "unat (cb_threshold cb) \<le> length ts \<longrightarrow> opened_of cb u = last ts"
    "length ts + length evs < 2 ^ 32"
  shows "failures_of (fold cb_event_step evs cb) u = of_nat (length (fold (failure_step u) evs ts)) \<and>
    (unat (cb_threshold cb) \<le> length (fold (failure_step u) evs ts) \<longrightarrow>
       opened_of (fold cb_event_step evs cb) u = last (fold (failure_step u) evs ts)) \<and>
    length (fold (failure_step u) evs ts) < 2 ^ 32"
  using assms
proof (induction evs arbitrary: cb ts)
  case Nil
  then show ?case by simp
next
  case (Cons e evs)
  have len: "length (failure_step u e ts) + length evs < 2 ^ 32"
    using Cons.prems(4) length_failure_step [of u e ts] by simp
  then have "length (failure_step u e ts) < 2 ^ 32" by simp
  with Cons.IH [of "cb_event_step e cb" "failure_step u e ts"] Cons.prems len show ?case
    using failures_of_step [of cb u ts e] opened_of_step [of cb u ts e] by simp
qed

text \<open>The circuit breaker rejects exactly what its parameters say.  After any
  interleaved history of questions, successes and failures of all upstreams (shorter than
  \<open>2 ^ 32\<close> events), a request for \<open>u\<close> is rejected iff the breaker is enabled, at least
  \<open>threshold\<close> failures of \<open>u\<close> happened since its last success, and fewer than
  \<open>recovery_secs\<close> seconds have passed since the last of them.  Other upstreams have no
  influence.\<close>

theorem breaker_rejects_iff:
  assumes "length evs < 2 ^ 32"
  shows "\<not> fst (allow now (fold cb_event_step evs (circuit_breaker_new threshold recovery_secs)) u) \<longleftrightarrow>
     threshold \<noteq> 0 \<and> unat threshold \<le> length (failures_since_success u evs) \<and>
     saturating_sub now (last (failures_since_success u evs)) < recovery_secs"
proof (cases "threshold = 0")
  case True
  then show ?thesis by (simp add: allow_def circuit_breaker_new_def)
next
  case False
  let ?cb = "fold cb_event_step evs (circuit_breaker_new threshold recovery_secs)"
  let ?ts = "failures_since_success u evs"
  have run: "failures_of ?cb u = of_nat (length ?ts)"
      "unat threshold \<le> length ?ts \<Longrightarrow> opened_of ?cb u = last ?ts" "length ?ts < 2 ^ 32"
    using failures_run [of "circuit_breaker_new threshold recovery_secs" u "[]" evs] False assms
    by (auto simp: circuit_breaker_new_def failures_of_def break_entry_def fresh_break_state_def
        failures_since_success_def unat_eq_0)
  have "failures_of ?cb u < threshold \<longleftrightarrow> length ?ts < unat threshold"
    using run(1,3) by (simp add: word_less_nat_alt unat_of_nat take_bit_eq_mod)
  then show ?thesis
    using False run(2)
    by (auto simp: fst_allow circuit_breaker_new_def not_less not_le)
qed

theorem breaker_rejects_iff_witness:
  "\<not> fst (allow 105 (fold cb_event_step [Failed 100 ''a'', Asked 100 ''b'', Failed 101 ''a'']
       (circuit_breaker_new 2 30)) ''a'')"
  using breaker_rejects_iff [of "[Failed 100 ''a'', Asked 100 ''b'', Failed 101 ''a'']" 105 2 30 "''a''"]
  by (simp add: failures_since_success_def saturating_sub_def)

section \<open>The state machine of one upstream\<close>

datatype cb_mode = Closed nat | Open | HalfOpen

definition mode :: "u64 \<Rightarrow> circuit_breaker_map \<Rightarrow> string \<Rightarrow> cb_mode" where
  "mode now cb u =
     (if failures_of cb u < cb_threshold cb then Closed (unat (failures_of cb u))
      else if saturating_sub now (opened_of cb u) < cb_recovery_secs cb then Open else HalfOpen)"

text \<open>What a failure does; \<open>instant\<close> is a recovery time of zero.\<close>

fun mode_fail :: "nat \<Rightarrow> bool \<Rightarrow> cb_mode \<Rightarrow> cb_mode" where
  "mode_fail threshold instant (Closed k) =
     (if k + 1 < threshold then Closed (k + 1) else if instant then HalfOpen else Open)"
| "mode_fail threshold instant Open = (if instant then HalfOpen else Open)"
| "mode_fail threshold instant HalfOpen = (if instant then HalfOpen else Open)"

lemma mode_failure:
  assumes "cb_threshold cb \<noteq> 0"
  shows "mode now (record_failure now cb u) u =
    (if failures_of cb u = -1 then Closed 0
     else mode_fail (unat (cb_threshold cb)) (cb_recovery_secs cb = 0) (mode now cb u))"
proof -
  have pos: "0 < cb_threshold cb"
    using assms by (simp add: word_neq_0_conv)
  let ?f = "failures_of cb u" and ?cb = "record_failure now cb u"
  have f: "failures_of ?cb u = ?f + 1" and thr: "cb_threshold ?cb = cb_threshold cb"
    using assms cb.fail_fails [of cb now u u] cb.limit_fail [of now cb u] by simp_all
  have rec: "cb_recovery_secs ?cb = cb_recovery_secs cb"
    by (auto simp: breaker_defs split: option.splits)
  have opened: "opened_of ?cb u = now" if "cb_threshold cb \<le> ?f + 1"
    using that assms by (auto simp: breaker_defs opened_of_def failures_of_def split: option.splits)
  have tripped: "mode now ?cb u = (if cb_recovery_secs cb = 0 then HalfOpen else Open)"
    if "cb_threshold cb \<le> ?f + 1"
    using that opened [OF that]
    by (auto simp: mode_def f thr rec saturating_sub_def not_less word_gt_0)
  show ?thesis
  proof (cases "?f = -1")
    case True
    with f pos thr show ?thesis by (simp add: mode_def)
  next
    case False
    then have Suc: "unat (?f + 1) = unat ?f + 1"
      by (simp add: unat_eq_zero unatSuc add.commute) (metis Suc_eq_plus1 add.commute add_eq_0_iff unatSuc)
    have le: "cb_threshold cb \<le> ?f + 1 \<longleftrightarrow> unat (cb_threshold cb) \<le> unat ?f + 1"
      and lt: "?f < cb_threshold cb \<longleftrightarrow> unat ?f < unat (cb_threshold cb)"
      by (simp_all add: word_le_nat_alt word_less_nat_alt Suc)
    show ?thesis
    proof (cases "cb_threshold cb \<le> ?f + 1")
      case True
      with False le lt tripped show ?thesis
        by (auto simp: mode_def not_less)
    next
      case notyet: False
      then have "?f < cb_threshold cb" "?f + 1 < cb_threshold cb"
        using le lt by (simp_all add: not_le)
      with False notyet le show ?thesis
        by (simp add: mode_def f thr Suc)
    qed
  qed
qed

text \<open>C22. The counters of an upstream are a machine of three modes: requests are rejected in Open
  only, so that Half-Open lets every request through (the documentation promises a single
  probe there); asking changes no mode; a success closes the breaker from every mode; a failure
  counts up, trips at the threshold and re-opens from Half-Open; and nothing an upstream
  does changes the mode of another.  When the 32-bit failure counter is at its maximum, a
  failure wraps it and closes the breaker.\<close>

theorem breaker_refines_modes:
  assumes "cb_threshold cb \<noteq> 0"
  shows "(fst (allow now cb u) \<longleftrightarrow> mode now cb u \<noteq> Open)
    \<and> mode now (snd (allow t cb v)) u = mode now cb u
    \<and> mode now (record_success cb u) u = Closed 0
    \<and> mode now (record_failure now cb u) u =
        (if failures_of cb u = -1 then Closed 0
         else mode_fail (unat (cb_threshold cb)) (cb_recovery_secs cb = 0) (mode now cb u))
    \<and> (v \<noteq> u \<longrightarrow> mode now (record_success cb v) u = mode now cb u
               \<and> mode now (record_failure t cb v) u = mode now cb u)"
proof (intro conjI impI)
  have pos: "0 < cb_threshold cb"
    using assms by (simp add: word_neq_0_conv)
  show "fst (allow now cb u) \<longleftrightarrow> mode now cb u \<noteq> Open"
    using assms by (auto simp: fst_allow mode_def not_less not_le)
  show "mode now (snd (allow t cb v)) u = mode now cb u"
    by (auto simp: mode_def breaker_defs failures_of_def opened_of_def split: option.splits)
  show "mode now (record_success cb u) u = Closed 0"
    using assms pos cb.succeed_fails [of cb u u] cb.limit_succeed [of cb u] by (simp add: mode_def)
  show "mode now (record_failure now cb u) u =
        (if failures_of cb u = -1 then Closed 0
         else mode_fail (unat (cb_threshold cb)) (cb_recovery_secs cb = 0) (mode now cb u))"
    by (rule mode_failure [OF assms])
  assume "v \<noteq> u"
  then show "mode now (record_success cb v) u = mode now cb u"
    "mode now (record_failure t cb v) u = mode now cb u"
    by (auto simp: mode_def breaker_defs failures_of_def opened_of_def split: option.splits)
qed

theorem breaker_refines_modes_witness:
  "mode 7 (record_failure 7 (circuit_breaker_new 1 30) ''a'') ''a'' = Open"
  using breaker_refines_modes [of "circuit_breaker_new 1 30" 7 "''a''" 0 "''b''"]
  by (simp add: circuit_breaker_new_def mode_def failures_of_def break_entry_def fresh_break_state_def)

text \<open>Consecutive questions, each on the state the one before left.\<close>

fun ask_all :: "u64 list \<Rightarrow> circuit_breaker_map \<Rightarrow> string \<Rightarrow> bool list" where
  "ask_all [] cb u = []"
| "ask_all (t # ts) cb u = fst (allow t cb u) # ask_all ts (snd (allow t cb u)) u"

lemma saturating_sub_mono: "a \<le> b \<Longrightarrow> saturating_sub a c \<le> saturating_sub b c"
  by (auto simp: saturating_sub_def word_le_nat_alt unat_sub_if_size word_size)

text \<open>Half-open is not exclusive: the documentation promises one probe request after the
  recovery time, but a question changes nothing, so once one request is admitted every
  later request is, however many come before the outcome of the first is known.\<close>

theorem half_open_admits_every_request:
  assumes "fst (allow now cb u)" and "\<forall>t\<in>set ts. now \<le> t"
  shows "ask_all ts cb u = replicate (length ts) True"
  using assms
proof (induction ts arbitrary: cb)
  case Nil
  then show ?case by simp
next
  case (Cons t ts)
  have keep: "failures_of (snd (allow t cb u)) u = failures_of cb u"
    "opened_of (snd (allow t cb u)) u = opened_of cb u"
    "cb_threshold (snd (allow t cb u)) = cb_threshold cb"
    "cb_recovery_secs (snd (allow t cb u)) = cb_recovery_secs cb"
    by (auto simp: breaker_defs failures_of_def opened_of_def split: option.splits)
  have same: "fst (allow s (snd (allow t cb u)) u) = fst (allow s cb u)" for s
    by (simp add: fst_allow keep)
  have "fst (allow t cb u)"
    using Cons.prems saturating_sub_mono [of now t "opened_of cb u"]
    by (auto simp: fst_allow intro: order_trans)
  with Cons same show ?case by simp
qed

theorem half_open_admits_every_request_witness:
  "ask_all [140, 140, 140] (record_failure 100 (circuit_breaker_new 1 30) ''a'') ''a'' = [True, True, True]"
  using half_open_admits_every_request [of 130 "record_failure 100 (circuit_breaker_new 1 30) ''a''" "''a''" "[140, 140, 140]"]
  by (simp add: breaker_defs circuit_breaker_new_def saturating_sub_def numeral_3_eq_3)

end
