(* ===== verification/Metrics.thy ===== *)
theory Metrics
  imports Model
begin

text \<open>
  \<^verbatim>\<open>server/metrics.rs\<close>: the two counter maps, their snapshot, the stable failure codes
  and the Prometheus exposition.  The lemmas: every record call counts once and nothing
  else moves, and the escaping of label values can be undone, so two route ids never
  collide in the exposition.
\<close>

section \<open>Counters\<close>

record proxy_metrics =
  route_hits :: "string \<rightharpoonup> u64"
  failure_reasons :: "string \<rightharpoonup> u64"

definition default_metrics :: proxy_metrics where
  "default_metrics = \<lparr> route_hits = Map.empty, failure_reasons = Map.empty \<rparr>"

text \<open>\<^verbatim>\<open>entry(k).and_modify(|c| *c += 1).or_insert(1)\<close>\<close>

definition count_up :: "string \<Rightarrow> (string \<rightharpoonup> u64) \<Rightarrow> (string \<rightharpoonup> u64)" where
  "count_up k m = m(k \<mapsto> (case m k of Some c \<Rightarrow> c + 1 | None \<Rightarrow> 1))"

definition counter_value :: "(string \<rightharpoonup> u64) \<Rightarrow> string \<Rightarrow> u64" where
  "counter_value m k = (case m k of Some c \<Rightarrow> c | None \<Rightarrow> 0)"

definition record_route_hit :: "string \<Rightarrow> proxy_metrics \<Rightarrow> proxy_metrics" where
  "record_route_hit rid m = m\<lparr> route_hits := count_up rid (route_hits m) \<rparr>"

definition record_failure_reason :: "string \<Rightarrow> proxy_metrics \<Rightarrow> proxy_metrics" where
  "record_failure_reason code m = m\<lparr> failure_reasons := count_up code (failure_reasons m) \<rparr>"

interpretation counters: counter_store counter_value count_up
  by unfold_locales (auto simp: counter_value_def count_up_def split: option.split)

definition hits_of :: "proxy_metrics \<Rightarrow> string \<Rightarrow> u64" where
  "hits_of m k = counter_value (route_hits m) k"

definition failures_with :: "proxy_metrics \<Rightarrow> string \<Rightarrow> u64" where
  "failures_with m k = counter_value (failure_reasons m) k"

interpretation hits: counter_store hits_of record_route_hit
  by unfold_locales (simp add: hits_of_def record_route_hit_def counters.count_bump)

interpretation reasons: counter_store failures_with record_failure_reason
  by unfold_locales (simp add: failures_with_def record_failure_reason_def counters.count_bump)

section \<open>Failure codes\<close>

fun failure_code_for_registry :: "registry_error \<Rightarrow> string" where
  "failure_code_for_registry (RegHttp _) = ''registry_http''"
| "failure_code_for_registry (UnexpectedResponse _) = ''registry_unexpected''"
| "failure_code_for_registry (ServiceNotFound _) = ''registry_not_found''"
| "failure_code_for_registry AuthFailed = ''registry_auth_failed''"
| "failure_code_for_registry (AllFailed _) = ''registry_all_failed''"

fun failure_code_for_proxy :: "proxy_error \<Rightarrow> string" where
  "failure_code_for_proxy (NoInstances _) = ''no_instances''"
| "failure_code_for_proxy (Registry e) = failure_code_for_registry e"
| "failure_code_for_proxy (UpstreamConnection _) = ''upstream_connection''"
| "failure_code_for_proxy (WsUpgrade _) = ''ws_upgrade''"
| "failure_code_for_proxy (BodyRead _) = ''body_read''"
| "failure_code_for_proxy (PluginError _) = ''plugin_error''"

section \<open>Snapshot and exposition\<close>

record metrics_snapshot =
  ms_route_hits :: "(string, u64) hashmap"
  ms_failure_reasons :: "(string, u64) hashmap"

text \<open>The concurrent maps are iterated in some order; \<open>ks\<close> and \<open>fs\<close> list their keys in it.\<close>

definition snapshot_map :: "string list \<Rightarrow> (string \<rightharpoonup> u64) \<Rightarrow> (string, u64) hashmap" where
  "snapshot_map ks m = concat (map (\<lambda>k. case m k of None \<Rightarrow> [] | Some c \<Rightarrow> [(k, c)]) ks)"

definition snapshot :: "string list \<Rightarrow> string list \<Rightarrow> proxy_metrics \<Rightarrow> metrics_snapshot" where
  "snapshot ks fs m = \<lparr> ms_route_hits = snapshot_map ks (route_hits m),
                       ms_failure_reasons = snapshot_map fs (failure_reasons m) \<rparr>"

definition escape_label_value :: "string \<Rightarrow> string" where
  "escape_label_value input =
     str_replace (str_replace (str_replace input [CHR 0x5C] [CHR 0x5C, CHR 0x5C])
       [CHR 0x22] [CHR 0x5C, CHR 0x22]) [CHR 0x0A] [CHR 0x5C, CHR ''n'']"

text \<open>\<^verbatim>\<open>sort()\<close> on strings is bytewise lexicographic.\<close>

fun str_le :: "string \<Rightarrow> string \<Rightarrow> bool" where
  "str_le [] _ = True"
| "str_le (_ # _) [] = False"
| "str_le (a # s) (b # t) =
     (let m = (of_char a :: nat); n = of_char b in if m = n then str_le s t else m < n)"

fun insert_str :: "string \<Rightarrow> string list \<Rightarrow> string list" where
  "insert_str s [] = [s]"
| "insert_str s (t # ts) = (if str_le s t then s # t # ts else t # insert_str s ts)"

definition sort_strings :: "string list \<Rightarrow> string list" where
  "sort_strings ss = foldr insert_str ss []"

definition render_family :: "string \<Rightarrow> string \<Rightarrow> string \<Rightarrow> (string, u64) hashmap \<Rightarrow> string" where
  "render_family name help label m =
     ''# HELP '' @ name @ '' '' @ help @ [CHR 0x0A] @ ''# TYPE '' @ name @ '' counter'' @ [CHR 0x0A] @
     concat (map (\<lambda>k. case map_of m k of None \<Rightarrow> []
        | Some v \<Rightarrow> name @ ''{'' @ label @ ''='' @ [CHR 0x22] @ escape_label_value k @ [CHR 0x22] @ ''} ''
                    @ show_nat (unat v) @ [CHR 0x0A])
       (sort_strings (map fst m)))"

definition render_prometheus :: "metrics_snapshot \<Rightarrow> string" where
  "render_prometheus s =
     render_family ''service_router_route_hits_total'' ''Total matched requests by route id.''
       ''route_id'' (ms_route_hits s)
     @ render_family ''service_router_failures_total'' ''Total proxy failures by reason code.''
       ''reason'' (ms_failure_reasons s)"

subsection \<open>Escaping\<close>

fun escape_char :: "char \<Rightarrow> string" where
  "escape_char c = (if c = CHR 0x5C then [CHR 0x5C, CHR 0x5C]
     else if c = CHR 0x22 then [CHR 0x5C, CHR 0x22]
     else if c = CHR 0x0A then [CHR 0x5C, CHR ''n''] else [c])"

lemma find_sub_single: "find_sub [p] s = split_once p s"
  by (induction s) (auto simp: starts_with_def)

lemma concat_map_absent: "p \<notin> set a \<Longrightarrow> concat (map (\<lambda>c. if c = p then t else [c]) a) = a"
  by (induction a) auto

lemma str_replace_single: "str_replace s [p] t = concat (map (\<lambda>c. if c = p then t else [c]) s)"
proof -
  have "str_replace_ne [p] t s = concat (map (\<lambda>c. if c = p then t else [c]) s)"
  proof (induction "length s" arbitrary: s rule: less_induct)
    case less
    show ?case
    proof (cases "split_once p s")
      case None
      then have "p \<notin> set s"
        by (metis option.distinct(1) split_list_first split_once_append)
      with None show ?thesis
        by (subst str_replace_ne.simps) (simp add: find_sub_single concat_map_absent)
    next
      case (Some ab)
      obtain a b where ab: "ab = (a, b)" by force
      with Some have s: "s = a @ p # b" "p \<notin> set a"
        by (auto dest: split_once_Some)
      with less [of b] Some ab show ?thesis
        by (subst str_replace_ne.simps) (simp add: find_sub_single concat_map_absent)
    qed
  qed
  then show ?thesis by (simp add: str_replace_def)
qed

lemma escape_label_value_chars: "escape_label_value s = concat (map escape_char s)"
  by (induction s) (simp_all add: escape_label_value_def str_replace_single)

fun unescape :: "string \<Rightarrow> string" where
  "unescape (c # d # s) = (if c = CHR 0x5C then (if d = CHR ''n'' then CHR 0x0A else d) # unescape s
                           else c # unescape (d # s))"
| "unescape s = s"

lemma unescape_Cons: "c \<noteq> CHR 0x5C \<Longrightarrow> unescape (c # s) = c # unescape s"
  by (cases s) auto

text \<open>Label escaping loses nothing: reading an escaped label value back gives the route
  id, so distinct ids give distinct label values, and the escaped text contains no line
  break.\<close>

theorem escape_label_value_roundtrip:
  "unescape (escape_label_value s) = s
   \<and> CHR 0x0A \<notin> set (escape_label_value s)
   \<and> (escape_label_value s = escape_label_value s' \<longrightarrow> s = s')"
proof -
  have undo: "unescape (escape_label_value s) = s" for s
    by (induction s) (auto simp: escape_label_value_chars unescape_Cons)
  moreover have "CHR 0x0A \<notin> set (escape_label_value s)"
    by (induction s) (auto simp: escape_label_value_chars)
  ultimately show ?thesis by metis
qed

subsection \<open>Counting\<close>

datatype metric_event = Hit string | Failure string

fun metric_step :: "metric_event \<Rightarrow> proxy_metrics \<Rightarrow> proxy_metrics" where
  "metric_step (Hit r) m = record_route_hit r m"
| "metric_step (Failure c) m = record_failure_reason c m"

lemma hits_of_failure [simp]: "hits_of (record_failure_reason c m) k = hits_of m k"
  by (simp add: hits_of_def record_failure_reason_def)

lemma failures_with_hit [simp]: "failures_with (record_route_hit c m) k = failures_with m k"
  by (simp add: failures_with_def record_route_hit_def)

text \<open>The metrics are the history: after any sequence of events a route's counter is the
  number of its hits and a reason's counter the number of its failures (modulo \<open>2 ^ 64\<close>),
  and the snapshot taken in any iteration order lists exactly these values.\<close>

theorem metrics_count_events:
  assumes "m = fold metric_step evs default_metrics"
    and "distinct ks" and "set ks = dom (route_hits m)"
    and "distinct fs" and "set fs = dom (failure_reasons m)"
  shows "hits_of m r = of_nat (count_list evs (Hit r))
    \<and> failures_with m c = of_nat (count_list evs (Failure c))
    \<and> map_of (ms_route_hits (snapshot ks fs m)) = route_hits m
    \<and> map_of (ms_failure_reasons (snapshot ks fs m)) = failure_reasons m
    \<and> hashmap_ok (ms_route_hits (snapshot ks fs m)) \<and> hashmap_ok (ms_failure_reasons (snapshot ks fs m))"
proof -
  have cnt: "hits_of (fold metric_step evs m0) r = hits_of m0 r + of_nat (count_list evs (Hit r))
      \<and> failures_with (fold metric_step evs m0) c = failures_with m0 c + of_nat (count_list evs (Failure c))" for m0
  proof (induction evs arbitrary: m0)
    case Nil
    then show ?case by simp
  next
    case (Cons e evs)
    then show ?case
      by (cases e) (auto simp: hits.count_bump reasons.count_bump)
  qed
  have zero: "hits_of default_metrics r = 0" "failures_with default_metrics c = 0"
    by (simp_all add: hits_of_def failures_with_def default_metrics_def counter_value_def)
  have snap: "map_of (snapshot_map l f) = f \<and> hashmap_ok (snapshot_map l f)"
    if "distinct l" "set l = dom f" for l and f :: "string \<rightharpoonup> u64"
  proof -
    have "snapshot_map ks f = map (\<lambda>k. (k, the (f k))) ks" if "set ks \<subseteq> dom f" for ks
      using that unfolding snapshot_map_def by (induction ks) auto
    then have "snapshot_map l f = map (\<lambda>k. (k, the (f k))) l"
      using that(2) by simp
    with that show ?thesis
      by (auto simp: hashmap_ok_def comp_def map_of_map_restrict restrict_map_def fun_eq_iff dom_def)
  qed
  show ?thesis
    using cnt [of default_metrics] zero snap assms by (simp add: snapshot_def)
qed

theorem escape_label_value_roundtrip_witness:
  "escape_label_value [CHR 0x22] = [CHR 0x5C, CHR 0x22]
   \<and> unescape [CHR 0x5C, CHR 0x22] = [CHR 0x22]"
proof -
  have "escape_label_value [CHR 0x22] = [CHR 0x5C, CHR 0x22]"
    by (simp add: escape_label_value_chars)
  then show ?thesis
    using escape_label_value_roundtrip [of "[CHR 0x22]" "[CHR 0x22]"] by simp
qed

theorem metrics_count_events_witness:
  "hits_of (fold metric_step [Hit ''r'', Failure ''no_instances'', Hit ''r''] default_metrics) ''r'' = 2"
proof -
  let ?evs = "[Hit ''r'', Failure ''no_instances'', Hit ''r'']"
  have "dom (route_hits (fold metric_step ?evs default_metrics)) = {''r''}"
    and "dom (failure_reasons (fold metric_step ?evs default_metrics)) = {''no_instances''}"
    by (auto simp: record_route_hit_def record_failure_reason_def count_up_def default_metrics_def)
  then show ?thesis
    using metrics_count_events [of "fold metric_step ?evs default_metrics" ?evs "[''r'']" "[''no_instances'']" "''r''" "[]"]
    by simp
qed

end
