(* ===== verification/Health.thy ===== *)
theory Health
  imports Registry
begin

text \<open>
  \<^verbatim>\<open>server/health_checker.rs\<close>: the health status of upstream hosts and one round of
  active probing.  The three concurrent maps are a set and two partial functions over the
  key \<^verbatim>\<open>host:port\<close>.  The outcome of a probe (a response with a 2xx status) is a
  function of its URL, a parameter of the round; the answers of the resolver are those of
  the round.  The probing task is then cut at every point where it waits (\<open>checker\<close>,
  \<open>checker_step\<close>).  The lemmas: the two thresholds give a hysteresis on the history of each
  host, a round probes every known host once, and its steps in a row are the round.
\<close>

section \<open>State and operations\<close>

record health_status =
  unhealthy :: "string set"
  fail_counts :: "string \<rightharpoonup> u32"
  ok_counts :: "string \<rightharpoonup> u32"

definition health_status_new :: health_status where
  "health_status_new = \<lparr> unhealthy = {}, fail_counts = Map.empty, ok_counts = Map.empty \<rparr>"

definition is_healthy :: "health_status \<Rightarrow> string \<Rightarrow> bool" where
  "is_healthy st key = (key \<notin> unhealthy st)"

text \<open>\<^verbatim>\<open>*entry(key).or_insert(0) += 1\<close>; the addition wraps in a release build.\<close>

definition bumped :: "(string \<rightharpoonup> u32) \<Rightarrow> string \<Rightarrow> u32" where
  "bumped m key = (case m key of None \<Rightarrow> 0 | Some c \<Rightarrow> c) + 1"

definition health_record_success :: "string \<Rightarrow> u32 \<Rightarrow> health_status \<Rightarrow> health_status" where
  "health_record_success key healthy_threshold st =
     (let count = bumped (ok_counts st) key;
          st' = st\<lparr> fail_counts := (fail_counts st)(key := None),
                   ok_counts := (ok_counts st)(key \<mapsto> count) \<rparr>
      in if healthy_threshold \<le> count then st'\<lparr> unhealthy := unhealthy st - {key} \<rparr> else st')"

definition health_record_failure :: "string \<Rightarrow> u32 \<Rightarrow> health_status \<Rightarrow> health_status" where
  "health_record_failure key unhealthy_threshold st =
     (let count = bumped (fail_counts st) key;
          st' = st\<lparr> ok_counts := (ok_counts st)(key := None),
                   fail_counts := (fail_counts st)(key \<mapsto> count) \<rparr>
      in if unhealthy_threshold \<le> count then st'\<lparr> unhealthy := insert key (unhealthy st) \<rparr> else st')"

lemmas health_defs = health_record_success_def health_record_failure_def bumped_def Let_def

definition record_probe :: "health_check_config \<Rightarrow> string \<times> bool \<Rightarrow> health_status \<Rightarrow> health_status" where
  "record_probe c e st =
     (if snd e then health_record_success (fst e) (hc_healthy_threshold c) st
      else health_record_failure (fst e) (hc_unhealthy_threshold c) st)"

definition probe_url :: "health_check_config \<Rightarrow> service_instance \<Rightarrow> string" where
  "probe_url c i = ''http://'' @ si_host i @ '':'' @ show_nat (unat (si_port i)) @ hc_path c"

fun probe_instances ::
  "health_check_config \<Rightarrow> (string \<Rightarrow> bool) \<Rightarrow> service_instance list
    \<Rightarrow> string set \<times> health_status \<Rightarrow> string set \<times> health_status" where
  "probe_instances c get_ok [] acc = acc"
| "probe_instances c get_ok (inst # insts) (seen_keys, st) =
     (let key = instance_host_port inst
      in if key \<in> seen_keys then probe_instances c get_ok insts (seen_keys, st)
         else probe_instances c get_ok insts
                (insert key seen_keys, record_probe c (key, get_ok (probe_url c inst)) st))"

fun probe_routes ::
  "health_check_config \<Rightarrow> (string \<Rightarrow> bool) \<Rightarrow> (string \<Rightarrow> registry_error + service_instance list)
    \<Rightarrow> routing_rule list \<Rightarrow> string set \<times> health_status \<Rightarrow> string set \<times> health_status" where
  "probe_routes c get_ok resolve_svc [] acc = acc"
| "probe_routes c get_ok resolve_svc (route # rs) acc =
     (case rule_service_id route of
        None \<Rightarrow> probe_routes c get_ok resolve_svc rs acc
      | Some svc_id \<Rightarrow>
          (case resolve_svc svc_id of
             Inl e \<Rightarrow> probe_routes c get_ok resolve_svc rs acc
           | Inr instances \<Rightarrow>
               probe_routes c get_ok resolve_svc rs (probe_instances c get_ok instances acc)))"

definition probe_all ::
  "health_check_config \<Rightarrow> (string \<Rightarrow> bool) \<Rightarrow> multi_registry_resolver \<Rightarrow> app_config
    \<Rightarrow> health_status \<Rightarrow> health_status" where
  "probe_all c get_ok resolver cfg st =
     snd (probe_routes c get_ok (resolve_service resolver) (routes cfg) ({}, st))"

section \<open>Hysteresis\<close>

definition trailing :: "bool \<Rightarrow> bool list \<Rightarrow> nat" where
  "trailing b h = length (takeWhile (\<lambda>x. x = b) (rev h))"

lemma trailing_snoc [simp]: "trailing b (h @ [x]) = (if x = b then Suc (trailing b h) else 0)"
  by (simp add: trailing_def)

lemma trailing_Nil [simp]: "trailing b [] = 0"
  by (simp add: trailing_def)

lemma trailing_le: "trailing b h \<le> length h"
  by (simp add: trailing_def) (metis length_rev length_takeWhile_le)

text \<open>A host is down when at some point of its history enough failures had come in a row,
  and at no point since then had enough successes.\<close>

definition down :: "nat \<Rightarrow> nat \<Rightarrow> bool list \<Rightarrow> bool" where
  "down uth hth h = (\<exists>a b. h = a @ b \<and> max 1 uth \<le> trailing False a \<and>
     (\<forall>c. prefix c b \<longrightarrow> trailing True (a @ c) < max 1 hth))"

lemma down_Nil [simp]: "\<not> down uth hth []"
  by (auto simp: down_def)

lemma trailing_both: "0 < trailing False h \<Longrightarrow> trailing True h = 0"
  by (cases h rule: rev_cases) (auto split: if_splits)

lemma down_snoc:
  "down uth hth (h @ [x]) \<longleftrightarrow>
     (if x then down uth hth h \<and> trailing True (h @ [x]) < max 1 hth
      else down uth hth h \<or> max 1 uth \<le> trailing False (h @ [x]))"
    (is "?L = ?R")
proof
  assume ?L
  then obtain a b where ab: "h @ [x] = a @ b" "max 1 uth \<le> trailing False a"
    and up: "\<forall>c. prefix c b \<longrightarrow> trailing True (a @ c) < max 1 hth"
    by (auto simp: down_def)
  show ?R
  proof (cases b rule: rev_cases)
    case Nil
    with ab have a: "a = h @ [x]" by simp
    with ab(2) have "\<not> x" by (auto split: if_splits)
    with ab(2) a show ?thesis by simp
  next
    case (snoc b' y)
    with ab(1) have h: "h = a @ b'" "y = x" by auto
    have "\<forall>c. prefix c b' \<longrightarrow> trailing True (a @ c) < max 1 hth"
      using up snoc by (auto simp: prefix_snoc)
    then have "down uth hth h"
      using h ab(2) by (auto simp: down_def)
    moreover have "trailing True (h @ [x]) < max 1 hth"
      using up [rule_format, of b] snoc h by simp
    ultimately show ?thesis by auto
  qed
next
  assume R: ?R
  show ?L
  proof (cases "down uth hth h")
    case True
    then obtain a b where ab: "h = a @ b" "max 1 uth \<le> trailing False a"
      and up: "\<forall>c. prefix c b \<longrightarrow> trailing True (a @ c) < max 1 hth"
      by (auto simp: down_def)
    have "\<forall>c. prefix c (b @ [x]) \<longrightarrow> trailing True (a @ c) < max 1 hth"
      using up R ab(1) by (auto simp: prefix_snoc simp flip: append_assoc split: if_splits)
    moreover have "h @ [x] = a @ (b @ [x])" using ab(1) by simp
    ultimately show ?thesis
      using ab(2) unfolding down_def by blast
  next
    case False
    with R have x: "\<not> x" "max 1 uth \<le> trailing False (h @ [x])"
      by (auto split: if_splits)
    then have "trailing True (h @ [x]) < max 1 hth"
      by simp
    with x have "h @ [x] = (h @ [x]) @ [] \<and> max 1 uth \<le> trailing False (h @ [x]) \<and>
        (\<forall>c. prefix c [] \<longrightarrow> trailing True ((h @ [x]) @ c) < max 1 hth)"
      by simp
    then show ?thesis unfolding down_def by blast
  qed
qed

definition history :: "string \<Rightarrow> (string \<times> bool) list \<Rightarrow> bool list" where
  "history k evs = map snd (filter (\<lambda>e. fst e = k) evs)"

lemma history_snoc [simp]:
  "history k (evs @ [e]) = (if fst e = k then history k evs @ [snd e] else history k evs)"
  by (simp add: history_def)

lemma history_le: "length (history k evs) \<le> length evs"
  by (simp add: history_def)

definition health_view :: "health_status \<Rightarrow> string \<Rightarrow> bool \<times> u32 option \<times> u32 option" where
  "health_view st k = (k \<in> unhealthy st, fail_counts st k, ok_counts st k)"

lemma health_view_other: "fst e \<noteq> k \<Longrightarrow> health_view (record_probe c e st) k = health_view st k"
  by (auto simp: record_probe_def health_defs health_view_def)

definition count_of :: "nat \<Rightarrow> u32 option" where
  "count_of n = (if n = 0 then None else Some (of_nat n))"

lemma count_of_Suc: "(case count_of n of None \<Rightarrow> 0 | Some c \<Rightarrow> c) + 1 = of_nat (Suc n)"
  by (simp add: count_of_def)

lemma threshold_le: "n < 2 ^ 32 \<Longrightarrow> (t :: u32) \<le> of_nat n \<longleftrightarrow> unat t \<le> n"
  by (simp add: word_le_nat_alt unat_of_nat take_bit_eq_mod)

lemma health_run:
  assumes "length evs < 2 ^ 32"
  shows "health_view (fold (record_probe c) evs health_status_new) k =
     (let h = history k evs in
      (down (unat (hc_unhealthy_threshold c)) (unat (hc_healthy_threshold c)) h,
       count_of (trailing False h), count_of (trailing True h)))"
  using assms
proof (induction evs rule: rev_induct)
  case Nil
  then show ?case
    by (simp add: health_view_def health_status_new_def history_def count_of_def)
next
  case (snoc e evs)
  let ?st = "fold (record_probe c) evs health_status_new"
  show ?case
  proof (cases "fst e = k")
    case False
    with snoc show ?thesis by (simp add: health_view_other)
  next
    case True
    let ?h = "history k evs"
    have view: "k \<in> unhealthy ?st \<longleftrightarrow>
        down (unat (hc_unhealthy_threshold c)) (unat (hc_healthy_threshold c)) ?h"
      "fail_counts ?st k = count_of (trailing False ?h)" "ok_counts ?st k = count_of (trailing True ?h)"
      using snoc by (simp_all add: health_view_def Let_def)
    have "Suc (length ?h) < 2 ^ 32"
      using snoc.prems history_le [of k evs] by simp
    then have small: "Suc (trailing b ?h) < 2 ^ 32" for b
      using trailing_le [of b ?h] by simp
    show ?thesis
    proof (cases "snd e")
      case ok: True
      then have "health_view (fold (record_probe c) (evs @ [e]) health_status_new) k =
          (k \<in> unhealthy ?st \<and> \<not> hc_healthy_threshold c \<le> of_nat (Suc (trailing True ?h)),
           None, Some (of_nat (Suc (trailing True ?h))))"
        using True
        by (simp add: record_probe_def health_record_success_def Let_def bumped_def health_view_def
            view count_of_Suc del: of_nat_Suc)
      moreover have "hc_healthy_threshold c \<le> of_nat (Suc (trailing True ?h)) \<longleftrightarrow>
          unat (hc_healthy_threshold c) \<le> Suc (trailing True ?h)"
        using small by (rule threshold_le)
      ultimately show ?thesis
        using True ok view by (auto simp: Let_def down_snoc count_of_def not_le simp del: of_nat_Suc)
    next
      case bad: False
      then have "health_view (fold (record_probe c) (evs @ [e]) health_status_new) k =
          (k \<in> unhealthy ?st \<or> hc_unhealthy_threshold c \<le> of_nat (Suc (trailing False ?h)),
           Some (of_nat (Suc (trailing False ?h))), None)"
        using True
        by (simp add: record_probe_def health_record_failure_def Let_def bumped_def health_view_def
            view count_of_Suc del: of_nat_Suc)
      moreover have "hc_unhealthy_threshold c \<le> of_nat (Suc (trailing False ?h)) \<longleftrightarrow>
          unat (hc_unhealthy_threshold c) \<le> Suc (trailing False ?h)"
        using small by (rule threshold_le)
      ultimately show ?thesis
        using True bad view by (auto simp: Let_def down_snoc count_of_def simp del: of_nat_Suc)
    qed
  qed
qed

text \<open>The health status is a hysteresis on the probe history of each host, whatever the
  interleaving with other hosts: a host is skipped exactly if at some point
  \<^verbatim>\<open>unhealthy_threshold\<close> probes in a row had failed and at no point since then had
  \<^verbatim>\<open>healthy_threshold\<close> probes in a row succeeded (thresholds of zero act as one; the
  history is shorter than the range of the 32-bit counters).\<close>

theorem health_hysteresis:
  assumes "length evs < 2 ^ 32"
  shows "is_healthy (fold (record_probe c) evs health_status_new) k \<longleftrightarrow>
    \<not> (\<exists>a b. history k evs = a @ b
         \<and> max 1 (unat (hc_unhealthy_threshold c)) \<le> trailing False a
         \<and> (\<forall>s. prefix s b \<longrightarrow> trailing True (a @ s) < max 1 (unat (hc_healthy_threshold c))))"
  using health_run [OF assms, of c k] by (simp add: is_healthy_def health_view_def Let_def down_def)

definition example_health_config :: health_check_config where
  "example_health_config = \<lparr> hc_interval_secs = 10, hc_path = ''/health'', hc_timeout_secs = 5,
     hc_unhealthy_threshold = 2, hc_healthy_threshold = 2 \<rparr>"

theorem health_hysteresis_witness:
  "\<not> is_healthy (fold (record_probe example_health_config)
        [(''a'', False), (''b'', True), (''a'', False), (''a'', True)] health_status_new) ''a''"
proof -
  let ?evs = "[(''a'', False), (''b'', True), (''a'', False), (''a'', True)]"
  have "history ''a'' ?evs = [False, False] @ [True]
      \<and> max 1 (unat (hc_unhealthy_threshold example_health_config)) \<le> trailing False [False, False]
      \<and> (\<forall>s. prefix s [True] \<longrightarrow>
           trailing True ([False, False] @ s) < max 1 (unat (hc_healthy_threshold example_health_config)))"
    by (auto simp: history_def prefix_Cons trailing_def example_health_config_def)
  then have "\<exists>a b. history ''a'' ?evs = a @ b
      \<and> max 1 (unat (hc_unhealthy_threshold example_health_config)) \<le> trailing False a
      \<and> (\<forall>s. prefix s b \<longrightarrow>
           trailing True (a @ s) < max 1 (unat (hc_healthy_threshold example_health_config)))"
    by (intro exI)
  moreover have "length ?evs < 2 ^ 32" by simp
  ultimately show ?thesis
    using health_hysteresis [of ?evs example_health_config "''a''"] by simp
qed

section \<open>One round of probing\<close>

definition route_answer ::
  "(string \<Rightarrow> registry_error + service_instance list) \<Rightarrow> routing_rule \<Rightarrow> service_instance list" where
  "route_answer resolve_svc r = (case rule_service_id r of None \<Rightarrow> []
     | Some s \<Rightarrow> (case resolve_svc s of Inl _ \<Rightarrow> [] | Inr l \<Rightarrow> l))"

definition known_instances :: "multi_registry_resolver \<Rightarrow> app_config \<Rightarrow> service_instance list" where
  "known_instances resolver cfg = concat (map (route_answer (resolve_service resolver)) (routes cfg))"

definition probe_step :: "health_check_config \<Rightarrow> (string \<Rightarrow> bool) \<Rightarrow> service_instance \<Rightarrow> health_status \<Rightarrow> health_status" where
  "probe_step c get_ok i st = record_probe c (instance_host_port i, get_ok (probe_url c i)) st"

lemma probe_instances_first_seen:
  "probe_instances c get_ok insts (S, st) =
     (S \<union> instance_host_port ` set insts, fold (probe_step c get_ok) (first_seen instance_host_port S insts) st)"
  by (induction insts arbitrary: S st) (auto simp: Let_def probe_step_def insert_absorb)

lemma first_seen_append:
  "first_seen key S (xs @ ys) = first_seen key S xs @ first_seen key (S \<union> key ` set xs) ys"
  by (induction xs arbitrary: S) (auto simp: insert_absorb)

lemma probe_routes_first_seen:
  "probe_routes c get_ok res rs (S, st) =
     (let l = concat (map (route_answer res) rs) in
      (S \<union> instance_host_port ` set l, fold (probe_step c get_ok) (first_seen instance_host_port S l) st))"
proof (induction rs arbitrary: S st)
  case Nil
  then show ?case by simp
next
  case (Cons r rs)
  have "probe_routes c get_ok res (r # rs) (S, st) =
      probe_routes c get_ok res rs (probe_instances c get_ok (route_answer res r) (S, st))"
    by (auto simp: route_answer_def split: option.split sum.split)
  then show ?case
    by (simp add: Let_def probe_instances_first_seen first_seen_append Cons.IH Un_assoc image_Un)
qed

lemma health_view_fold_distinct:
  assumes "distinct (map instance_host_port l)"
  shows "health_view (fold (probe_step c get_ok) l st) k =
     (case find (\<lambda>i. instance_host_port i = k) l of
        None \<Rightarrow> health_view st k
      | Some i \<Rightarrow> health_view (record_probe c (k, get_ok (probe_url c i)) st) k)"
  using assms
proof (induction l rule: rev_induct)
  case Nil
  then show ?case by simp
next
  case (snoc i l)
  have cong: "health_view s k = health_view s' k \<Longrightarrow>
      health_view (record_probe c (k, b) s) k = health_view (record_probe c (k, b) s') k" for s s' b
    by (auto simp: health_view_def record_probe_def health_defs)
  show ?case
  proof (cases "instance_host_port i = k")
    case True
    with snoc.prems have "find (\<lambda>i. instance_host_port i = k) l = None"
      by (simp add: find_key_None)
    then have "health_view (fold (probe_step c get_ok) l st) k = health_view st k"
      using snoc by simp
    from cong [OF this] have "health_view (fold (probe_step c get_ok) (l @ [i]) st) k =
        health_view (record_probe c (k, get_ok (probe_url c i)) st) k"
      using True by (simp add: probe_step_def)
    with \<open>find _ l = None\<close> True show ?thesis by (simp add: find_append)
  next
    case False
    with snoc show ?thesis
      by (simp add: find_append probe_step_def health_view_other split: option.split)
  qed
qed

text \<open>One round of the health checker probes every host and port that some route's
  service resolves to exactly once, however many routes and services share it: the host's
  health record becomes the one after that single probe, and the record of every other host
  is untouched.\<close>

theorem probe_all_once:
  "health_view (probe_all c get_ok resolver cfg st) (host_port h p) =
    (if \<exists>i. i \<in> set (known_instances resolver cfg) \<and> si_host i = h \<and> si_port i = p
     then health_view (record_probe c (host_port h p,
            get_ok (''http://'' @ h @ '':'' @ show_nat (unat p) @ hc_path c)) st) (host_port h p)
     else health_view st (host_port h p))"
proof -
  let ?l = "known_instances resolver cfg" and ?k = "host_port h p"
  let ?s = "first_seen instance_host_port {} ?l"
  have run: "health_view (probe_all c get_ok resolver cfg st) ?k = (case find (\<lambda>i. instance_host_port i = ?k) ?s of
        None \<Rightarrow> health_view st ?k
      | Some i \<Rightarrow> health_view (record_probe c (?k, get_ok (probe_url c i)) st) ?k)"
    by (simp add: probe_all_def probe_routes_first_seen Let_def known_instances_def
        health_view_fold_distinct [OF distinct_first_seen])
  have key: "instance_host_port i = ?k \<longleftrightarrow> si_host i = h \<and> si_port i = p" for i
    by (simp add: instance_host_port_def)
  show ?thesis
  proof (cases "find (\<lambda>i. instance_host_port i = ?k) ?s")
    case None
    then have "?k \<notin> instance_host_port ` set ?l"
      by (simp add: find_key_None key_first_seen)
    then have "\<not> (\<exists>i. i \<in> set ?l \<and> si_host i = h \<and> si_port i = p)"
      by (metis image_eqI key)
    with None run show ?thesis by (simp only: if_False option.case)
  next
    case (Some i)
    then have "i \<in> set ?s" and i: "si_host i = h" "si_port i = p"
      by (auto simp: find_Some_iff key)
    have "i \<in> set ?l"
      by (rule subsetD [OF set_first_seen_subset \<open>i \<in> set ?s\<close>])
    with Some i run show ?thesis by (auto simp: probe_url_def)
  qed
qed

section \<open>A round in steps\<close>

text \<open>The probing task is asynchronous: while it waits for a registry or for the answer of a
  probe, other tasks run.  \<open>checker\<close> is where it stands: asleep, before one of the routes of
  the configuration it loaded, or before one of the instances of a service.\<close>

datatype checker =
    Resting
  | Scanning "routing_rule list" "string set"
  | Probing "service_instance list" "routing_rule list" "string set"

fun checker_step ::
  "health_check_config \<Rightarrow> (string \<Rightarrow> bool) \<Rightarrow> multi_registry_resolver \<Rightarrow> app_config
    \<Rightarrow> checker \<times> health_status \<Rightarrow> checker \<times> health_status" where
  "checker_step c get_ok resolver cfg (Resting, st) = (Scanning (routes cfg) {}, st)"
| "checker_step c get_ok resolver cfg (Scanning [] seen_keys, st) = (Resting, st)"
| "checker_step c get_ok resolver cfg (Scanning (route # rs) seen_keys, st) =
     (case rule_service_id route of
        None \<Rightarrow> Scanning rs seen_keys
      | Some svc_id \<Rightarrow>
          (case resolve_service resolver svc_id of
             Inl e \<Rightarrow> Scanning rs seen_keys
           | Inr instances \<Rightarrow> Probing instances rs seen_keys), st)"
| "checker_step c get_ok resolver cfg (Probing [] rs seen_keys, st) = (Scanning rs seen_keys, st)"
| "checker_step c get_ok resolver cfg (Probing (inst # insts) rs seen_keys, st) =
     (let key = instance_host_port inst
      in if key \<in> seen_keys then (Probing insts rs seen_keys, st)
         else (Probing insts rs (insert key seen_keys), record_probe c (key, get_ok (probe_url c inst)) st))"

text \<open>What a step records.\<close>

fun probed :: "health_check_config \<Rightarrow> (string \<Rightarrow> bool) \<Rightarrow> checker \<Rightarrow> (string \<times> bool) list" where
  "probed c get_ok (Probing (inst # insts) rs seen_keys) =
     (let key = instance_host_port inst
      in if key \<in> seen_keys then [] else [(key, get_ok (probe_url c inst))])"
| "probed c get_ok _ = []"

lemma checker_records:
  "snd (checker_step c get_ok resolver cfg (p, st)) = fold (record_probe c) (probed c get_ok p) st"
  by (cases "(c, get_ok, resolver, cfg, p, st)" rule: checker_step.cases) (simp_all add: Let_def)

lemma length_probed: "length (probed c get_ok p) \<le> 1"
  by (cases "(c, get_ok, p)" rule: probed.cases) (simp_all add: Let_def)

text \<open>However the answers of the registries and the state change between the steps, a round
  records no host and port twice: it records only what it has not seen yet, and then has.\<close>

fun seen_in :: "checker \<Rightarrow> string set" where
  "seen_in Resting = {}"
| "seen_in (Scanning rs seen_keys) = seen_keys"
| "seen_in (Probing insts rs seen_keys) = seen_keys"

lemma checker_once:
  "fst ` set (probed c get_ok p) \<inter> seen_in p = {}"
  "fst (checker_step c get_ok resolver cfg (p, st)) \<noteq> Resting \<Longrightarrow>
     seen_in (fst (checker_step c get_ok resolver cfg (p, st))) = seen_in p \<union> fst ` set (probed c get_ok p)"
  by (cases "(c, get_ok, resolver, cfg, p, st)" rule: checker_step.cases;
      auto simp: Let_def split: option.splits sum.splits)+

text \<open>A round whose steps nothing interrupts is \<open>probe_all\<close>.\<close>

lemma checker_probes:
  "\<exists>n. (checker_step c get_ok resolver cfg ^^ n) (Probing insts rs seen_keys, st) =
     (Scanning rs (fst (probe_instances c get_ok insts (seen_keys, st))), snd (probe_instances c get_ok insts (seen_keys, st)))"
proof (induction insts arbitrary: seen_keys st)
  case Nil
  show ?case by (rule exI [of _ 1]) simp
next
  case (Cons i insts)
  let ?f = "checker_step c get_ok resolver cfg"
  obtain seen' st' where step: "?f (Probing (i # insts) rs seen_keys, st) = (Probing insts rs seen', st')"
    and same: "probe_instances c get_ok (i # insts) (seen_keys, st) = probe_instances c get_ok insts (seen', st')"
    by (cases "instance_host_port i \<in> seen_keys") (simp_all add: Let_def)
  obtain n where "(?f ^^ n) (Probing insts rs seen', st') =
      (Scanning rs (fst (probe_instances c get_ok insts (seen', st'))), snd (probe_instances c get_ok insts (seen', st')))"
    using Cons.IH by blast
  with step show ?case
    unfolding same by (intro exI [of _ "Suc n"]) (simp add: funpow_swap1)
qed

lemma checker_scans:
  "\<exists>n. (checker_step c get_ok resolver cfg ^^ n) (Scanning rs seen_keys, st) =
     (Resting, snd (probe_routes c get_ok (resolve_service resolver) rs (seen_keys, st)))"
proof (induction rs arbitrary: seen_keys st)
  case Nil
  show ?case by (rule exI [of _ 1]) simp
next
  case (Cons route rs)
  let ?f = "checker_step c get_ok resolver cfg"
  obtain k seen' st' where k: "(?f ^^ k) (Scanning (route # rs) seen_keys, st) = (Scanning rs seen', st')"
    and same: "probe_routes c get_ok (resolve_service resolver) (route # rs) (seen_keys, st) =
      probe_routes c get_ok (resolve_service resolver) rs (seen', st')"
  proof (cases "\<exists>svc insts. rule_service_id route = Some svc \<and> resolve_service resolver svc = Inr insts")
    case False
    then have "?f (Scanning (route # rs) seen_keys, st) = (Scanning rs seen_keys, st)"
      "probe_routes c get_ok (resolve_service resolver) (route # rs) (seen_keys, st) =
        probe_routes c get_ok (resolve_service resolver) rs (seen_keys, st)"
      by (auto split: option.split sum.split)
    then show ?thesis by (intro that [of 1 seen_keys st]) simp_all
  next
    case True
    then obtain svc insts where svc: "rule_service_id route = Some svc" "resolve_service resolver svc = Inr insts"
      by blast
    obtain n where "(?f ^^ n) (Probing insts rs seen_keys, st) =
        (Scanning rs (fst (probe_instances c get_ok insts (seen_keys, st))), snd (probe_instances c get_ok insts (seen_keys, st)))"
      using checker_probes by blast
    with svc show ?thesis
      by (intro that [of "Suc n" "fst (probe_instances c get_ok insts (seen_keys, st))"
            "snd (probe_instances c get_ok insts (seen_keys, st))"]) (simp_all add: funpow_swap1)
  qed
  obtain n where "(?f ^^ n) (Scanning rs seen', st') =
      (Resting, snd (probe_routes c get_ok (resolve_service resolver) rs (seen', st')))"
    using Cons.IH by blast
  with k show ?case
    unfolding same by (intro exI [of _ "n + k"]) (simp add: funpow_add)
qed

lemma checker_round:
  "\<exists>n. (checker_step c get_ok resolver cfg ^^ n) (Resting, st) = (Resting, probe_all c get_ok resolver cfg st)"
proof -
  obtain n where "(checker_step c get_ok resolver cfg ^^ n) (Scanning (routes cfg) {}, st) =
      (Resting, probe_all c get_ok resolver cfg st)"
    using checker_scans unfolding probe_all_def by blast
  then show ?thesis
    by (intro exI [of _ "Suc n"]) (simp add: funpow_swap1)
qed

end
