(* ===== verification/Selection.thy ===== *)
theory Selection
  imports Health
begin

text \<open>
  Instance selection of \<^verbatim>\<open>server/handlers.rs\<close>: the choice among the instances a
  service resolves to, by health, by the configured strategy and by the per-service counter.
  \<^verbatim>\<open>None\<close> is a panic (\<^verbatim>\<open>% 0\<close>).  The counter is a wrapping
  \<^verbatim>\<open>usize\<close>, the sum of the weights wraps as well; the output of the random hasher is
  an argument.  The lemmas: the choice comes from the healthy instances when there are any,
  and a run of choices walks the weighted schedule in order.
\<close>

section \<open>Counters, weights, picks\<close>

type_synonym rr_counters = "string \<rightharpoonup> usize"

definition rr_value :: "rr_counters \<Rightarrow> string \<Rightarrow> usize" where
  "rr_value rr svc = (case rr svc of None \<Rightarrow> 0 | Some c \<Rightarrow> c)"

definition rr_bump :: "string \<Rightarrow> rr_counters \<Rightarrow> rr_counters" where
  "rr_bump svc rr = rr(svc \<mapsto> rr_value rr svc + 1)"

text \<open>\<^verbatim>\<open>entry(svc).or_insert_with(0).fetch_add(1)\<close>: the old value and the map after.\<close>

definition fetch_add :: "string \<Rightarrow> rr_counters \<Rightarrow> usize \<times> rr_counters" where
  "fetch_add svc rr = (rr_value rr svc, rr_bump svc rr)"

interpretation rr_store: counter_store rr_value rr_bump
  by unfold_locales (simp add: rr_value_def rr_bump_def)

definition weight_of :: "service_instance \<Rightarrow> usize" where
  "weight_of i =
     (case map_of (si_metadata i) ''weight'' of
        None \<Rightarrow> 1
      | Some w \<Rightarrow> (case parse_unsigned 64 w of None \<Rightarrow> 1 | Some n \<Rightarrow> max (of_nat n) 1))"

text \<open>The loop over the weights: the first index whose cumulative weight exceeds \<open>c\<close>.\<close>

fun weighted_index :: "usize \<Rightarrow> nat \<Rightarrow> usize \<Rightarrow> usize list \<Rightarrow> nat option" where
  "weighted_index c i cumulative [] = None"
| "weighted_index c i cumulative (w # ws) =
     (if c < cumulative + w then Some i else weighted_index c (i + 1) (cumulative + w) ws)"

definition rand_index :: "usize \<Rightarrow> nat \<Rightarrow> nat option" where
  "rand_index hash len = (if len = 0 then None else Some (unat hash mod len))"

definition weighted_round_robin_pick ::
  "service_instance list \<Rightarrow> string \<Rightarrow> rr_counters \<Rightarrow> service_instance option \<times> rr_counters" where
  "weighted_round_robin_pick instances svc rr =
     (let weights = map weight_of instances;
          total = sum_list weights;
          (c, rr') = fetch_add svc rr
      in if total = 0 then (None, rr')
         else case weighted_index (c mod total) 0 0 weights of
                Some i \<Rightarrow> (Some (instances ! i), rr')
              | None \<Rightarrow> (if instances = [] then None else Some (last instances), rr'))"

definition select_service_instance ::
  "usize \<Rightarrow> service_instance list \<Rightarrow> string \<Rightarrow> instance_selection \<Rightarrow> rr_counters \<Rightarrow> health_status
    \<Rightarrow> service_instance option \<times> rr_counters" where
  "select_service_instance hash instances svc_id selection rr st =
     (let healthy = filter (\<lambda>i. is_healthy st (host_port (si_host i) (si_port i))) instances in
      if healthy \<noteq> [] \<and> length healthy < length instances then
        (case selection of
           First \<Rightarrow> (Some (healthy ! 0), rr)
         | RoundRobin \<Rightarrow>
             (let (c, rr') = fetch_add svc_id rr
              in (Some (healthy ! (unat c mod length healthy)), rr'))
         | Random \<Rightarrow> (map_option (\<lambda>k. healthy ! k) (rand_index hash (length healthy)), rr)
         | WeightedRoundRobin \<Rightarrow>
             (let weights = map weight_of healthy;
                  total = sum_list weights;
                  (c, rr') = fetch_add svc_id rr
              in if total = 0 then (None, rr')
                 else (let picked = (case weighted_index (c mod total) 0 0 weights of
                                       Some i \<Rightarrow> i | None \<Rightarrow> length healthy - 1)
                       in (Some (healthy ! picked), rr'))))
      else
        (case selection of
           First \<Rightarrow> (case instances of [] \<Rightarrow> None | i # _ \<Rightarrow> Some i, rr)
         | RoundRobin \<Rightarrow>
             (let (idx, rr') = fetch_add svc_id rr
              in (if instances = [] then None
                  else Some (instances ! (unat idx mod length instances)), rr'))
         | Random \<Rightarrow> (map_option (\<lambda>k. instances ! k) (rand_index hash (length instances)), rr)
         | WeightedRoundRobin \<Rightarrow> weighted_round_robin_pick instances svc_id rr))"

section \<open>The pool and the schedule\<close>

text \<open>The instances the strategy chooses from: the healthy ones, or all when none is.\<close>

definition pool :: "health_status \<Rightarrow> service_instance list \<Rightarrow> service_instance list" where
  "pool st instances =
     (let healthy = filter (\<lambda>i. is_healthy st (instance_host_port i)) instances
      in if healthy = [] then instances else healthy)"

lemma pool_empty_iff [simp]: "pool st instances = [] \<longleftrightarrow> instances = []"
  by (auto simp: pool_def Let_def)

lemma pool_subset: "set (pool st instances) \<subseteq> set instances"
  by (auto simp: pool_def Let_def)

text \<open>What the strategy does on its pool, the two copies of the code being one.\<close>

definition pick_from ::
  "usize \<Rightarrow> service_instance list \<Rightarrow> string \<Rightarrow> instance_selection \<Rightarrow> rr_counters
    \<Rightarrow> service_instance option \<times> rr_counters" where
  "pick_from hash p svc selection rr =
     (case selection of
        First \<Rightarrow> (Some (hd p), rr)
      | Random \<Rightarrow> (Some (p ! (unat hash mod length p)), rr)
      | RoundRobin \<Rightarrow> (Some (p ! (unat (rr_value rr svc) mod length p)), rr_bump svc rr)
      | WeightedRoundRobin \<Rightarrow> weighted_round_robin_pick p svc rr)"

lemma weighted_pick_index:
  "p \<noteq> [] \<Longrightarrow> weighted_round_robin_pick p svc rr =
     (if sum_list (map weight_of p) = 0 then None
      else Some (p ! (case weighted_index (rr_value rr svc mod sum_list (map weight_of p)) 0 0 (map weight_of p) of
                        Some i \<Rightarrow> i | None \<Rightarrow> length p - 1)), rr_bump svc rr)"
  by (simp add: weighted_round_robin_pick_def fetch_add_def Let_def last_conv_nth split: option.split)

lemma first_hd: "xs \<noteq> [] \<Longrightarrow> (case xs of [] \<Rightarrow> None | x # _ \<Rightarrow> Some x) = Some (hd xs)"
  by (cases xs) simp_all

lemma select_pick_from:
  assumes "instances \<noteq> []"
  shows "select_service_instance hash instances svc sel rr st = pick_from hash (pool st instances) svc sel rr"
proof -
  let ?ok = "\<lambda>i. is_healthy st (instance_host_port i)"
  let ?h = "filter ?ok instances"
  have h: "?h = filter (\<lambda>i. is_healthy st (host_port (si_host i) (si_port i))) instances"
    by (simp add: instance_host_port_def)
  show ?thesis
  proof (cases "?h \<noteq> [] \<and> length ?h < length instances")
    case True
    then have "pool st instances = ?h" by (simp add: pool_def)
    with True show ?thesis
      unfolding select_service_instance_def h [symmetric] Let_def
      by (cases sel) (simp_all add: pick_from_def rand_index_def fetch_add_def hd_conv_nth weighted_pick_index)
  next
    case False
    have "pool st instances = instances"
    proof (cases "?h = []")
      case True
      then show ?thesis by (simp add: pool_def)
    next
      case ne: False
      with False have "\<not> length ?h < length instances" by blast
      then have "\<forall>i\<in>set instances. ?ok i"
        by (metis length_filter_less)
      then show ?thesis by (simp add: pool_def)
    qed
    with False assms show ?thesis
      unfolding select_service_instance_def h [symmetric] Let_def
      by (cases sel) (simp_all only: if_False pick_from_def rand_index_def fetch_add_def first_hd length_0_conv not_False_eq_True
          instance_selection.case option.map prod.case)
  qed
qed

lemma weighted_index_bound: "weighted_index c i cum ws = Some k \<Longrightarrow> i \<le> k \<and> k < i + length ws"
  by (induction c i cum ws rule: weighted_index.induct) (auto split: if_splits)

lemma weighted_pick_member:
  "weighted_round_robin_pick p svc rr = (Some i, rr') \<Longrightarrow> i \<in> set p"
  by (auto simp: weighted_round_robin_pick_def fetch_add_def Let_def
      split: if_splits option.splits dest!: weighted_index_bound)

lemma pick_member: "p \<noteq> [] \<Longrightarrow> fst (pick_from hash p svc sel rr) = Some i \<Longrightarrow> i \<in> set p"
  using weighted_pick_member [of p svc rr i] by (cases sel) (auto simp: pick_from_def prod_eq_iff)

lemma selected_in:
  "instances \<noteq> [] \<Longrightarrow> fst (select_service_instance hash instances svc sel rr st) = Some i \<Longrightarrow> i \<in> set instances"
  using pick_member [of "pool st instances"] pool_subset [of st instances]
  by (simp only: select_pick_from pool_empty_iff not_False_eq_True) blast

text \<open>A request for a service goes to a resolved instance, and to a healthy one whenever
  there is one; with no healthy instance the whole list is used.  Choosing never panics,
  except in weighted mode when the sum of the weights wraps to zero.\<close>

theorem select_member:
  assumes "instances \<noteq> []"
  shows "case fst (select_service_instance hash instances svc sel rr st) of
      Some i \<Rightarrow> i \<in> set instances \<and>
        (is_healthy st (instance_host_port i) \<or> (\<forall>j\<in>set instances. \<not> is_healthy st (instance_host_port j)))
    | None \<Rightarrow> sel = WeightedRoundRobin \<and> sum_list (map weight_of (pool st instances)) = 0"
proof -
  let ?p = "pool st instances"
  have p: "?p \<noteq> []" using assms by simp
  have healthy: "i \<in> set instances \<and> (is_healthy st (instance_host_port i) \<or>
      (\<forall>j\<in>set instances. \<not> is_healthy st (instance_host_port j)))" if "i \<in> set ?p" for i
    using that by (auto simp: pool_def Let_def filter_empty_conv split: if_splits)
  have panic: "sel = WeightedRoundRobin \<and> sum_list (map weight_of ?p) = 0"
    if "fst (pick_from hash ?p svc sel rr) = None"
    using that p by (cases sel)
      (auto simp: pick_from_def weighted_round_robin_pick_def fetch_add_def Let_def
        split: if_splits option.splits)
  show ?thesis
    using pick_member [OF p] healthy panic by (auto simp: select_pick_from [OF assms] split: option.split)
qed

section \<open>Runs of choices\<close>

text \<open>\<open>n\<close> consecutive requests for the same service with the same resolved instances.\<close>

fun select_many ::
  "nat \<Rightarrow> service_instance list \<Rightarrow> string \<Rightarrow> instance_selection \<Rightarrow> rr_counters \<Rightarrow> health_status
    \<Rightarrow> service_instance option list" where
  "select_many 0 instances svc sel rr st = []"
| "select_many (Suc n) instances svc sel rr st =
     (let (i, rr') = select_service_instance 0 instances svc sel rr st
      in i # select_many n instances svc sel rr' st)"

text \<open>The virtual sequence the weighted strategy rotates through.\<close>

definition expanded :: "service_instance list \<Rightarrow> service_instance list" where
  "expanded p = concat (map (\<lambda>i. replicate (unat (weight_of i)) i) p)"

fun schedule :: "instance_selection \<Rightarrow> service_instance list \<Rightarrow> service_instance list" where
  "schedule WeightedRoundRobin p = expanded p"
| "schedule _ p = p"

lemma weight_pos: "0 < unat (weight_of i)"
proof -
  have "1 \<le> max x (1 :: usize)" for x by simp
  then have "weight_of i \<noteq> 0"
    by (auto simp: weight_of_def split: option.split) (metis max.cobounded2 word_le_0_iff zero_neq_one)
  then show ?thesis by (simp add: unat_gt_0)
qed

lemma length_expanded: "length (expanded p) = (\<Sum>i\<leftarrow>p. unat (weight_of i))"
  by (simp add: expanded_def length_concat comp_def)

lemma expanded_empty_iff [simp]: "expanded p = [] \<longleftrightarrow> p = []"
  using weight_pos by (cases p) (auto simp: expanded_def)

lemma unat_total:
  assumes "length (expanded p) < 2 ^ 64"
  shows "unat (sum_list (map weight_of p)) = length (expanded p)"
  using assms
proof (induction p)
  case Nil
  then show ?case by (simp add: expanded_def)
next
  case (Cons i p)
  then have "unat (sum_list (map weight_of p)) = length (expanded p)"
    and "unat (weight_of i) + length (expanded p) < 2 ^ 64"
    by (simp_all add: expanded_def)
  then show ?case
    by (simp add: expanded_def unat_word_ariths take_bit_eq_mod)
qed

lemma weighted_index_expanded:
  assumes "unat cum + length (expanded p) < 2 ^ 64"
    and "unat cum \<le> unat c" and "unat c < unat cum + length (expanded p)"
  shows "\<exists>j<length p. weighted_index c k cum (map weight_of p) = Some (k + j)
           \<and> expanded p ! (unat c - unat cum) = p ! j"
  using assms
proof (induction p arbitrary: cum k)
  case Nil
  then show ?case by (simp add: expanded_def)
next
  case (Cons i p)
  let ?w = "unat (weight_of i)"
  have ex: "expanded (i # p) = replicate ?w i @ expanded p"
    by (simp add: expanded_def)
  have sum: "unat (cum + weight_of i) = unat cum + ?w"
    using Cons.prems(1) by (simp add: ex unat_word_ariths take_bit_eq_mod)
  show ?case
  proof (cases "c < cum + weight_of i")
    case True
    then have "unat c - unat cum < ?w"
      using Cons.prems(2) by (simp add: word_less_nat_alt sum)
    with True show ?thesis
      by (intro exI [of _ 0]) (simp add: ex nth_append)
  next
    case False
    then have ge: "unat cum + ?w \<le> unat c"
      by (simp add: word_less_nat_alt sum)
    then obtain j where j: "j < length p"
      "weighted_index c (k + 1) (cum + weight_of i) (map weight_of p) = Some (k + 1 + j)"
      "expanded p ! (unat c - unat (cum + weight_of i)) = p ! j"
      using Cons.IH [of "cum + weight_of i" "k + 1"] Cons.prems by (auto simp: sum ex)
    have "expanded (i # p) ! (unat c - unat cum) = p ! j"
      using ge j(3) by (simp add: ex nth_append sum)
    with False j show ?thesis
      by (intro exI [of _ "Suc j"]) simp
  qed
qed

lemma pick_from_schedule:
  assumes "p \<noteq> []" and "sel = RoundRobin \<or> sel = WeightedRoundRobin"
    and "length (schedule sel p) < 2 ^ 64"
  shows "pick_from hash p svc sel rr =
    (Some (schedule sel p ! (unat (rr_value rr svc) mod length (schedule sel p))), rr_bump svc rr)"
proof (cases "sel = RoundRobin")
  case True
  then show ?thesis by (simp add: pick_from_def)
next
  case False
  with assms have sel: "sel = WeightedRoundRobin" and small: "length (expanded p) < 2 ^ 64"
    by auto
  let ?t = "sum_list (map weight_of p)" and ?v = "rr_value rr svc"
  have t: "unat ?t = length (expanded p)" using small by (rule unat_total)
  then have t0: "?t \<noteq> 0" using assms(1) by (auto simp: unat_eq_0 [symmetric])
  have m: "unat (?v mod ?t) = unat ?v mod length (expanded p)"
    by (simp add: unat_mod_distrib t)
  moreover have "unat ?v mod length (expanded p) < length (expanded p)"
    using assms(1) by simp
  ultimately obtain j where "j < length p"
    "weighted_index (?v mod ?t) 0 0 (map weight_of p) = Some j"
    "expanded p ! (unat ?v mod length (expanded p)) = p ! j"
    using weighted_index_expanded [of 0 p "?v mod ?t" 0] small by auto
  with t0 show ?thesis
    by (simp add: sel pick_from_def weighted_round_robin_pick_def fetch_add_def)
qed

lemma select_hash:
  assumes "sel = RoundRobin \<or> sel = WeightedRoundRobin" and "instances \<noteq> []"
  shows "select_service_instance hash instances svc sel rr st = select_service_instance 0 instances svc sel rr st"
  using assms by (auto simp: select_pick_from pick_from_def)

lemma select_many_schedule:
  assumes "instances \<noteq> []" and "sel = RoundRobin \<or> sel = WeightedRoundRobin"
    and "length (schedule sel (pool st instances)) < 2 ^ 64"
    and "unat (rr_value rr svc) + n \<le> 2 ^ 64"
  shows "select_many n instances svc sel rr st =
    map (\<lambda>k. Some (schedule sel (pool st instances) !
           ((unat (rr_value rr svc) + k) mod length (schedule sel (pool st instances))))) [0..<n]"
  using assms(4)
proof (induction n arbitrary: rr)
  case 0
  then show ?case by simp
next
  case (Suc n)
  let ?s = "schedule sel (pool st instances)" and ?c = "unat (rr_value rr svc)"
  have step: "select_service_instance 0 instances svc sel rr st =
      (Some (?s ! (?c mod length ?s)), rr_bump svc rr)"
    using assms(1-3) by (simp add: select_pick_from pick_from_schedule)
  show ?case
  proof (cases n)
    case 0
    with step show ?thesis by simp
  next
    case (Suc m)
    then have "?c + 1 < 2 ^ 64" using Suc.prems by simp
    then have next_c: "unat (rr_value rr svc + 1) = ?c + 1"
      by (simp add: unat_word_ariths take_bit_eq_mod)
    have "select_many n instances svc sel (rr_bump svc rr) st =
        map (\<lambda>k. Some (?s ! ((?c + 1 + k) mod length ?s))) [0..<n]"
      using Suc.IH [of "rr_bump svc rr"] Suc.prems by (simp add: next_c)
    then show ?thesis
      by (simp add: step map_upt_Suc del: upt_Suc)
  qed
qed

text \<open>Consecutive requests over one period.\<close>

lemma select_period:
  assumes "instances \<noteq> []" and "sel = RoundRobin \<or> sel = WeightedRoundRobin"
    and "period = length (schedule sel (pool st instances))" and "period < 2 ^ 64"
    and "unat (rr_value rr svc) + period \<le> 2 ^ 64"
  shows "select_many period instances svc sel rr st =
      map Some (rotate (unat (rr_value rr svc)) (schedule sel (pool st instances)))
    \<and> mset (select_many period instances svc sel rr st) =
        (\<Sum>i\<leftarrow>pool st instances. replicate_mset (if sel = RoundRobin then 1 else unat (weight_of i)) (Some i))"
proof -
  let ?s = "schedule sel (pool st instances)"
  have run: "select_many period instances svc sel rr st = map Some (rotate (unat (rr_value rr svc)) ?s)"
    using select_many_schedule [OF assms(1,2), of st rr svc period] assms(3-5)
    by (intro nth_equalityI) (simp_all add: nth_rotate)
  have turn: "mset (map Some (rotate k ?s)) = image_mset Some (mset ?s)" for k
  proof -
    have "mset (drop j ?s) + mset (take j ?s) = mset ?s" for j
      by (metis append_take_drop_id mset_append union_commute)
    then show ?thesis by (simp add: rotate_drop_take flip: image_mset_union)
  qed
  have one: "image_mset Some (mset p) = (\<Sum>i\<leftarrow>p. replicate_mset 1 (Some i))"
    and wrr: "image_mset Some (mset (expanded p)) = (\<Sum>i\<leftarrow>p. replicate_mset (unat (weight_of i)) (Some i))" for p
    by (induction p) (simp_all add: expanded_def)
  show ?thesis
  proof (cases "sel = RoundRobin")
    case True
    then show ?thesis unfolding run turn by (simp only: one schedule.simps simp_thms if_True)
  next
    case False
    with assms(2) have "sel = WeightedRoundRobin" by blast
    with False show ?thesis unfolding run turn by (simp only: wrr schedule.simps simp_thms if_False)
  qed
qed

text \<open>Round robin is fair.  Over one period (the number of usable instances, or the sum of
  their weights) of consecutive requests for a service, whatever the position of its
  counter, the chosen instances are the schedule rotated: each usable instance once in
  round-robin mode, exactly as often as its weight in weighted mode.  The period and the
  counter stay below \<open>2 ^ 64\<close>; at the wrap of the counter the rotation is broken once.\<close>

theorem round_robin_fair:
  assumes "instances \<noteq> []" and "sel = RoundRobin \<or> sel = WeightedRoundRobin"
    and "period = length (schedule sel (pool st instances))" and "period < 2 ^ 64"
    and "unat (rr_value rr svc) + period \<le> 2 ^ 64"
  shows "select_many period instances svc sel rr st =
      map Some (rotate (unat (rr_value rr svc)) (schedule sel (pool st instances)))
    \<and> mset (select_many period instances svc sel rr st) =
        (\<Sum>i\<leftarrow>pool st instances. replicate_mset (if sel = RoundRobin then 1 else unat (weight_of i)) (Some i))"
  using assms by (rule select_period)

definition example_instance :: "string \<Rightarrow> string \<Rightarrow> service_instance" where
  "example_instance h w = \<lparr> si_host = h, si_port = 80, si_metadata = [(''weight'', w)] \<rparr>"

lemma example_weights:
  "weight_of (example_instance h ''2'') = 2" "weight_of (example_instance h ''1'') = 1"
  by (simp_all add: weight_of_def example_instance_def parse_unsigned_def digit_val_def)

theorem round_robin_fair_witness:
  "select_many 3 [example_instance ''a'' ''2'', example_instance ''b'' ''1''] ''svc''
      WeightedRoundRobin [''svc'' \<mapsto> 4] health_status_new =
    [Some (example_instance ''a'' ''2''), Some (example_instance ''b'' ''1''), Some (example_instance ''a'' ''2'')]"
proof -
  let ?l = "[example_instance ''a'' ''2'', example_instance ''b'' ''1'']"
  have two: "replicate 2 x = [x, x]" for x :: 'a
    by (simp add: numeral_2_eq_2)
  have s: "schedule WeightedRoundRobin (pool health_status_new ?l) =
      [example_instance ''a'' ''2'', example_instance ''a'' ''2'', example_instance ''b'' ''1'']"
    by (simp add: pool_def is_healthy_def health_status_new_def expanded_def example_weights two)
  show ?thesis
    using round_robin_fair [of ?l WeightedRoundRobin 3 health_status_new "[''svc'' \<mapsto> 4]" "''svc''"]
    unfolding s by (simp add: rr_value_def rotate_drop_take)
qed

theorem select_member_witness:
  "fst (select_service_instance 0 [example_instance ''a'' ''2'', example_instance ''b'' ''1''] ''svc'' First
      Map.empty \<lparr> unhealthy = {''a:80''}, fail_counts = Map.empty, ok_counts = Map.empty \<rparr>)
    = Some (example_instance ''b'' ''1'')"
proof -
  let ?l = "[example_instance ''a'' ''2'', example_instance ''b'' ''1'']"
  let ?st = "\<lparr> unhealthy = {''a:80''}, fail_counts = Map.empty, ok_counts = Map.empty \<rparr> :: health_status"
  have show80: "show_nat 80 = ''80''"
    by code_simp
  have h: "\<not> is_healthy ?st (instance_host_port (example_instance ''a'' ''2''))"
    "is_healthy ?st (instance_host_port (example_instance ''b'' ''1''))"
    by (simp_all add: is_healthy_def instance_host_port_def example_instance_def host_port_def show80)
  show ?thesis
    using select_member [where instances = ?l and hash = 0 and svc = "''svc''" and sel = First and rr = Map.empty and st = ?st] h
    by (auto split: option.splits)
qed

end
