(* ===== verification/Plugin.thy ===== *)
theory Plugin
  imports Http
begin

text \<open>
  \<^verbatim>\<open>server/plugin.rs\<close>: the plugin trait, the chain that runs requests forwards and
  responses backwards through it, the built-in plugins and the factory.  A plugin object is
  the record of its two methods; a call returns, fails, or panics (\<^verbatim>\<open>catch_unwind\<close>).
  The lemmas: chains compose like an onion, and a chain built from configuration only sets
  headers, the last writer winning.
\<close>

section \<open>The chain\<close>

datatype request_action = Continue request | Respond response

datatype 'a call = CallOk 'a | CallErr string | CallPanic

record plugin =
  pl_name :: string
  pl_on_request :: "request \<Rightarrow> request_action call"
  pl_on_response :: "response \<Rightarrow> response call"

definition plugin_panicked :: "string \<Rightarrow> string \<Rightarrow> string" where
  "plugin_panicked name phase = ''plugin '' @ [CHR 0x27] @ name @ [CHR 0x27] @ '' panicked in '' @ phase"

fun run_on_request :: "plugin list \<Rightarrow> request \<Rightarrow> string + request_action" where
  "run_on_request [] req = Inr (Continue req)"
| "run_on_request (p # ps) req =
     (case pl_on_request p req of
        CallOk (Continue r) \<Rightarrow> run_on_request ps r
      | CallOk (Respond resp) \<Rightarrow> Inr (Respond resp)
      | CallErr e \<Rightarrow> Inl e
      | CallPanic \<Rightarrow> Inl (plugin_panicked (pl_name p) ''on_request''))"

fun run_responses :: "plugin list \<Rightarrow> response \<Rightarrow> string + response" where
  "run_responses [] resp = Inr resp"
| "run_responses (p # ps) resp =
     (case pl_on_response p resp of
        CallOk r \<Rightarrow> run_responses ps r
      | CallErr e \<Rightarrow> Inl e
      | CallPanic \<Rightarrow> Inl (plugin_panicked (pl_name p) ''on_response''))"

definition run_on_response :: "plugin list \<Rightarrow> response \<Rightarrow> string + response" where
  "run_on_response ps resp = run_responses (rev ps) resp"

lemma run_on_request_append:
  "run_on_request (us @ vs) req =
     (case run_on_request us req of Inr (Continue r) \<Rightarrow> run_on_request vs r | other \<Rightarrow> other)"
  by (induction us req rule: run_on_request.induct) (auto split: call.split request_action.split)

lemma run_responses_append:
  "run_responses (us @ vs) resp = res_bind (run_responses us resp) (run_responses vs)"
  by (induction us resp rule: run_responses.induct) (auto split: call.split)

lemma run_on_response_append:
  "run_on_response (us @ vs) resp = res_bind (run_on_response vs resp) (run_on_response us)"
  by (cases "run_on_response vs resp") (simp_all add: run_on_response_def run_responses_append)

section \<open>Built-in plugins\<close>

datatype builtin =
    RequestLogger
  | RequestHeaders "(string \<times> string) list"
  | ResponseHeaders "(string \<times> string) list"

fun builtin_name :: "builtin \<Rightarrow> string" where
  "builtin_name RequestLogger = ''request-logger''"
| "builtin_name (RequestHeaders _) = ''request-headers''"
| "builtin_name (ResponseHeaders _) = ''response-headers''"

text \<open>\<^verbatim>\<open>config.get("headers").and_then(as_object)\<close>, a non-string value being empty.\<close>

definition config_headers :: "json \<Rightarrow> (string \<times> string) list" where
  "config_headers config =
     (case json_get config ''headers'' of
        None \<Rightarrow> []
      | Some v \<Rightarrow>
          (case json_as_object v of
             None \<Rightarrow> []
           | Some m \<Rightarrow> map (\<lambda>(k, v). (k, case json_as_str v of None \<Rightarrow> [] | Some s \<Rightarrow> s)) m))"

fun builtin_init :: "builtin \<Rightarrow> json \<Rightarrow> string + builtin" where
  "builtin_init RequestLogger config = Inr RequestLogger"
| "builtin_init (RequestHeaders hs) config = Inr (RequestHeaders (hs @ config_headers config))"
| "builtin_init (ResponseHeaders hs) config = Inr (ResponseHeaders (hs @ config_headers config))"

fun set_headers :: "ext \<Rightarrow> (string \<times> string) list \<Rightarrow> header_map \<Rightarrow> header_map" where
  "set_headers x [] m = m"
| "set_headers x ((k, v) # hs) m =
     (case (header_name x k, header_value x v) of
        (Some name, Some val) \<Rightarrow> set_headers x hs (header_insert name val m)
      | _ \<Rightarrow> set_headers x hs m)"

fun builtin_on_request :: "ext \<Rightarrow> builtin \<Rightarrow> request \<Rightarrow> request_action call" where
  "builtin_on_request x (RequestHeaders hs) req =
     CallOk (Continue (req\<lparr> req_headers := set_headers x hs (req_headers req) \<rparr>))"
| "builtin_on_request x _ req = CallOk (Continue req)"

fun builtin_on_response :: "ext \<Rightarrow> builtin \<Rightarrow> response \<Rightarrow> response call" where
  "builtin_on_response x (ResponseHeaders hs) resp =
     CallOk (resp\<lparr> resp_headers := set_headers x hs (resp_headers resp) \<rparr>)"
| "builtin_on_response x _ resp = CallOk resp"

definition dyn_plugin :: "ext \<Rightarrow> builtin \<Rightarrow> plugin" where
  "dyn_plugin x b = \<lparr> pl_name = builtin_name b, pl_on_request = builtin_on_request x b,
     pl_on_response = builtin_on_response x b \<rparr>"

section \<open>The factory\<close>

definition sort_entries :: "plugin_config list \<Rightarrow> plugin_config list" where
  "sort_entries cs = sort_key pc_order cs"

definition builtin_new :: "string \<Rightarrow> builtin option" where
  "builtin_new name =
     (if name = ''request-logger'' then Some RequestLogger
      else if name = ''request-headers'' then Some (RequestHeaders [])
      else if name = ''response-headers'' then Some (ResponseHeaders [])
      else None)"

fun load_plugins :: "ext \<Rightarrow> plugin_config list \<Rightarrow> string + plugin list" where
  "load_plugins x [] = Inr []"
| "load_plugins x (cfg # cfgs) =
     (case builtin_new (pc_name cfg) of
        None \<Rightarrow> load_plugins x cfgs
      | Some b \<Rightarrow>
          res_bind (builtin_init b (pc_config cfg)) (\<lambda>b'.
          res_bind (load_plugins x cfgs) (\<lambda>ps. Inr (dyn_plugin x b' # ps))))"

definition build_plugin_chain :: "ext \<Rightarrow> plugin_config list \<Rightarrow> string + plugin list" where
  "build_plugin_chain x configs = load_plugins x (sort_entries (filter pc_enabled configs))"

interpretation plugin_table: priority_table pc_order sort_entries
  by unfold_locales (simp_all add: sort_entries_def sort_key_stable)

section \<open>What a configured chain does\<close>

text \<open>The headers an entry sets, in order, when both name and value are well-formed.\<close>

definition settings :: "ext \<Rightarrow> string \<Rightarrow> plugin_config \<Rightarrow> (string \<times> string) list" where
  "settings x name c =
     (if pc_name c = name
      then concat (map (\<lambda>(k, v). case (header_name x k, header_value x v) of
                          (Some n, Some w) \<Rightarrow> [(n, w)] | _ \<Rightarrow> []) (config_headers (pc_config c)))
      else [])"

lemma set_headers_insert_all:
  "set_headers x hs m = insert_all (concat (map (\<lambda>(k, v). case (header_name x k, header_value x v) of
      (Some n, Some w) \<Rightarrow> [(n, w)] | _ \<Rightarrow> []) hs)) m"
  by (induction x hs m rule: set_headers.induct) (auto simp: insert_all_def split: option.split)

lemma insert_all_append: "insert_all (us @ vs) m = insert_all vs (insert_all us m)"
  by (simp add: insert_all_def)

lemma insert_all_Nil [simp]: "insert_all [] m = m"
  by (simp add: insert_all_def)

lemma load_plugins_total:
  "\<exists>ps. load_plugins x cs = Inr ps \<and>
     (\<forall>req. run_on_request ps req = Inr (Continue (req\<lparr> req_headers :=
        insert_all (concat (map (settings x ''request-headers'') cs)) (req_headers req) \<rparr>))) \<and>
     (\<forall>resp. run_on_response ps resp = Inr (resp\<lparr> resp_headers :=
        insert_all (concat (map (settings x ''response-headers'') (rev cs))) (resp_headers resp) \<rparr>))"
proof (induction cs)
  case Nil
  then show ?case by (simp add: run_on_response_def)
next
  case (Cons c cs)
  then obtain ps where ps: "load_plugins x cs = Inr ps"
    and req: "\<And>req. run_on_request ps req = Inr (Continue (req\<lparr> req_headers :=
        insert_all (concat (map (settings x ''request-headers'') cs)) (req_headers req) \<rparr>))"
    and resp: "\<And>resp. run_on_response ps resp = Inr (resp\<lparr> resp_headers :=
        insert_all (concat (map (settings x ''response-headers'') (rev cs))) (resp_headers resp) \<rparr>)"
    by blast
  have split: "run_on_response (p # ps) r = res_bind (run_on_response ps r) (run_on_response [p])" for p r
    using run_on_response_append [of "[p]" ps] by simp
  show ?case
  proof (cases "builtin_new (pc_name c)")
    case None
    then have "settings x ''request-headers'' c = []" "settings x ''response-headers'' c = []"
      by (simp_all add: settings_def builtin_new_def split: if_splits)
    then show ?thesis
      using None ps req resp by simp
  next
    case (Some b)
    then consider "pc_name c = ''request-logger''" "b = RequestLogger"
      | "pc_name c = ''request-headers''" "b = RequestHeaders []"
      | "pc_name c = ''response-headers''" "b = ResponseHeaders []"
      by (auto simp: builtin_new_def split: if_splits)
    then show ?thesis
    proof cases
      case 1
      have load: "load_plugins x (c # cs) = Inr (dyn_plugin x (RequestLogger) # ps)"
        using Some 1(2) ps by simp
      from 1 have "settings x ''request-headers'' c = []" "settings x ''response-headers'' c = []"
        by (simp_all add: settings_def)
      then show ?thesis
        unfolding load by (simp add: req resp split [of "dyn_plugin x RequestLogger"])
          (simp add: dyn_plugin_def run_on_response_def req)
    next
      case 2
      have load: "load_plugins x (c # cs) = Inr (dyn_plugin x (RequestHeaders (config_headers (pc_config c))) # ps)"
        using Some 2(2) ps by simp
      from 2 have "settings x ''response-headers'' c = []"
        and "\<And>m. set_headers x (config_headers (pc_config c)) m = insert_all (settings x ''request-headers'' c) m"
        by (simp_all add: settings_def set_headers_insert_all)
      then show ?thesis
        unfolding load by (simp add: resp split [of "dyn_plugin x _"])
          (simp add: dyn_plugin_def run_on_response_def req insert_all_append)
    next
      case 3
      have load: "load_plugins x (c # cs) = Inr (dyn_plugin x (ResponseHeaders (config_headers (pc_config c))) # ps)"
        using Some 3(2) ps by simp
      from 3 have "settings x ''request-headers'' c = []"
        and "\<And>m. set_headers x (config_headers (pc_config c)) m = insert_all (settings x ''response-headers'' c) m"
        by (simp_all add: settings_def set_headers_insert_all)
      then show ?thesis
        unfolding load by (simp add: resp split [of "dyn_plugin x _"])
          (simp add: dyn_plugin_def run_on_response_def req insert_all_append)
    qed
  qed
qed

definition last_setting :: "ext \<Rightarrow> string \<Rightarrow> plugin_config list \<Rightarrow> string \<Rightarrow> string option" where
  "last_setting x name cs n =
     (case header_values (concat (map (settings x name) cs)) n of [] \<Rightarrow> None | vs \<Rightarrow> Some (last vs))"

text \<open>C36. A chain built from configuration never fails to build, never rejects or fails a
  request, and changes nothing but headers.  A header takes the value of the last
  well-formed setting among the enabled entries in (\<^verbatim>\<open>order\<close>, declaration) order for
  requests, and in the reverse order for responses, so the entry with the smallest
  \<^verbatim>\<open>order\<close> has the last word on a response; headers nobody sets keep their values.\<close>

theorem configured_chain_spec:
  "\<exists>chain. build_plugin_chain x configs = Inr chain
    \<and> (\<exists>hs. run_on_request chain req = Inr (Continue (req\<lparr> req_headers := hs \<rparr>)) \<and>
         header_values hs n =
           (case last_setting x ''request-headers'' (sort_key pc_order (filter pc_enabled configs)) n of
              None \<Rightarrow> header_values (req_headers req) n | Some v \<Rightarrow> [v]))
    \<and> (\<exists>hs. run_on_response chain resp = Inr (resp\<lparr> resp_headers := hs \<rparr>) \<and>
         header_values hs n =
           (case last_setting x ''response-headers'' (rev (sort_key pc_order (filter pc_enabled configs))) n of
              None \<Rightarrow> header_values (resp_headers resp) n | Some v \<Rightarrow> [v]))"
proof -
  have val: "header_values (insert_all (concat (map (settings x name) cs)) m) n =
      (case last_setting x name cs n of None \<Rightarrow> header_values m n | Some v \<Rightarrow> [v])" for name cs m
    by (simp add: header_values_insert_all last_setting_def split: list.split)
  let ?cs = "sort_entries (filter pc_enabled configs)"
  obtain ps where build: "load_plugins x ?cs = Inr ps"
    and req_run: "run_on_request ps req = Inr (Continue (req\<lparr> req_headers :=
        insert_all (concat (map (settings x ''request-headers'') ?cs)) (req_headers req) \<rparr>))"
    and resp_run: "run_on_response ps resp = Inr (resp\<lparr> resp_headers :=
        insert_all (concat (map (settings x ''response-headers'') (rev ?cs))) (resp_headers resp) \<rparr>)"
    using load_plugins_total by blast
  show ?thesis
    unfolding sort_entries_def [symmetric]
  proof (intro exI conjI)
    show "build_plugin_chain x configs = Inr ps"
      using build by (simp add: build_plugin_chain_def)
  qed (rule req_run resp_run val)+
qed

text \<open>C35. Plugins wrap the proxy like the layers of an onion: the plugins are consulted in
  order until one answers, fails or panics, and no later plugin sees the request; a response
  passes them in the reverse order, and the first failure ends the run.\<close>

theorem chain_short_circuit:
  assumes "run_on_request us req = Inr (Continue req')"
  shows "(case pl_on_request p req' of
            CallOk (Continue r) \<Rightarrow> run_on_request (us @ p # vs) req = run_on_request vs r
          | CallOk (Respond resp) \<Rightarrow> run_on_request (us @ p # vs) req = Inr (Respond resp)
          | CallErr e \<Rightarrow> run_on_request (us @ p # vs) req = Inl e
          | CallPanic \<Rightarrow> run_on_request (us @ p # vs) req = Inl (plugin_panicked (pl_name p) ''on_request''))
    \<and> run_on_response (us @ p # vs) resp =
        (case run_on_response vs resp of
           Inl e \<Rightarrow> Inl e
         | Inr r \<Rightarrow> (case pl_on_response p r of
             CallOk r' \<Rightarrow> run_on_response us r'
           | CallErr e \<Rightarrow> Inl e
           | CallPanic \<Rightarrow> Inl (plugin_panicked (pl_name p) ''on_response'')))"
proof -
  have "run_on_response (us @ p # vs) resp =
      res_bind (res_bind (run_on_response vs resp) (run_on_response [p])) (run_on_response us)"
    using run_on_response_append [of us "p # vs"] run_on_response_append [of "[p]" vs] by simp
  then show ?thesis
    using assms by (auto simp: run_on_request_append res_bind_def run_on_response_def
        split: call.split request_action.split sum.split)
qed

definition blocking_plugin :: plugin where
  "blocking_plugin = \<lparr> pl_name = ''guard'', pl_on_request = (\<lambda>_. CallPanic), pl_on_response = CallOk \<rparr>"

theorem chain_short_circuit_witness:
  "run_on_request ([] @ blocking_plugin # [blocking_plugin])
      \<lparr> req_method = ''GET'', req_path = ''/'', req_query = None, req_headers = [], req_body = Inr [] \<rparr>
    = Inl (plugin_panicked ''guard'' ''on_request'')"
  using chain_short_circuit [of "[]" "\<lparr> req_method = ''GET'', req_path = ''/'', req_query = None,
      req_headers = [], req_body = Inr [] \<rparr>" _ blocking_plugin "[blocking_plugin]"]
  by (simp add: blocking_plugin_def)

end
