(* ===== verification/Websocket.thy ===== *)
theory Websocket
  imports Http
begin

text \<open>
  \<^verbatim>\<open>proxy/ws_proxy.rs\<close>: the handshake of a proxied WebSocket and the relay of frames.
  Connecting to the upstream is a parameter (the error text, if it fails).  The two relay
  loops run under \<^verbatim>\<open>select!\<close>: a step relation interleaves their iterations and
  stops when one of them ends.  The messages that will arrive on a connection are a list;
  the success of a send is a parameter.
\<close>

section \<open>Handshake\<close>

definition compute_accept_key_placeholder :: string where
  "compute_accept_key_placeholder = ''server''"

definition proxy_websocket ::
  "(string \<Rightarrow> string option) \<Rightarrow> request \<Rightarrow> string \<Rightarrow> string \<Rightarrow> proxy_error + response" where
  "proxy_websocket connect_error req upstream_base rewritten_path =
     (case connect_error (build_ws_url upstream_base rewritten_path (req_query req)) of
        Some e \<Rightarrow> Inl (WsUpgrade e)
      | None \<Rightarrow> Inr \<lparr> resp_status = 101,
                      resp_headers = [(''connection'', ''upgrade''), (''upgrade'', ''websocket''),
                                      (''sec-websocket-accept'', compute_accept_key_placeholder)],
                      resp_body = [] \<rparr>)"

section \<open>Relay\<close>

datatype ws_frame = WsClose string | WsData string

fun is_close :: "ws_frame \<Rightarrow> bool" where
  "is_close (WsClose _) = True"
| "is_close (WsData _) = False"

text \<open>One direction: messages still to arrive (or a read error), frames sent, whether the
  other side was closed, whether the loop has ended.\<close>

record direction =
  d_in :: "(string + ws_frame) list"
  d_out :: "ws_frame list"
  d_closed :: bool
  d_ended :: bool

definition start_direction :: "(string + ws_frame) list \<Rightarrow> direction" where
  "start_direction msgs = \<lparr> d_in = msgs, d_out = [], d_closed = False, d_ended = False \<rparr>"

text \<open>One iteration of \<^verbatim>\<open>while let Some(msg) = rx.next().await\<close>.\<close>

definition pump :: "(ws_frame list \<Rightarrow> ws_frame \<Rightarrow> bool) \<Rightarrow> direction \<Rightarrow> direction" where
  "pump send_ok d =
     (case d_in d of
        [] \<Rightarrow> d\<lparr> d_ended := True \<rparr>
      | Inl e # msgs \<Rightarrow> d\<lparr> d_in := msgs, d_ended := True \<rparr>
      | Inr frame # msgs \<Rightarrow>
          if is_close frame then d\<lparr> d_in := msgs, d_closed := True, d_ended := True \<rparr>
          else if send_ok (d_out d) frame then d\<lparr> d_in := msgs, d_out := d_out d @ [frame] \<rparr>
          else d\<lparr> d_in := msgs, d_ended := True \<rparr>)"

inductive relay_step ::
  "(ws_frame list \<Rightarrow> ws_frame \<Rightarrow> bool) \<Rightarrow> (ws_frame list \<Rightarrow> ws_frame \<Rightarrow> bool)
    \<Rightarrow> direction \<times> direction \<Rightarrow> direction \<times> direction \<Rightarrow> bool"
  for up_ok down_ok where
  c2u: "\<not> d_ended c \<Longrightarrow> \<not> d_ended u \<Longrightarrow> relay_step up_ok down_ok (c, u) (pump up_ok c, u)"
| u2c: "\<not> d_ended c \<Longrightarrow> \<not> d_ended u \<Longrightarrow> relay_step up_ok down_ok (c, u) (c, pump down_ok u)"

inductive_cases relay_stepE [elim!]: "relay_step up_ok down_ok (c, u) s"

text \<open>What a direction has done of its messages \<open>msgs\<close>.\<close>

definition relayed :: "(string + ws_frame) list \<Rightarrow> direction \<Rightarrow> bool" where
  "relayed msgs d =
     (list_all (\<lambda>f. \<not> is_close f) (d_out d) \<and>
      (if d_ended d then
         (if d_closed d then \<exists>f. is_close f \<and> msgs = map Inr (d_out d) @ Inr f # d_in d
          else prefix (map Inr (d_out d)) msgs)
       else \<not> d_closed d \<and> msgs = map Inr (d_out d) @ d_in d))"

lemma relayed_start: "relayed msgs (start_direction msgs)"
  by (simp add: relayed_def start_direction_def)

lemma relayed_pump: "relayed msgs d \<Longrightarrow> \<not> d_ended d \<Longrightarrow> relayed msgs (pump ok d)"
  by (auto simp: relayed_def pump_def split: list.splits sum.splits)

text \<open>C34. The relay is transparent in both directions, whatever the interleaving: each side
  has received a prefix of the other side's data frames, in order, none invented, repeated
  or dropped; a close frame is never relayed as data, a side is closed only because the
  other one's next message is a close frame, and the relay runs until exactly one
  direction has ended.\<close>

theorem relay_transparent:
  assumes "(relay_step up_ok down_ok)\<^sup>*\<^sup>* (start_direction from_client, start_direction from_upstream) (c, u)"
  shows "prefix (map Inr (d_out c)) from_client \<and> prefix (map Inr (d_out u)) from_upstream
    \<and> list_all (\<lambda>f. \<not> is_close f) (d_out c @ d_out u)
    \<and> (d_closed c \<longrightarrow> (\<exists>f rest. is_close f \<and> from_client = map Inr (d_out c) @ Inr f # rest))
    \<and> (d_closed u \<longrightarrow> (\<exists>f rest. is_close f \<and> from_upstream = map Inr (d_out u) @ Inr f # rest))
    \<and> \<not> (d_ended c \<and> d_ended u)
    \<and> ((\<exists>s. relay_step up_ok down_ok (c, u) s) \<longleftrightarrow> \<not> d_ended c \<and> \<not> d_ended u)"
proof -
  define good where "good s = (relayed from_client (fst s) \<and> relayed from_upstream (snd s)
      \<and> \<not> (d_ended (fst s) \<and> d_ended (snd s)))" for s
  have "good s" if "(relay_step up_ok down_ok)\<^sup>*\<^sup>* (start_direction from_client, start_direction from_upstream) s" for s
    using that
  proof (induction rule: rtranclp_induct)
    case base
    show ?case by (simp add: good_def relayed_start) (simp add: start_direction_def)
  next
    case (step s t)
    then show ?case
      by (cases s) (auto simp: good_def intro: relayed_pump)
  qed
  from this [OF assms] have "relayed from_client c" "relayed from_upstream u" "\<not> (d_ended c \<and> d_ended u)"
    by (auto simp: good_def)
  moreover have "(\<exists>s. relay_step up_ok down_ok (c, u) s) \<longleftrightarrow> \<not> d_ended c \<and> \<not> d_ended u"
    by (auto intro: relay_step.intros)
  ultimately show ?thesis
    by (auto simp: relayed_def split: if_splits)
qed

theorem relay_transparent_witness:
  "\<not> d_closed (pump (\<lambda>_ _. True) (start_direction [Inr (WsData ''hi''), Inl ''reset'']))"
proof -
  let ?c = "start_direction [Inr (WsData ''hi''), Inl ''reset'']" and ?u = "start_direction []"
  have "(relay_step (\<lambda>_ _. True) (\<lambda>_ _. True))\<^sup>*\<^sup>* (?c, ?u) (pump (\<lambda>_ _. True) ?c, ?u)"
    by (rule r_into_rtranclp) (auto intro!: c2u simp: start_direction_def)
  from relay_transparent [OF this] show ?thesis
    by (auto simp: pump_def start_direction_def)
qed

text \<open>The accept key of the handshake does not depend on the client's key: whenever the
  upstream accepts, the client is answered the constant \<^verbatim>\<open>server\<close>, so a client that
  checks the key against its own (as RFC 6455 asks) refuses the connection for every key but
  the ones that hash to it.\<close>

theorem websocket_accept_constant:
  assumes "proxy_websocket connect_error req base path = Inr resp"
  shows "header_values (resp_headers resp) ''sec-websocket-accept'' = [''server'']
    \<and> connect_error (build_ws_url base path (req_query req)) = None
    \<and> (\<forall>hs. proxy_websocket connect_error (req\<lparr> req_headers := hs \<rparr>) base path = Inr resp)"
  using assms
  by (auto simp: proxy_websocket_def compute_accept_key_placeholder_def split: option.splits)

theorem websocket_accept_constant_witness:
  "header_values (resp_headers (projr (proxy_websocket (\<lambda>_. None)
      \<lparr> req_method = ''GET'', req_path = ''/ws'', req_query = None,
        req_headers = [(''sec-websocket-key'', ''dGhlIHNhbXBsZSBub25jZQ=='')], req_body = Inr [] \<rparr>
      ''http://u'' ''/ws''))) ''sec-websocket-accept'' = [''server'']"
  using websocket_accept_constant [of "\<lambda>_. None" "\<lparr> req_method = ''GET'', req_path = ''/ws'', req_query = None,
        req_headers = [(''sec-websocket-key'', ''dGhlIHNhbXBsZSBub25jZQ=='')], req_body = Inr [] \<rparr>"
      "''http://u''" "''/ws''"]
  by (simp add: proxy_websocket_def)

end
