(* ===== verification/Handlers.thy ===== *)
theory Handlers
  imports Routing Breaker Metrics Selection Plugin Websocket
begin

text \<open>
  \<^verbatim>\<open>server/state.rs\<close> and \<^verbatim>\<open>server/handlers.rs\<close>: the shared state of the
  proxy, the retry loop and the handlers, composed of the operations of the other
  components.  A handler takes the state and returns the state after it; what the outside
  contributes to one request (clock readings, the exchange with the upstream at each
  attempt, a fresh request id, the random hash) is the record \<open>env\<close>.  The outer option of
  a result is a panic.
\<close>

section \<open>State\<close>

record app_state =
  st_router :: router_snapshot
  st_resolver :: multi_registry_resolver
  st_config :: app_config
  st_metrics :: proxy_metrics
  st_rr :: rr_counters
  st_breaker :: circuit_breaker_map
  st_plugins :: "plugin list"
  st_health :: health_status

definition app_state_new ::
  "router_snapshot \<Rightarrow> multi_registry_resolver \<Rightarrow> app_config \<Rightarrow> proxy_metrics \<Rightarrow> app_state" where
  "app_state_new router resolver cfg metrics =
     \<lparr> st_router = router, st_resolver = resolver, st_config = cfg, st_metrics = metrics,
       st_rr = Map.empty,
       st_breaker = circuit_breaker_new (circuit_breaker_threshold (server cfg))
                                        (circuit_breaker_recovery_secs (server cfg)),
       st_plugins = [], st_health = health_status_new \<rparr>"

record env =
  env_uuid :: string                        \<comment> \<open>\<^verbatim>\<open>Uuid::new_v4\<close>\<close>
  env_hash :: usize                         \<comment> \<open>output of the random hasher\<close>
  env_now :: u64                            \<comment> \<open>clock when the breaker is asked\<close>
  env_clock :: "nat \<Rightarrow> u64"                 \<comment> \<open>clock after attempt \<open>k\<close>\<close>
  env_send :: "nat \<Rightarrow> exchange"             \<comment> \<open>the upstream at attempt \<open>k\<close>\<close>
  env_rebuild_error :: "nat \<Rightarrow> string option"  \<comment> \<open>\<^verbatim>\<open>Request::builder\<close> at attempt \<open>k\<close>\<close>
  env_ws_connect :: "string \<Rightarrow> string option"  \<comment> \<open>error of \<^verbatim>\<open>connect_async\<close>\<close>

section \<open>The retry loop\<close>

text \<open>\<^verbatim>\<open>for attempt in 0..=max_retries\<close>, with \<open>left\<close> attempts to go.\<close>

fun retry_loop ::
  "env \<Rightarrow> request \<Rightarrow> string \<Rightarrow> string \<Rightarrow> (string \<times> string) list option \<Rightarrow> string
    \<Rightarrow> nat \<Rightarrow> nat \<Rightarrow> proxy_error option \<Rightarrow> circuit_breaker_map
    \<Rightarrow> (proxy_error + response) option \<times> circuit_breaker_map" where
  "retry_loop e rebuilt base path extra rid attempt 0 last_err cb = (map_option Inl last_err, cb)"
| "retry_loop e rebuilt base path extra rid attempt (Suc left) last_err cb =
     (case env_rebuild_error e attempt of
        Some err \<Rightarrow> (Some (Inl (UpstreamConnection err)), cb)
      | None \<Rightarrow>
          (case proxy_http (env_send e attempt) rebuilt base path extra rid of
             Inr resp \<Rightarrow> (Some (Inr resp), Breaker.record_success cb base)
           | Inl err \<Rightarrow> retry_loop e rebuilt base path extra rid (attempt + 1) left (Some err)
                          (Breaker.record_failure (env_clock e attempt) cb base)))"

definition proxy_with_retry ::
  "env \<Rightarrow> request \<Rightarrow> string \<Rightarrow> string \<Rightarrow> (string \<times> string) list option \<Rightarrow> string \<Rightarrow> u32
    \<Rightarrow> circuit_breaker_map \<Rightarrow> (proxy_error + response) option \<times> circuit_breaker_map" where
  "proxy_with_retry e req base path extra rid retries cb =
     (if retries = 0 then
        (let result = proxy_http (env_send e 0) req base path extra rid in
         case result of
           Inr resp \<Rightarrow> (Some (Inr resp), Breaker.record_success cb base)
         | Inl err \<Rightarrow> (Some (Inl err), Breaker.record_failure (env_clock e 0) cb base))
      else
        (case req_body req of
           Inl err \<Rightarrow> (Some (Inl (BodyRead err)), cb)
         | Inr body \<Rightarrow>
             retry_loop e (req\<lparr> req_body := Inr body \<rparr>) base path extra rid 0 (unat retries + 1) None cb))"

section \<open>The proxy handler\<close>

definition request_id_of :: "ext \<Rightarrow> env \<Rightarrow> request \<Rightarrow> string" where
  "request_id_of x e req =
     (case header_get (req_headers req) ''x-request-id'' of
        None \<Rightarrow> env_uuid e
      | Some v \<Rightarrow> (case value_to_str x v of None \<Rightarrow> env_uuid e | Some s \<Rightarrow> s))"

definition is_websocket_upgrade :: "ext \<Rightarrow> request \<Rightarrow> bool" where
  "is_websocket_upgrade x req =
     (case header_get (req_headers req) ''upgrade'' of
        None \<Rightarrow> False
      | Some v \<Rightarrow> (case value_to_str x v of None \<Rightarrow> False | Some s \<Rightarrow> eq_ignore_ascii_case s ''websocket''))"

definition count_failure :: "string \<Rightarrow> app_state \<Rightarrow> app_state" where
  "count_failure code st = st\<lparr> st_metrics := record_failure_reason code (st_metrics st) \<rparr>"

definition count_hit :: "string \<Rightarrow> app_state \<Rightarrow> app_state" where
  "count_hit rid st = st\<lparr> st_metrics := record_route_hit rid (st_metrics st) \<rparr>"

text \<open>Determine the base URL of the upstream; on an error the failure is already counted.\<close>

definition upstream_base_of ::
  "env \<Rightarrow> compiled_rule \<Rightarrow> string \<Rightarrow> app_state \<Rightarrow> (proxy_error + string) option \<times> app_state" where
  "upstream_base_of e rule path st =
     (case cr_upstream_url rule of
        Some url \<Rightarrow> (Some (Inr url), st)
      | None \<Rightarrow>
          (case cr_service_id rule of
             None \<Rightarrow> (Some (Inl (NoInstances path)), count_failure ''no_instances'' st)
           | Some svc_id \<Rightarrow>
               (case resolve_service (st_resolver st) svc_id of
                  Inl err \<Rightarrow> (Some (Inl (Registry err)), count_failure (failure_code_for_registry err) st)
                | Inr instances \<Rightarrow>
                    if instances = [] then
                      (Some (Inl (NoInstances svc_id)), count_failure ''no_instances'' st)
                    else
                      (let (inst, rr) = select_service_instance (env_hash e) instances svc_id
                             (instance_selection (server (st_config st))) (st_rr st) (st_health st);
                           st' = st\<lparr> st_rr := rr \<rparr>
                       in case inst of
                            None \<Rightarrow> (None, st')
                          | Some i \<Rightarrow> (Some (Inr (base_url i)), st')))))"

text \<open>The exchange with the chosen upstream, guarded by the circuit breaker.\<close>

definition forward ::
  "ext \<Rightarrow> env \<Rightarrow> compiled_rule \<Rightarrow> request \<Rightarrow> string \<Rightarrow> string \<Rightarrow> string \<Rightarrow> app_state
    \<Rightarrow> (proxy_error + response) option \<times> app_state" where
  "forward x e rule req rid path upstream_base st =
     (let rewritten_path = rewrite_path rule path;
          (ok, cb) = allow (env_now e) (st_breaker st) upstream_base;
          st1 = st\<lparr> st_breaker := cb \<rparr>
      in if \<not> ok then
           (Some (Inl (UpstreamConnection (''circuit breaker open for '' @ upstream_base))),
            count_failure ''circuit_breaker_open'' st1)
         else
           (let (res, st2) =
              (if is_websocket_upgrade x req
               then (Some (proxy_websocket (env_ws_connect e) req upstream_base rewritten_path), st1)
               else (let (res, cb') = proxy_with_retry e req upstream_base rewritten_path
                           (cr_response_headers rule) rid (max_retries (server (st_config st1))) cb
                     in (res, st1\<lparr> st_breaker := cb' \<rparr>)))
            in case res of
                 Some (Inl err) \<Rightarrow> (Some (Inl err), count_failure (failure_code_for_proxy err) st2)
               | _ \<Rightarrow> (res, st2)))"

text \<open>Plugins on the response, then the echo of the request id.\<close>

definition finish_response :: "ext \<Rightarrow> string \<Rightarrow> plugin list \<Rightarrow> response \<Rightarrow> proxy_error + response" where
  "finish_response x rid chain res =
     res_bind (if chain \<noteq> [] then
                 (case run_on_response chain res of Inl err \<Rightarrow> Inl (PluginError err) | Inr r \<Rightarrow> Inr r)
               else Inr res)
       (\<lambda>r. Inr (case header_value x rid of
                   Some val \<Rightarrow> r\<lparr> resp_headers := header_insert ''x-request-id'' val (resp_headers r) \<rparr>
                 | None \<Rightarrow> r))"

definition proxy_handler ::
  "ext \<Rightarrow> env \<Rightarrow> app_state \<Rightarrow> request \<Rightarrow> (proxy_error + response) option \<times> app_state" where
  "proxy_handler x e st req0 =
     (let path = req_path req0; method = req_method req0; rid = request_id_of x e req0;
          plugged = (if st_plugins st \<noteq> [] then run_on_request (st_plugins st) req0
                     else Inr (Continue req0))
      in case plugged of
           Inl err \<Rightarrow> (Some (Inl (PluginError err)), st)
         | Inr (Respond resp) \<Rightarrow> (Some (Inr resp), st)
         | Inr (Continue req) \<Rightarrow>
             (case resolve x (st_router st) path method (req_headers req) of
                None \<Rightarrow> (Some (Inl (NoInstances path)), count_failure ''no_matching_route'' st)
              | Some rule \<Rightarrow>
                  (let st1 = count_hit (cr_id rule) st;
                       (base, st2) = upstream_base_of e rule path st1
                   in case base of
                        None \<Rightarrow> (None, st2)
                      | Some (Inl err) \<Rightarrow> (Some (Inl err), st2)
                      | Some (Inr upstream_base) \<Rightarrow>
                          (let (res, st3) = forward x e rule req rid path upstream_base st2
                           in case res of
                                Some (Inr r) \<Rightarrow> (Some (finish_response x rid (st_plugins st3) r), st3)
                              | _ \<Rightarrow> (res, st3)))))"

section \<open>The other handlers\<close>

definition health_handler :: "nat \<times> json" where
  "health_handler = (200, JObj [(''status'', JStr ''ok'')])"

definition ready_handler :: "app_state \<Rightarrow> nat \<times> json" where
  "ready_handler st =
     (if sources (registries (st_config st)) = [] then
        (200, JObj [(''registries'', JInt 0), (''status'', JStr ''ready'')])
      else
        (let report = health_report (st_resolver st);
             rows = map (\<lambda>(p, k, h). registry_health_json_row p k h) report;
             n = int (length rows)
         in if any_registry_operational report then
              (200, JObj [(''registries'', JInt n), (''registry_health'', JArr rows),
                          (''status'', JStr ''ready'')])
            else
              (503, JObj [(''reason'', JStr ''all_registries_unhealthy''), (''registries'', JInt n),
                          (''registry_health'', JArr rows), (''status'', JStr ''not_ready'')])))"

definition snapshot_json :: "metrics_snapshot \<Rightarrow> json" where
  "snapshot_json s =
     JObj [(''failure_reasons'', JObj (map (\<lambda>(k, c). (k, JInt (uint c))) (ms_failure_reasons s))),
           (''route_hits'', JObj (map (\<lambda>(k, c). (k, JInt (uint c))) (ms_route_hits s)))]"

definition metrics_handler :: "string list \<Rightarrow> string list \<Rightarrow> app_state \<Rightarrow> nat \<times> json" where
  "metrics_handler ks fs st = (200, snapshot_json (snapshot ks fs (st_metrics st)))"

definition metrics_prometheus_handler :: "string list \<Rightarrow> string list \<Rightarrow> app_state \<Rightarrow> nat \<times> header_map \<times> string" where
  "metrics_prometheus_handler ks fs st =
     (200, header_insert ''content-type'' ''text/plain; version=0.0.4; charset=utf-8'' [],
      render_prometheus (snapshot ks fs (st_metrics st)))"

section \<open>Retrying\<close>

text \<open>The outcome of attempt \<open>k\<close> on its own, and the breaker after \<open>n\<close> failed attempts.\<close>

definition attempt_result ::
  "env \<Rightarrow> request \<Rightarrow> string \<Rightarrow> string \<Rightarrow> (string \<times> string) list option \<Rightarrow> string \<Rightarrow> nat
    \<Rightarrow> proxy_error + response" where
  "attempt_result e req base path extra rid k = proxy_http (env_send e k) req base path extra rid"

definition after_failures :: "env \<Rightarrow> string \<Rightarrow> nat \<Rightarrow> circuit_breaker_map \<Rightarrow> circuit_breaker_map" where
  "after_failures e u n cb = fold (\<lambda>t b. Breaker.record_failure t b u) (map (env_clock e) [0..<n]) cb"

lemma after_failures_Suc [simp]:
  "after_failures e u (Suc n) cb = Breaker.record_failure (env_clock e n) (after_failures e u n cb) u"
  by (simp add: after_failures_def)

lemma after_failures_0 [simp]: "after_failures e u 0 cb = cb"
  by (simp add: after_failures_def)

lemma retry_loop_run:
  assumes "\<forall>k. env_rebuild_error e k = None"
    and "\<forall>k<attempt. \<exists>err. attempt_result e req base path extra rid k = Inl err"
    and "last_err = (if attempt = 0 then None
                     else Some (projl (attempt_result e req base path extra rid (attempt - 1))))"
    and "0 < attempt + left"
  shows "retry_loop e req base path extra rid attempt left last_err (after_failures e base attempt cb) =
    (if \<exists>k<attempt + left. \<exists>r. attempt_result e req base path extra rid k = Inr r
     then (let k = (LEAST k. \<exists>r. attempt_result e req base path extra rid k = Inr r)
           in (Some (attempt_result e req base path extra rid k),
               Breaker.record_success (after_failures e base k cb) base))
     else (Some (attempt_result e req base path extra rid (attempt + left - 1)),
           after_failures e base (attempt + left) cb))"
  using assms(2-)
proof (induction left arbitrary: attempt last_err)
  case 0
  then obtain j where j: "attempt = Suc j" by (cases attempt) auto
  with 0 obtain err where "attempt_result e req base path extra rid j = Inl err" by auto
  moreover have "\<not> (\<exists>k<attempt. \<exists>r. attempt_result e req base path extra rid k = Inr r)"
    using "0.prems"(1) by (metis Inl_Inr_False)
  ultimately show ?case
    using 0 j by auto
next
  case (Suc left)
  show ?case
  proof (cases "attempt_result e req base path extra rid attempt")
    case (Inr r)
    have "(LEAST k. \<exists>r. attempt_result e req base path extra rid k = Inr r) = attempt"
    proof (rule Least_equality)
      show "\<exists>r. attempt_result e req base path extra rid attempt = Inr r" using Inr by blast
      show "attempt \<le> k" if "\<exists>r. attempt_result e req base path extra rid k = Inr r" for k
        using that Suc.prems(1) by (metis Inl_Inr_False not_le)
    qed
    moreover have "\<exists>k<attempt + Suc left. \<exists>r. attempt_result e req base path extra rid k = Inr r"
      using Inr by (intro exI [of _ attempt]) simp
    ultimately show ?thesis
      using Inr assms(1) by (simp add: attempt_result_def Let_def)
  next
    case (Inl err)
    have "\<forall>k<Suc attempt. \<exists>err. attempt_result e req base path extra rid k = Inl err"
      using Suc.prems(1) Inl by (auto simp: less_Suc_eq)
    from Suc.IH [OF this, of "Some err"] Inl assms(1) show ?thesis
      by (simp add: attempt_result_def cong: if_cong split del: if_split)
  qed
qed

lemma retry_run:
  assumes "req_body req = Inr body" and "\<forall>k. env_rebuild_error e k = None"
  shows "proxy_with_retry e req base path extra rid retries cb =
    (if \<exists>k\<le>unat retries. \<exists>r. attempt_result e req base path extra rid k = Inr r
     then (let k = (LEAST k. \<exists>r. attempt_result e req base path extra rid k = Inr r)
           in (Some (attempt_result e req base path extra rid k), Breaker.record_success (after_failures e base k cb) base))
     else (Some (attempt_result e req base path extra rid (unat retries)), after_failures e base (unat retries + 1) cb))"
proof (cases "retries = 0")
  case False
  have same: "req\<lparr> req_body := Inr body \<rparr> = req" using assms(1) by simp
  have "proxy_with_retry e req base path extra rid retries cb =
      retry_loop e req base path extra rid 0 (unat retries + 1) None (after_failures e base 0 cb)"
    using False assms(1) by (simp add: proxy_with_retry_def same del: retry_loop.simps)
  then show ?thesis
    using retry_loop_run [OF assms(2), of 0 req base path extra rid None "unat retries + 1" cb]
    by (simp add: less_Suc_eq_le del: retry_loop.simps cong: if_cong split del: if_split)
next
  case True
  show ?thesis
  proof (cases "attempt_result e req base path extra rid 0")
    case (Inl err)
    with True show ?thesis
      by (simp add: proxy_with_retry_def attempt_result_def)
  next
    case (Inr r)
    then have "(LEAST k. \<exists>r. attempt_result e req base path extra rid k = Inr r) = 0"
      by (intro Least_equality) auto
    with True Inr show ?thesis
      by (simp add: proxy_with_retry_def attempt_result_def)
  qed
qed

text \<open>C2. The retry loop makes at most \<open>max_retries + 1\<close> attempts and returns the first
  response it gets (whatever its status), or the error of the last attempt.  The breaker
  sees one failure per failed attempt, at its time, and one success at the end if there was
  one; it never panics.\<close>

theorem retry_returns_first_response:
  assumes "req_body req = Inr body" and "\<forall>k. env_rebuild_error e k = None"
    and out_def: "out = attempt_result e req base path extra rid"
  shows "proxy_with_retry e req base path extra rid retries cb =
    (if \<exists>k\<le>unat retries. \<exists>r. out k = Inr r
     then (let k = (LEAST k. \<exists>r. out k = Inr r)
           in (Some (out k), Breaker.record_success (after_failures e base k cb) base))
     else (Some (out (unat retries)), after_failures e base (unat retries + 1) cb))"
  unfolding out_def by (rule retry_run [OF assms(1,2)])

definition example_request :: request where
  "example_request = \<lparr> req_method = ''GET'', req_path = ''/'', req_query = None, req_headers = [],
     req_body = Inr ''x'' \<rparr>"

text \<open>An upstream that refuses the first connection and then answers 500.\<close>

definition example_env :: env where
  "example_env = \<lparr> env_uuid = ''id'', env_hash = 0, env_now = 0, env_clock = of_nat,
     env_send = (\<lambda>k _. if k = 0 then Inl ''refused''
       else Inr \<lparr> resp_status = 500, resp_headers = [], resp_body = [] \<rparr>),
     env_rebuild_error = (\<lambda>_. None), env_ws_connect = (\<lambda>_. None) \<rparr>"

lemma example_attempts:
  "attempt_result example_env example_request base path None rid k =
     (if k = 0 then Inl (UpstreamConnection ''refused'')
      else Inr \<lparr> resp_status = 500, resp_headers = [], resp_body = [] \<rparr>)"
  by (simp add: attempt_result_def proxy_http_def example_env_def example_request_def return_headers_def
      insert_all_def)

lemma example_least:
  "(LEAST k. \<exists>r. attempt_result example_env example_request ''http://u'' ''/'' None ''id'' k = Inr r) = 1"
  "\<exists>k\<le>3. \<exists>r. attempt_result example_env example_request ''http://u'' ''/'' None ''id'' k = Inr r"
proof -
  show "(LEAST k. \<exists>r. attempt_result example_env example_request ''http://u'' ''/'' None ''id'' k = Inr r) = 1"
    by (rule Least_equality) (auto simp: example_attempts split: if_splits)
  show "\<exists>k\<le>3. \<exists>r. attempt_result example_env example_request ''http://u'' ''/'' None ''id'' k = Inr r"
    by (intro exI [of _ 1]) (simp add: example_attempts)
qed

lemma example_retry:
  "fst (proxy_with_retry example_env example_request ''http://u'' ''/'' None ''id'' 3 cb)
     = Some (Inr \<lparr> resp_status = 500, resp_headers = [], resp_body = [] \<rparr>)"
  using retry_run [of example_request "''x''" example_env "''http://u''" "''/''" None "''id''" 3 cb] example_least
  by (simp add: example_attempts) (simp add: example_env_def example_request_def)

theorem retry_returns_first_response_witness:
  "fst (proxy_with_retry example_env example_request ''http://u'' ''/'' None ''id'' 3 (circuit_breaker_new 0 0))
     = Some (Inr \<lparr> resp_status = 500, resp_headers = [], resp_body = [] \<rparr>)"
  using retry_returns_first_response [of example_request "''x''" example_env _ "''http://u''" "''/''" None "''id''" 3
        "circuit_breaker_new 0 0"] example_least
  by (simp add: example_attempts) (simp add: example_env_def example_request_def)

lemma after_failures_count:
  assumes "cb_threshold cb \<noteq> 0"
  shows "failures_of (after_failures e u n cb) v = (if v = u then failures_of cb u + of_nat n else failures_of cb v)"
  using cb.fails_fold_fail [OF assms, of u "map (env_clock e) [0..<n]" v] by (simp add: after_failures_def)

lemma after_failures_limit: "cb_threshold (after_failures e u n cb) = cb_threshold cb"
  using cb.limit_fold_fail [of u "map (env_clock e) [0..<n]" cb] by (simp add: after_failures_def)

text \<open>What one request teaches the breaker about its upstream: a response resets the count
  and the upstream is admitted at once, whatever failures came before it; a failure of all
  attempts adds every one of them (\<open>max_retries + 1\<close>) to the count; no other upstream is
  touched.\<close>

theorem retry_feeds_breaker:
  assumes "req_body req = Inr body" and "\<forall>k. env_rebuild_error e k = None" and "cb_threshold cb \<noteq> 0"
    and "proxy_with_retry e req base path extra rid retries cb = (res, cb')"
  shows "(case res of
            Some (Inr r) \<Rightarrow> failures_of cb' base = 0 \<and> (\<forall>t. fst (allow t cb' base))
          | Some (Inl err) \<Rightarrow> failures_of cb' base = failures_of cb base + of_nat (unat retries + 1)
          | None \<Rightarrow> False)
    \<and> (\<forall>v. v \<noteq> base \<longrightarrow> failures_of cb' v = failures_of cb v)"
proof -
  let ?out = "attempt_result e req base path extra rid"
  have run: "(res, cb') = (if \<exists>k\<le>unat retries. \<exists>r. ?out k = Inr r
     then (let k = (LEAST k. \<exists>r. ?out k = Inr r)
           in (Some (?out k), Breaker.record_success (after_failures e base k cb) base))
     else (Some (?out (unat retries)), after_failures e base (unat retries + 1) cb))"
    using retry_run [OF assms(1,2)] assms(4) by simp
  show ?thesis
  proof (cases "\<exists>k\<le>unat retries. \<exists>r. ?out k = Inr r")
    case True
    define k where "k = (LEAST k. \<exists>r. ?out k = Inr r)"
    from True have "\<exists>k r. ?out k = Inr r" by blast
    then have "\<exists>r. ?out k = Inr r" unfolding k_def by (rule LeastI_ex)
    with run True have "\<exists>r. res = Some (Inr r)"
      and cb': "cb' = Breaker.record_success (after_failures e base k cb) base"
      by (auto simp: k_def Let_def)
    moreover have "failures_of cb' v = (if v = base then 0 else failures_of cb v)" for v
      unfolding cb' using assms(3)
      by (simp add: cb.succeed_fails after_failures_limit after_failures_count)
    moreover have "fst (allow t cb' base)" for t
      unfolding cb' by (rule cb.admits_after_success)
    ultimately show ?thesis by auto
  next
    case False
    then obtain err where "?out (unat retries) = Inl err"
      by (metis order_refl sum.exhaust)
    with run False have "res = Some (Inl err)" "cb' = after_failures e base (unat retries + 1) cb"
      by auto
    then show ?thesis
      using assms(3) by (simp add: after_failures_count del: after_failures_Suc)
  qed
qed

theorem retry_feeds_breaker_witness:
  "\<forall>t. fst (allow t (snd (proxy_with_retry example_env example_request ''http://u'' ''/'' None ''id'' 3
      (circuit_breaker_new 1 30))) ''http://u'')"
proof -
  let ?run = "proxy_with_retry example_env example_request ''http://u'' ''/'' None ''id'' 3 (circuit_breaker_new 1 30)"
  have "proxy_with_retry example_env example_request ''http://u'' ''/'' None ''id'' 3 (circuit_breaker_new 1 30)
      = (Some (Inr \<lparr> resp_status = 500, resp_headers = [], resp_body = [] \<rparr>), snd ?run)"
    by (rule prod_eqI) (simp_all only: example_retry fst_conv snd_conv)
  from retry_feeds_breaker [OF _ _ _ this] show ?thesis
    by (simp add: example_env_def example_request_def circuit_breaker_new_def)
qed

text \<open>A request body the client fails to deliver is charged to the upstream: without
  retries the breaker counts it as a failure of the upstream, which was never contacted;
  with retries configured it counts nothing.\<close>

theorem unreadable_body_blames_upstream:
  assumes "req_body req = Inl err" and "cb_threshold cb \<noteq> 0"
  shows "fst (proxy_with_retry e req base path extra rid retries cb) = Some (Inl (BodyRead err))
    \<and> failures_of (snd (proxy_with_retry e req base path extra rid retries cb)) base =
        (if retries = 0 then failures_of cb base + 1 else failures_of cb base)"
  using assms by (simp add: proxy_with_retry_def proxy_http_def cb.fail_fails)

theorem unreadable_body_blames_upstream_witness:
  "failures_of (snd (proxy_with_retry example_env (example_request\<lparr> req_body := Inl ''reset'' \<rparr>) ''http://u'' ''/''
      None ''id'' 0 (circuit_breaker_new 1 30))) ''http://u'' = 1"
  using unreadable_body_blames_upstream [of "example_request\<lparr> req_body := Inl ''reset'' \<rparr>" "''reset''"
      "circuit_breaker_new 1 30" example_env "''http://u''" "''/''" None "''id''" 0]
  by (simp add: circuit_breaker_new_def failures_of_def break_entry_def fresh_break_state_def)

section \<open>What the handler counts\<close>

fun plugin_failure :: "proxy_error \<Rightarrow> bool" where
  "plugin_failure (PluginError _) = True"
| "plugin_failure _ = False"

lemma proxy_http_errors: "proxy_http send req base path extra rid = Inl err \<Longrightarrow> \<not> plugin_failure err"
  by (auto simp: proxy_http_def split: sum.splits)

lemma retry_loop_errors:
  "retry_loop e req base path extra rid k left last_err cb = (Some (Inl err), cb') \<Longrightarrow>
     (\<forall>l. last_err = Some l \<longrightarrow> \<not> plugin_failure l) \<Longrightarrow> \<not> plugin_failure err"
  by (induction e req base path extra rid k left last_err cb rule: retry_loop.induct)
     (auto split: option.splits sum.splits dest: proxy_http_errors)

lemma retry_loop_response:
  "retry_loop e req base path extra rid k left last_err cb = (Some (Inr r), cb') \<Longrightarrow>
     \<exists>j. proxy_http (env_send e j) req base path extra rid = Inr r"
  by (induction e req base path extra rid k left last_err cb rule: retry_loop.induct)
     (auto split: option.splits sum.splits)

lemma retry_loop_answers:
  "last_err \<noteq> None \<or> left \<noteq> 0 \<Longrightarrow> fst (retry_loop e req base path extra rid k left last_err cb) \<noteq> None"
  by (induction e req base path extra rid k left last_err cb rule: retry_loop.induct)
     (auto split: option.splits sum.splits)

lemma proxy_with_retry_cases:
  assumes "proxy_with_retry e req base path extra rid retries cb = (res, cb')"
  shows "case res of None \<Rightarrow> False
    | Some (Inl err) \<Rightarrow> \<not> plugin_failure err
    | Some (Inr r) \<Rightarrow> \<exists>send req. proxy_http send req base path extra rid = Inr r"
proof -
  consider (once) "retries = 0" | (unread) err where "req_body req = Inl err" "retries \<noteq> 0"
    | (loop) body where "req_body req = Inr body" "retries \<noteq> 0"
    by (cases "req_body req") auto
  then show ?thesis
  proof cases
    case once
    with assms show ?thesis
      by (auto simp: proxy_with_retry_def split: sum.splits dest: proxy_http_errors) blast
  next
    case unread
    with assms show ?thesis by (auto simp: proxy_with_retry_def)
  next
    case loop
    then have run: "retry_loop e (req\<lparr> req_body := Inr body \<rparr>) base path extra rid 0 (unat retries + 1) None cb
        = (res, cb')"
      using assms by (simp add: proxy_with_retry_def del: retry_loop.simps)
    then have "res \<noteq> None"
      using retry_loop_answers [of None "unat retries + 1"] by (metis add_is_0 fst_conv one_neq_zero)
    then obtain out where out: "res = Some out" by blast
    show ?thesis
    proof (cases out)
      case (Inl err)
      with run out retry_loop_errors show ?thesis by fastforce
    next
      case (Inr r)
      with run out retry_loop_response show ?thesis by fastforce
    qed
  qed
qed

definition counted :: "(proxy_error + 'a) option \<Rightarrow> app_state \<Rightarrow> app_state \<Rightarrow> bool" where
  "counted res st st' =
     (route_hits (st_metrics st') = route_hits (st_metrics st) \<and>
      (case res of
         Some (Inl err) \<Rightarrow> \<not> plugin_failure err \<and> (\<exists>code \<in> {failure_code_for_proxy err, ''no_matching_route'',
             ''circuit_breaker_open''}. failure_reasons (st_metrics st') = count_up code (failure_reasons (st_metrics st)))
       | _ \<Rightarrow> failure_reasons (st_metrics st') = failure_reasons (st_metrics st)))"

lemma count_failure_simps [simp]:
  "route_hits (st_metrics (count_failure c st)) = route_hits (st_metrics st)"
  "failure_reasons (st_metrics (count_failure c st)) = count_up c (failure_reasons (st_metrics st))"
  "route_hits (st_metrics (count_hit r st)) = count_up r (route_hits (st_metrics st))"
  "failure_reasons (st_metrics (count_hit r st)) = failure_reasons (st_metrics st)"
  "st_plugins (count_failure c st) = st_plugins st" "st_plugins (count_hit r st) = st_plugins st"
  "st_resolver (count_hit r st) = st_resolver st" "st_breaker (count_hit r st) = st_breaker st"
  by (simp_all add: count_failure_def count_hit_def record_failure_reason_def record_route_hit_def)

lemma upstream_base_counted: "upstream_base_of e rule path st = (res, st') \<Longrightarrow> counted res st st'"
  by (auto simp: upstream_base_of_def counted_def Let_def split: option.splits sum.splits if_splits prod.splits)

lemma forward_counted:
  assumes "forward x e rule req rid path base st = (res, st')"
  shows "counted res st st' \<and> res \<noteq> None"
proof -
  obtain ok cb where a: "allow (env_now e) (st_breaker st) base = (ok, cb)" by force
  obtain res' cb' where r: "proxy_with_retry e req base (rewrite_path rule path) (cr_response_headers rule)
      rid (max_retries (server (st_config st))) cb = (res', cb')" by force
  show ?thesis
    using assms proxy_with_retry_cases [OF r]
    by (auto simp: forward_def a r Let_def counted_def proxy_websocket_def
        split: if_splits option.splits sum.splits)
qed

definition accounted :: "app_state \<Rightarrow> (proxy_error + response) option \<Rightarrow> app_state \<Rightarrow> bool" where
  "accounted st res st' \<longleftrightarrow>
     (case res of
        Some (Inl err) \<Rightarrow>
          (if plugin_failure err then failure_reasons (st_metrics st') = failure_reasons (st_metrics st)
           else \<exists>code \<in> {failure_code_for_proxy err, ''no_matching_route'', ''circuit_breaker_open''}.
                  failure_reasons (st_metrics st') = count_up code (failure_reasons (st_metrics st)))
      | _ \<Rightarrow> failure_reasons (st_metrics st') = failure_reasons (st_metrics st)) \<and>
     (route_hits (st_metrics st') = route_hits (st_metrics st) \<or>
      (\<exists>rule \<in> set (rules (st_router st)).
         route_hits (st_metrics st') = count_up (cr_id rule) (route_hits (st_metrics st))))"

lemma finish_response_failure: "finish_response x rid ps resp = Inl err \<Longrightarrow> plugin_failure err"
  by (auto simp: finish_response_def res_simps split: if_splits sum.splits)

lemma routed_accounted:
  assumes "proxy_handler x e st req = (res, st')"
    and go: "(if st_plugins st \<noteq> [] then run_on_request (st_plugins st) req else Inr (Continue req)) = Inr (Continue req')"
    and Some: "resolve x (st_router st) (req_path req) (req_method req) (req_headers req') = Some rule"
  shows "accounted st res st'"
proof -
  have rule: "rule \<in> set (rules (st_router st))"
    using Some resolve_member by blast
  let ?st1 = "count_hit (cr_id rule) st"
  obtain b st2 where base: "upstream_base_of e rule (req_path req) ?st1 = (b, st2)" by force
  note c1 = upstream_base_counted [OF base]
  show ?thesis
  proof (cases "\<exists>u. b = Some (Inr u)")
    case False
    then consider "b = None" | err where "b = Some (Inl err)"
      by (metis option.exhaust sum.exhaust)
    then show ?thesis
      using assms base c1 rule
      by cases (auto simp: proxy_handler_def Let_def counted_def accounted_def)
  next
    case True
    then obtain u where u: "b = Some (Inr u)" by blast
    obtain r st3 where fwd: "forward x e rule req' (request_id_of x e req) (req_path req) u st2 = (r, st3)"
      by force
    note c2 = forward_counted [OF fwd]
    obtain out where out: "r = Some out" using c2 by auto
    show ?thesis
    proof (cases out)
      case (Inl err)
      with assms base u fwd out c1 c2 rule show ?thesis
        by (auto simp: proxy_handler_def Let_def counted_def accounted_def)
    next
      case (Inr resp)
      have st': "st' = st3" "res = Some (finish_response x (request_id_of x e req) (st_plugins st3) resp)"
        using assms base u fwd out Inr by (auto simp: proxy_handler_def Let_def)
      show ?thesis
        using c1 c2 rule u out Inr finish_response_failure unfolding st'
        by (cases "finish_response x (request_id_of x e req) (st_plugins st3) resp")
           (auto simp: counted_def accounted_def)
    qed
  qed
qed

text \<open>Every answer is accounted for exactly once.  A request that reaches a route adds one
  hit to that route and nothing to others; an error answer adds one to exactly one failure
  reason (its own code, or the two codes of the handler itself) and a response adds to none.
  The errors of plugins are the exception: they are not counted at all.\<close>

theorem handler_counts_once:
  assumes "proxy_handler x e st req = (res, st')"
  shows "(case res of
       Some (Inl err) \<Rightarrow>
         (if plugin_failure err then failure_reasons (st_metrics st') = failure_reasons (st_metrics st)
          else \<exists>code \<in> {failure_code_for_proxy err, ''no_matching_route'', ''circuit_breaker_open''}.
                 failure_reasons (st_metrics st') = count_up code (failure_reasons (st_metrics st)))
     | _ \<Rightarrow> failure_reasons (st_metrics st') = failure_reasons (st_metrics st))
    \<and> (route_hits (st_metrics st') = route_hits (st_metrics st) \<or>
        (\<exists>rule \<in> set (rules (st_router st)).
           route_hits (st_metrics st') = count_up (cr_id rule) (route_hits (st_metrics st))))"
proof -
  let ?plugged = "if st_plugins st \<noteq> [] then run_on_request (st_plugins st) req else Inr (Continue req)"
  consider (plugin) err where "?plugged = Inl err" | (early) r where "?plugged = Inr (Respond r)"
    | (go) req' where "?plugged = Inr (Continue req')"
    by (metis request_action.exhaust sum.exhaust)
  then have "accounted st res st'"
  proof cases
    case (go req')
    show ?thesis
    proof (cases "resolve x (st_router st) (req_path req) (req_method req) (req_headers req')")
      case None
      with go assms show ?thesis by (auto simp: proxy_handler_def Let_def accounted_def)
    next
      case (Some rule)
      with assms go show ?thesis by (rule routed_accounted)
    qed
  qed (use assms in \<open>auto simp: proxy_handler_def Let_def accounted_def\<close>)
  then show ?thesis by (simp only: accounted_def)
qed

text \<open>A state with one route to a fixed upstream, and one registry that is down.\<close>

definition example_rule :: compiled_rule where
  "example_rule = \<lparr> cr_id = ''r'', cr_path = CPrefix ''/'', cr_methods = None, cr_headers = None,
     cr_service_id = None, cr_upstream_url = Some ''http://u'', cr_strip_prefix = None,
     cr_response_headers = None, cr_priority = 0 \<rparr>"

definition example_config :: app_config where
  "example_config = default_app_config\<lparr>
     registries := \<lparr> query_mode = Priority, sources = [Model.Mock \<lparr> mc_priority = 1, mc_services = [],
        mc_error_services = [], mc_health_behavior = MockUnhealthy [] \<rparr>] \<rparr>,
     routes := [\<lparr> rule_id = ''r'', rule_path = Prefix ''/'', rule_methods = None, rule_headers = None,
        rule_service_id = None, rule_upstream_url = Some ''http://u'', rule_strip_prefix = None,
        rule_response_headers = None, rule_priority = 0 \<rparr>] \<rparr>"

definition example_state :: app_state where
  "example_state = app_state_new \<lparr> rules = [example_rule] \<rparr>
     (resolver_new [(1, mock_registry \<lparr> mc_priority = 1, mc_services = [], mc_error_services = [],
        mc_health_behavior = MockUnhealthy [] \<rparr>)] Priority) example_config default_metrics"

lemma example_compiles: "from_config example_ext example_config = Inr \<lparr> rules = [example_rule] \<rparr>"
  by (simp add: from_config_def example_config_def compile_def example_rule_def sort_rules_def)

lemma example_resolve:
  "resolve example_ext (st_router example_state) ''/'' m hs = Some example_rule"
  by (simp add: resolve_def example_state_def app_state_new_def example_rule_def rule_matches_def
      starts_with_def)

lemmas example_state_simps = example_state_def app_state_new_def example_config_def default_app_config_def
  default_server_config_def

definition example_upstream :: exchange where
  "example_upstream = (\<lambda>_. Inr \<lparr> resp_status = 200,
      resp_headers = [(''set-cookie'', ''a''), (''set-cookie'', ''b''), (''te'', ''x'')], resp_body = [] \<rparr>)"

lemma example_reply:
  "fst (proxy_handler example_ext (example_env\<lparr> env_send := (\<lambda>_. example_upstream) \<rparr>) example_state example_request) =
    Some (Inr \<lparr> resp_status = 200, resp_headers = [(''set-cookie'', ''b''), (''x-request-id'', ''id'')],
       resp_body = [] \<rparr>)"
  by code_simp

section \<open>What reaches the client\<close>

lemma proxy_http_headers:
  "proxy_http send req base path extra rid = Inr r \<Longrightarrow> \<exists>hs. resp_headers r = return_headers hs extra"
  by (auto simp: proxy_http_def split: sum.splits)

lemma handler_http_response:
  assumes "proxy_handler x e st req = (Some (Inr r), st')" and "st_plugins st = []"
    and "\<not> is_websocket_upgrade x req"
  shows "\<exists>rule hs r0. resolve x (st_router st) (req_path req) (req_method req) (req_headers req) = Some rule
    \<and> resp_headers r0 = return_headers hs (cr_response_headers rule)
    \<and> finish_response x (request_id_of x e req) [] r0 = Inr r"
proof -
  obtain rule where rule: "resolve x (st_router st) (req_path req) (req_method req) (req_headers req) = Some rule"
    using assms by (auto simp: proxy_handler_def Let_def split: option.splits)
  let ?st1 = "count_hit (cr_id rule) st"
  obtain b st2 where base: "upstream_base_of e rule (req_path req) ?st1 = (b, st2)" by force
  have "st_plugins st2 = st_plugins ?st1"
    using base by (auto simp: upstream_base_of_def Let_def split: option.splits sum.splits if_splits prod.splits)
  with assms(2) have plugins: "st_plugins st2 = []" by simp
  obtain u where u: "b = Some (Inr u)"
    using assms rule base by (auto simp: proxy_handler_def Let_def split: option.splits sum.splits)
  obtain out st3 where fwd: "forward x e rule req (request_id_of x e req) (req_path req) u st2 = (out, st3)"
    by force
  obtain ok cb where a: "allow (env_now e) (st_breaker st2) u = (ok, cb)" by force
  obtain res cb' where w: "proxy_with_retry e req u (rewrite_path rule (req_path req)) (cr_response_headers rule)
      (request_id_of x e req) (max_retries (server (st_config st2))) cb = (res, cb')" by force
  obtain r0 where r0: "out = Some (Inr r0)"
    using assms rule base u fwd by (auto simp: proxy_handler_def Let_def split: option.splits sum.splits)
  then have "res = Some (Inr r0)" "st_plugins st3 = []"
    using fwd a w assms(3) plugins
    by (auto simp: forward_def Let_def count_failure_def split: if_splits option.splits sum.splits)
  with proxy_with_retry_cases [OF w] obtain hs where "resp_headers r0 = return_headers hs (cr_response_headers rule)"
    using proxy_http_headers by fastforce
  moreover have "finish_response x (request_id_of x e req) [] r0 = Inr r"
    using assms rule base u fwd r0 \<open>st_plugins st3 = []\<close> by (auto simp: proxy_handler_def Let_def)
  ultimately show ?thesis using rule by blast
qed

text \<open>C21. The headers of a response that the proxy passes on over HTTP when no plugin is active.
  Whatever the upstream sends, the client gets no hop-by-hop header from upstream or
  configuration, and it gets its own request id back (or the generated one) when that is a
  valid header value.  Every name occurs at most once: of several values of one name, such as
  \<^verbatim>\<open>Set-Cookie\<close>, only one survives.  (The answer to a WebSocket handshake carries
  \<^verbatim>\<open>Connection\<close> and \<^verbatim>\<open>Upgrade\<close>, and a plugin may set any header.)\<close>

theorem proxied_response_headers:
  assumes "names_lowercased x" and "from_config x cfg = Inr (st_router st)"
    and "st_plugins st = []" and "\<not> is_websocket_upgrade x req"
    and "proxy_handler x e st req = (Some (Inr r), st')"
  shows "(is_hop_by_hop n \<longrightarrow> header_values (resp_headers r) n = [])
    \<and> length (header_values (resp_headers r) n) \<le> 1
    \<and> (header_value x (request_id_of x e req) = Some v \<longrightarrow>
         header_values (resp_headers r) ''x-request-id'' = [v])"
proof -
  obtain rule hs r0 where rule: "resolve x (st_router st) (req_path req) (req_method req) (req_headers req) = Some rule"
    and r0: "resp_headers r0 = return_headers hs (cr_response_headers rule)"
    and fin: "finish_response x (request_id_of x e req) [] r0 = Inr r"
    using handler_http_response [OF assms(5,3,4)] by blast
  have rid: "\<not> is_hop_by_hop ''x-request-id''"
    by (simp add: is_hop_by_hop_def to_lowercase_def lower_char_def)
  obtain c where c: "compile x c = Inr rule"
    using from_config_rule [OF assms(2)] resolve_member [OF rule] by blast
  have extra: "header_values kvs n = []" if "cr_response_headers rule = Some kvs" "is_hop_by_hop n" for kvs
    using compile_response_headers_safe [OF c assms(1) that(1)] that(2)
    by (auto simp: header_values_def filter_empty_conv is_forbidden_config_response_header_def)
  have "header_values (resp_headers r0) n = []" if "is_hop_by_hop n"
    using extra that by (auto simp: r0 header_values_return_headers split: option.split)
  moreover have "length (header_values (resp_headers r0) n) \<le> 1"
    by (auto simp: r0 header_values_return_headers split: option.split)
  moreover have "resp_headers r = (case header_value x (request_id_of x e req) of
      Some val \<Rightarrow> header_insert ''x-request-id'' val (resp_headers r0) | None \<Rightarrow> resp_headers r0)"
    using fin by (auto simp: finish_response_def split: option.splits)
  ultimately show ?thesis
    using rid by (auto split: option.splits)
qed

lemma example_rejected:
  "fst (proxy_handler example_ext example_env example_state example_request) =
    Some (Inl (UpstreamConnection ''refused''))"
  by code_simp

theorem handler_counts_once_witness:
  "\<exists>code \<in> {''upstream_connection'', ''no_matching_route'', ''circuit_breaker_open''}.
     failure_reasons (st_metrics (snd (proxy_handler example_ext example_env example_state example_request)))
       = count_up code (failure_reasons default_metrics)"
proof -
  obtain st' where run: "proxy_handler example_ext example_env example_state example_request =
      (Some (Inl (UpstreamConnection ''refused'')), st')"
    using example_rejected by (metis prod.collapse)
  have "failure_reasons (st_metrics example_state) = failure_reasons default_metrics"
    by (simp add: example_state_simps)
  then show ?thesis
    using handler_counts_once [OF run] by (simp add: run)
qed

theorem proxied_response_headers_witness:
  "header_values [(''set-cookie'', ''b''), (''x-request-id'', ''id'')] ''x-request-id'' = [''id'']"
proof -
  let ?e = "example_env\<lparr> env_send := (\<lambda>_. example_upstream) \<rparr>"
  let ?r = "\<lparr> resp_status = 200, resp_headers = [(''set-cookie'', ''b''), (''x-request-id'', ''id'')], resp_body = [] \<rparr>"
  obtain st' where run: "proxy_handler example_ext ?e example_state example_request = (Some (Inr ?r), st')"
    using example_reply by (metis prod.collapse)
  have "from_config example_ext example_config = Inr (st_router example_state)"
    by (simp only: example_compiles) (simp add: example_state_simps)
  moreover have "st_plugins example_state = []" "\<not> is_websocket_upgrade example_ext example_request"
    by (simp_all add: example_state_simps is_websocket_upgrade_def example_request_def header_get_def)
  moreover have "header_value example_ext (request_id_of example_ext ?e example_request) = Some ''id''"
    by (simp add: request_id_of_def example_request_def header_get_def example_ext_def example_env_def)
  ultimately show ?thesis
    using proxied_response_headers [OF names_lowercased_example _ _ _ run] by simp
qed

text \<open>An open breaker sheds load.  When the route's upstream is rejected by the breaker,
  the client gets a 502 at once: neither the result nor the state depends on what the
  upstream would have done, and the request is counted as \<^verbatim>\<open>circuit_breaker_open\<close>.\<close>

theorem open_breaker_sheds_load:
  assumes "st_plugins st = []"
    and "resolve x (st_router st) (req_path req) (req_method req) (req_headers req) = Some rule"
    and "cr_upstream_url rule = Some u" and "\<not> fst (allow (env_now e) (st_breaker st) u)"
  shows "\<exists>msg st'. proxy_handler x e st req = (Some (Inl (UpstreamConnection msg)), st')
    \<and> fst (into_response (UpstreamConnection msg)) = 502
    \<and> failure_reasons (st_metrics st') = count_up ''circuit_breaker_open'' (failure_reasons (st_metrics st))
    \<and> (\<forall>send ws. proxy_handler x (e\<lparr> env_send := send, env_ws_connect := ws \<rparr>) st req
         = (Some (Inl (UpstreamConnection msg)), st'))"
proof -
  obtain cb where cb: "allow (env_now e) (st_breaker st) u = (False, cb)"
    using assms(4) by (metis (full_types) fst_conv surj_pair)
  have run: "proxy_handler x e' st req = (Some (Inl (UpstreamConnection (''circuit breaker open for '' @ u))),
      count_failure ''circuit_breaker_open'' ((count_hit (cr_id rule) st)\<lparr> st_breaker := cb \<rparr>))"
    if "env_now e' = env_now e" for e'
    using assms cb that by (simp add: proxy_handler_def Let_def upstream_base_of_def forward_def)
  show ?thesis
    by (intro exI conjI) (rule run, simp, simp, simp add: count_hit_def record_route_hit_def, simp add: run)
qed

definition tripped_state :: app_state where
  "tripped_state = example_state\<lparr> st_breaker :=
     Breaker.record_failure 0 (circuit_breaker_new 1 30) ''http://u'' \<rparr>"

theorem open_breaker_sheds_load_witness:
  "\<exists>msg st'. proxy_handler example_ext example_env tripped_state example_request
     = (Some (Inl (UpstreamConnection msg)), st')"
proof -
  have "st_plugins tripped_state = []" "st_router tripped_state = st_router example_state"
    by (simp_all add: tripped_state_def example_state_simps)
  moreover have "\<not> fst (allow (env_now example_env) (st_breaker tripped_state) ''http://u'')"
    by code_simp
  moreover have "cr_upstream_url example_rule = Some ''http://u''" "req_path example_request = ''/''"
    by (simp_all add: example_rule_def example_request_def)
  ultimately show ?thesis
    using open_breaker_sheds_load [of tripped_state example_ext example_request example_rule "''http://u''" example_env]
      example_resolve by metis
qed

text \<open>Readiness: the service is unavailable exactly when registries are configured and none
  of those the resolver holds is healthy or degraded; the answer lists one row per registry
  in query order.\<close>

theorem ready_iff_some_registry_operational:
  "(fst (ready_handler st) = 503 \<longleftrightarrow> sources (registries (st_config st)) \<noteq> [] \<and>
      (\<forall>(p, reg)\<in>set (res_registries (st_resolver st)). \<exists>m. health reg = Unhealthy m))
   \<and> (fst (ready_handler st) \<noteq> 503 \<longleftrightarrow> fst (ready_handler st) = 200)
   \<and> (sources (registries (st_config st)) \<noteq> [] \<longrightarrow>
        json_get (snd (ready_handler st)) ''registries'' = Some (JInt (int (length (res_registries (st_resolver st))))))"
proof -
  have unh: "is_unhealthy h \<longleftrightarrow> (\<exists>m. h = Unhealthy m)" for h
    by (cases h) auto
  have "any_registry_operational (health_report (st_resolver st)) \<longleftrightarrow>
      \<not> (\<forall>(p, reg)\<in>set (res_registries (st_resolver st)). \<exists>m. health reg = Unhealthy m)"
    by (auto simp: any_registry_operational_def health_report_def list_ex_iff unh split: prod.splits)
  moreover have "length (health_report (st_resolver st)) = length (res_registries (st_resolver st))"
    by (simp add: health_report_def)
  ultimately show ?thesis
    by (simp add: ready_handler_def Let_def json_get_def)
qed

theorem ready_iff_some_registry_operational_witness:
  "fst (ready_handler example_state) = 503"
proof -
  have "\<forall>(p, reg)\<in>set (res_registries (st_resolver example_state)). \<exists>m. health reg = Unhealthy m"
    by (simp add: example_state_simps resolver_new_def sort_registries_def mock_registry_def mock_health_def)
  moreover have "sources (registries (st_config example_state)) \<noteq> []"
    by (simp add: example_state_simps)
  ultimately show ?thesis
    using ready_iff_some_registry_operational [of example_state] by blast
qed

end
