(* ===== verification/Loader.thy ===== *)
theory Loader
  imports Routing Decode
begin

text \<open>
  \<^verbatim>\<open>config/env_resolver.rs\<close> and \<^verbatim>\<open>config/loader.rs\<close>: expansion of
  environment placeholders in the raw text of a configuration file, loading and
  validation, and the starter files that \<^verbatim>\<open>init\<close> of \<^verbatim>\<open>main.rs\<close> writes.
  The file system, the environment and the YAML parser of \<^verbatim>\<open>serde_yaml\<close> are
  parameters, the fields of \<open>world\<close>; the pattern of a placeholder is written out as a
  scanner, and the trees that the parser gives are decoded by theory \<open>Decode\<close>.
\<close>

section \<open>The outside world\<close>

datatype io_error = NotFound | OtherIo string

record world =
  read_file :: "string \<Rightarrow> io_error + string"   \<comment> \<open>\<^verbatim>\<open>fs::read_to_string\<close>\<close>
  env_var :: "string \<Rightarrow> string option"         \<comment> \<open>\<^verbatim>\<open>env::var\<close>\<close>
  config_tree :: "string \<Rightarrow> string + json"       \<comment> \<open>the parser, reading for an \<^verbatim>\<open>AppConfig\<close>\<close>
  overrides_tree :: "string \<Rightarrow> string + json"    \<comment> \<open>the same for a \<^verbatim>\<open>LocalOverrideFile\<close>\<close>
  decode_error :: "json \<Rightarrow> string"               \<comment> \<open>the text of a refusal\<close>

text \<open>\<^verbatim>\<open>serde_yaml::from_str\<close> at the two types: the tree of the text, decoded.\<close>

definition yaml_config :: "world \<Rightarrow> string \<Rightarrow> string + app_config" where
  "yaml_config w s = decode_tree (decode_error w) app_of_json (config_tree w s)"

definition yaml_overrides :: "world \<Rightarrow> string \<Rightarrow> string + local_override_entry list" where
  "yaml_overrides w s = decode_tree (decode_error w) overrides_of_json (overrides_tree w s)"

section \<open>Environment placeholders\<close>

text \<open>A match of the pattern at the start of a text: \<^verbatim>\<open>${\<close>, a name of one or more
  characters other than a closing brace, and the closing brace.\<close>

definition placeholder_at :: "string \<Rightarrow> (string \<times> string) option" where
  "placeholder_at s =
     (case strip_prefix_str s ''${'' of
        None \<Rightarrow> None
      | Some r \<Rightarrow>
          (case split_once CHR ''}'' r of
             None \<Rightarrow> None
           | Some (name, rest) \<Rightarrow> if name = [] then None else Some (name, rest)))"

definition placeholder :: "string \<Rightarrow> string" where
  "placeholder name = ''${'' @ name @ ''}''"

lemma placeholder_at_Some:
  "placeholder_at s = Some (n, rest) \<Longrightarrow> s = placeholder n @ rest \<and> n \<noteq> [] \<and> CHR ''}'' \<notin> set n"
  by (auto simp: placeholder_at_def placeholder_def strip_prefix_str_Some
      split: option.splits prod.splits if_splits dest!: split_once_Some)

text \<open>The text cut into the matches, leftmost first and without overlaps, and the
  characters between them.\<close>

datatype token = Ch char | Var string

function scan :: "string \<Rightarrow> token list" where
  "scan [] = []"
| "scan (c # s) =
     (case placeholder_at (c # s) of
        Some (name, rest) \<Rightarrow> Var name # scan rest
      | None \<Rightarrow> Ch c # scan s)"
  by pat_completeness auto
termination
proof (relation "measure length")
  fix c :: char and s name rest :: string and p
  assume "placeholder_at (c # s) = Some p" "(name, rest) = p"
  then have "c # s = placeholder name @ rest"
    by (auto dest: placeholder_at_Some)
  then have "Suc (length s) = length (placeholder name) + length rest"
    by (metis length_Cons length_append)
  then show "(rest, c # s) \<in> measure length"
    by (simp add: placeholder_def)
qed simp_all

fun token_name :: "token \<Rightarrow> string list" where
  "token_name (Ch c) = []"
| "token_name (Var n) = [n]"

definition captures :: "string \<Rightarrow> string list" where
  "captures s = concat (map token_name (scan s))"

text \<open>The placeholders are those of the original text; each is replaced in the result of
  the replacements before it.\<close>

fun replace_captures :: "(string \<Rightarrow> string option) \<Rightarrow> string list \<Rightarrow> string \<Rightarrow> config_error + string" where
  "replace_captures env [] result = Inr result"
| "replace_captures env (name # names) result =
     (case env name of
        None \<Rightarrow> Inl (MissingEnvVar name)
      | Some v \<Rightarrow> replace_captures env names (str_replace result (placeholder name) v))"

definition resolve_env_vars :: "(string \<Rightarrow> string option) \<Rightarrow> string \<Rightarrow> config_error + string" where
  "resolve_env_vars env s = replace_captures env (captures s) s"

definition resolve_env_vars_in_yaml :: "(string \<Rightarrow> string option) \<Rightarrow> string \<Rightarrow> config_error + string" where
  "resolve_env_vars_in_yaml env yaml = resolve_env_vars env yaml"

section \<open>Loading\<close>

fun validate_rules :: "ext \<Rightarrow> routing_rule list \<Rightarrow> config_error + unit" where
  "validate_rules x [] = Inr ()"
| "validate_rules x (r # rs) =
     (if rule_service_id r = None \<and> rule_upstream_url r = None then Inl (MissingTarget (rule_id r))
      else case rule_path r of
        Regex v \<Rightarrow>
          (case regex_error x v of
             Some e \<Rightarrow> Inl (InvalidRegex (rule_id r) v e)
           | None \<Rightarrow> validate_rules x rs)
      | Glob v \<Rightarrow>
          (case glob_error x v of
             Some e \<Rightarrow> Inl (InvalidGlob (rule_id r) v e)
           | None \<Rightarrow> validate_rules x rs)
      | _ \<Rightarrow> validate_rules x rs)"

definition validate_config :: "ext \<Rightarrow> app_config \<Rightarrow> config_error + unit" where
  "validate_config x cfg = validate_rules x (routes cfg)"

definition read_config_text :: "world \<Rightarrow> string \<Rightarrow> config_error + string" where
  "read_config_text w path =
     (case read_file w path of
        Inl NotFound \<Rightarrow> Inl (FileNotFound path)
      | Inl (OtherIo e) \<Rightarrow> Inl (ReadError e)
      | Inr raw \<Rightarrow> Inr raw)"

definition load_config :: "world \<Rightarrow> ext \<Rightarrow> string \<Rightarrow> config_error + app_config" where
  "load_config w x path =
     res_bind (read_config_text w path) (\<lambda>raw.
     res_bind (resolve_env_vars_in_yaml (env_var w) raw) (\<lambda>expanded.
     res_bind (case yaml_config w expanded of Inl e \<Rightarrow> Inl (ParseError e) | Inr c \<Rightarrow> Inr c) (\<lambda>cfg.
     res_bind (validate_config x cfg) (\<lambda>_. Inr cfg))))"

definition load_local_overrides :: "world \<Rightarrow> string \<Rightarrow> config_error + local_override_entry list" where
  "load_local_overrides w path =
     res_bind (read_config_text w path) (\<lambda>raw.
     res_bind (resolve_env_vars_in_yaml (env_var w) raw) (\<lambda>expanded.
     (case yaml_overrides w expanded of
        Inl e \<Rightarrow> Inl (ParseError (''local-override: '' @ e))
      | Inr entries \<Rightarrow> Inr entries)))"

section \<open>Replacement passes over a scanned text\<close>

text \<open>A text in which the placeholders that \<open>s\<close> knows are replaced and the others are left.\<close>

fun emit :: "(string \<Rightarrow> string option) \<Rightarrow> token \<Rightarrow> string" where
  "emit s (Ch c) = [c]"
| "emit s (Var n) = (case s n of None \<Rightarrow> placeholder n | Some v \<Rightarrow> v)"

definition emits :: "(string \<Rightarrow> string option) \<Rightarrow> token list \<Rightarrow> string" where
  "emits s ts = concat (map (emit s) ts)"

lemma emits_simps [simp]:
  "emits s [] = []"
  "emits s (t # ts) = emit s t @ emits s ts"
  by (simp_all add: emits_def)

lemma emits_scan: "emits (\<lambda>_. None) (scan s) = s"
proof (induction s rule: scan.induct)
  case (2 c s)
  then show ?case
    by (cases "placeholder_at (c # s)") (auto dest: placeholder_at_Some)
qed simp

lemma str_replace_ne_Cons:
  assumes "p \<noteq> []"
  shows "str_replace_ne p t (c # s) =
    (if starts_with (c # s) p then t @ str_replace_ne p t (drop (length p) (c # s))
     else c # str_replace_ne p t s)"
  using assms by (auto simp: str_replace_ne.simps [of p t "c # s"] str_replace_ne.simps [of p t s]
      split: option.split)

lemma str_replace_Nil [simp]: "p \<noteq> [] \<Longrightarrow> str_replace [] p t = []"
  by (simp add: str_replace_def str_replace_ne.simps)

lemma str_replace_skip:
  "p \<noteq> [] \<Longrightarrow> \<not> starts_with (c # s) p \<Longrightarrow> str_replace (c # s) p t = c # str_replace s p t"
  by (simp add: str_replace_def str_replace_ne_Cons)

lemma str_replace_hit: "p \<noteq> [] \<Longrightarrow> str_replace (p @ s) p t = t @ str_replace s p t"
  by (cases p) (simp_all add: str_replace_def str_replace_ne_Cons starts_with_def)

lemma placeholder_nonempty [simp]: "placeholder n \<noteq> []"
  by (simp add: placeholder_def)

lemma starts_with_placeholder:
  "starts_with (c # s) (placeholder n) \<longleftrightarrow> CHR ''$'' = c \<and> starts_with s (''{'' @ n @ ''}'')"
  by (auto simp: starts_with_def placeholder_def)

lemma str_replace_no_dollar:
  "CHR ''$'' \<notin> set w \<Longrightarrow> str_replace (w @ s) (placeholder n) t = w @ str_replace s (placeholder n) t"
  by (induction w) (simp_all add: str_replace_skip starts_with_placeholder)

lemma placeholder_prefix_unique:
  assumes "starts_with (placeholder m @ s) (placeholder n)" "CHR ''}'' \<notin> set m" "CHR ''}'' \<notin> set n"
  shows "m = n"
proof -
  obtain r where "m @ CHR ''}'' # s = n @ CHR ''}'' # r"
    using assms(1) by (auto simp: starts_with_prefix prefix_def placeholder_def)
  then have "split_once CHR ''}'' (m @ CHR ''}'' # s) = split_once CHR ''}'' (n @ CHR ''}'' # r)"
    by simp
  with assms(2,3) show ?thesis
    by (simp add: split_once_append)
qed

text \<open>A dollar sign that is not part of a match is followed by a character other than an
  opening brace, and names hold neither dollar signs nor closing braces.\<close>

fun well_placed :: "token list \<Rightarrow> bool" where
  "well_placed [] = True"
| "well_placed (Var n # ts) = (CHR ''$'' \<notin> set n \<and> CHR ''}'' \<notin> set n \<and> well_placed ts)"
| "well_placed (Ch c # ts) =
     ((c = CHR ''$'' \<longrightarrow> (case ts of [] \<Rightarrow> True | Ch d # _ \<Rightarrow> d \<noteq> CHR ''{'' | Var _ # _ \<Rightarrow> False)) \<and> well_placed ts)"

lemma replace_pass:
  assumes "well_placed ts" and "\<forall>m v. s m = Some v \<longrightarrow> CHR ''$'' \<notin> set v" and "CHR ''}'' \<notin> set n"
  shows "str_replace (emits s ts) (placeholder n) v =
    emits (\<lambda>m. if m = n \<and> s m = None then Some v else s m) ts"
  using assms(1)
proof (induction ts rule: well_placed.induct)
  case 1
  then show ?case by simp
next
  case (2 m ts)
  show ?case
  proof (cases "s m")
    case (Some w)
    with 2 assms(2) show ?thesis by (simp add: str_replace_no_dollar)
  next
    case None
    show ?thesis
    proof (cases "m = n")
      case True
      with 2 None show ?thesis by (simp add: str_replace_hit)
    next
      case False
      let ?rest = "''{'' @ m @ ''}''"
      have "\<not> starts_with (placeholder m @ emits s ts) (placeholder n)"
        using False 2 assms(3) placeholder_prefix_unique by auto
      then have "str_replace (CHR ''$'' # ?rest @ emits s ts) (placeholder n) v
          = CHR ''$'' # str_replace (?rest @ emits s ts) (placeholder n) v"
        by (simp add: str_replace_skip placeholder_def)
      also have "\<dots> = CHR ''$'' # ?rest @ str_replace (emits s ts) (placeholder n) v"
        by (subst str_replace_no_dollar) (use 2 in auto)
      finally show ?thesis
        using 2 None False by (simp add: placeholder_def)
    qed
  qed
next
  case (3 c ts)
  have "\<not> starts_with (emits s ts) (''{'' @ n @ ''}'')" if "c = CHR ''$''"
    using 3(2) that by (cases ts rule: well_placed.cases) (auto simp: starts_with_def)
  then have "\<not> starts_with (c # emits s ts) (placeholder n)"
    by (auto simp: starts_with_placeholder)
  then have "str_replace (c # emits s ts) (placeholder n) v = c # str_replace (emits s ts) (placeholder n) v"
    by (simp add: str_replace_skip)
  with 3 show ?case by simp
qed

text \<open>Values without dollar signs are not looked at again.\<close>

definition plain :: "(string \<Rightarrow> string option) \<Rightarrow> string \<Rightarrow> bool" where
  "plain env s = (well_placed (scan s) \<and> (\<forall>n\<in>set (captures s). \<forall>v. env n = Some v \<longrightarrow> CHR ''$'' \<notin> set v))"

lemma replace_captures_Inl:
  "replace_captures env ns s = Inl e \<longleftrightarrow> (\<exists>n. find (\<lambda>n. env n = None) ns = Some n \<and> e = MissingEnvVar n)"
proof (induction ns arbitrary: s)
  case (Cons m ns)
  then show ?case by (cases "env m") auto
qed simp

lemma replace_captures_emits:
  assumes "well_placed ts" and "\<forall>m v. s m = Some v \<longrightarrow> CHR ''$'' \<notin> set v"
    and "\<forall>n\<in>set ns. CHR ''}'' \<notin> set n \<and> (\<exists>v. env n = Some v \<and> CHR ''$'' \<notin> set v)"
  shows "replace_captures env ns (emits s ts) =
    Inr (emits (\<lambda>m. if m \<in> set ns \<and> s m = None then env m else s m) ts)"
  using assms(2,3)
proof (induction ns arbitrary: s)
  case Nil
  then show ?case by simp
next
  case (Cons n ns)
  then obtain v where v: "env n = Some v" "CHR ''$'' \<notin> set v" "CHR ''}'' \<notin> set n" by auto
  let ?s = "\<lambda>m. if m = n \<and> s m = None then Some v else s m"
  have "(\<lambda>m. if m \<in> set ns \<and> ?s m = None then env m else ?s m) =
      (\<lambda>m. if m \<in> set (n # ns) \<and> s m = None then env m else s m)"
    using v by (auto simp: fun_eq_iff)
  moreover have "replace_captures env ns (emits ?s ts) =
      Inr (emits (\<lambda>m. if m \<in> set ns \<and> ?s m = None then env m else ?s m) ts)"
    using Cons.prems v by (intro Cons.IH) auto
  ultimately show ?case
    using v Cons.prems by (simp add: replace_pass [OF assms(1)])
qed

lemma scan_names: "Var n \<in> set (scan s) \<Longrightarrow> CHR ''}'' \<notin> set n"
proof (induction s rule: scan.induct)
  case (2 c s)
  then show ?case
    by (cases "placeholder_at (c # s)") (auto dest: placeholder_at_Some)
qed simp

lemma in_token_name: "n \<in> set (token_name t) \<longleftrightarrow> t = Var n"
  by (cases t) auto

lemma set_captures: "n \<in> set (captures s) \<longleftrightarrow> Var n \<in> set (scan s)"
  by (simp add: captures_def in_token_name)

lemma emits_cong:
  "(\<And>n. Var n \<in> set ts \<Longrightarrow> s n = s' n) \<Longrightarrow> emits s ts = emits s' ts"
proof (induction ts)
  case (Cons t ts)
  then show ?case by (cases t) simp_all
qed simp

text \<open>C19. Expansion fails exactly at the first placeholder of the file whose variable is not set,
  naming it.  Otherwise every variable is set; and if the file is \<open>plain\<close> (dollar signs occur
  only in placeholders or before other characters than a brace, and no inserted value holds a
  dollar sign), the repeated replacements are the simultaneous substitution of every
  placeholder by its value.  Without that condition they are not: a value that holds a
  placeholder may be expanded again (\<open>env_value_expanded_again\<close>).\<close>

theorem env_expansion_spec:
  "case resolve_env_vars env s of
     Inl e \<Rightarrow> \<exists>us n vs. captures s = us @ n # vs \<and> (\<forall>u\<in>set us. env u \<noteq> None) \<and> env n = None \<and>
              e = MissingEnvVar n
   | Inr r \<Rightarrow> (\<forall>n\<in>set (captures s). env n \<noteq> None) \<and> (plain env s \<longrightarrow> r = emits env (scan s))"
proof (cases "\<forall>n\<in>set (captures s). env n \<noteq> None")
  case True
  then have none: "find (\<lambda>n. env n = None) (captures s) = None"
    by (auto simp: find_None_iff)
  obtain r where r: "resolve_env_vars env s = Inr r"
    using none replace_captures_Inl [of env "captures s" s]
    by (cases "resolve_env_vars env s") (auto simp: resolve_env_vars_def)
  have "r = emits env (scan s)" if p: "plain env s"
  proof -
    have "replace_captures env (captures s) (emits (\<lambda>_. None) (scan s)) =
        Inr (emits (\<lambda>m. if m \<in> set (captures s) \<and> None = (None :: string option) then env m else None) (scan s))"
      using p True by (intro replace_captures_emits) (auto simp: plain_def set_captures scan_names)
    then have "r = emits (\<lambda>m. if m \<in> set (captures s) then env m else None) (scan s)"
      using r by (simp add: resolve_env_vars_def emits_scan)
    also have "\<dots> = emits env (scan s)"
      by (rule emits_cong) (simp add: set_captures)
    finally show ?thesis .
  qed
  with r True show ?thesis by simp
next
  case False
  then obtain n where n: "find (\<lambda>n. env n = None) (captures s) = Some n"
    by (cases "find (\<lambda>n. env n = None) (captures s)") (auto simp: find_None_iff)
  then have "resolve_env_vars env s = Inl (MissingEnvVar n)"
    by (simp add: resolve_env_vars_def replace_captures_Inl)
  with n show ?thesis
    by (auto simp: find_Some_append)
qed

section \<open>Starter files\<close>

definition text_of_lines :: "string list \<Rightarrow> string" where
  "text_of_lines ls = concat (map (\<lambda>l. l @ [CHR 0x0A]) ls)"

definition init_template_mock :: string where
  "init_template_mock = text_of_lines [
     ''log_level: \"info\"'',
     '''',
     ''server:'',
     ''  host: \"127.0.0.1\"'',
     ''  port: 8080'',
     ''  upstream_timeout_secs: 30'',
     '''',
     ''registries:'',
     ''  query_mode: priority'',
     ''  sources:'',
     ''    - type: mock'',
     ''      priority: 1'',
     ''      services:'',
     ''        my-service:'',
     ''          - host: \"127.0.0.1\"'',
     ''            port: 9001'',
     ''            metadata:'',
     ''              env: \"local\"'',
     '''',
     ''routes:'',
     ''  - id: \"my-service-api\"'',
     ''    priority: 10'',
     ''    path:'',
     ''      type: prefix'',
     ''      value: \"/api\"'',
     ''    service_id: \"my-service\"'',
     '''',
     ''  - id: \"catch-all\"'',
     ''    priority: 100'',
     ''    path:'',
     ''      type: prefix'',
     ''      value: \"/\"'',
     ''    upstream_url: \"http://127.0.0.1:9001\"'']"

definition init_template_nacos :: string where
  "init_template_nacos = text_of_lines [
     ''log_level: \"info\"'',
     '''',
     ''server:'',
     ''  host: \"127.0.0.1\"'',
     ''  port: 8080'',
     ''  upstream_timeout_secs: 30'',
     '''',
     ''registries:'',
     ''  query_mode: priority'',
     ''  sources:'',
     ''    - type: nacos'',
     ''      priority: 1'',
     ''      server_addr: \"http://127.0.0.1:8848\"'',
     ''      namespace: \"public\"'',
     ''      group: \"DEFAULT_GROUP\"'',
     ''      # Uncomment for authentication:'',
     ''      # auth:'',
     ''      #   username: \"nacos\"'',
     ''      #   password: \"${NACOS_PASSWORD}\"'',
     '''',
     ''routes:'',
     ''  - id: \"my-service-api\"'',
     ''    priority: 10'',
     ''    path:'',
     ''      type: prefix'',
     ''      value: \"/api\"'',
     ''    service_id: \"my-service\"'',
     '''',
     ''  - id: \"catch-all\"'',
     ''    priority: 100'',
     ''    path:'',
     ''      type: prefix'',
     ''      value: \"/\"'',
     ''    service_id: \"api-gateway\"'']"

definition init_template_eureka :: string where
  "init_template_eureka = text_of_lines [
     ''log_level: \"info\"'',
     '''',
     ''server:'',
     ''  host: \"127.0.0.1\"'',
     ''  port: 8080'',
     ''  upstream_timeout_secs: 30'',
     '''',
     ''registries:'',
     ''  query_mode: priority'',
     ''  sources:'',
     ''    - type: eureka'',
     ''      priority: 1'',
     ''      server_url: \"http://127.0.0.1:8761/eureka\"'',
     ''      # Uncomment for authentication:'',
     ''      # auth:'',
     ''      #   username: \"admin\"'',
     ''      #   password: \"${EUREKA_PASSWORD}\"'',
     '''',
     ''routes:'',
     ''  - id: \"my-service-api\"'',
     ''    priority: 10'',
     ''    path:'',
     ''      type: prefix'',
     ''      value: \"/api\"'',
     ''    service_id: \"my-service\"'',
     '''',
     ''  - id: \"catch-all\"'',
     ''    priority: 100'',
     ''    path:'',
     ''      type: prefix'',
     ''      value: \"/\"'',
     ''    service_id: \"api-gateway\"'']"

definition init_template_k8s :: string where
  "init_template_k8s = text_of_lines [
     ''log_level: \"info\"'',
     '''',
     ''server:'',
     ''  host: \"127.0.0.1\"'',
     ''  port: 8080'',
     ''  upstream_timeout_secs: 30'',
     '''',
     ''registries:'',
     ''  query_mode: priority'',
     ''  sources:'',
     ''    - type: kubernetes'',
     ''      priority: 1'',
     ''      api_server_url: \"https://kubernetes.default.svc\"'',
     ''      namespace: \"default\"'',
     ''      # Uncomment to use a specific kubeconfig:'',
     ''      # kubeconfig_path: \"~/.kube/config\"'',
     ''      # kubeconfig_context: \"my-cluster\"'',
     '''',
     ''routes:'',
     ''  - id: \"my-service-api\"'',
     ''    priority: 10'',
     ''    path:'',
     ''      type: prefix'',
     ''      value: \"/api\"'',
     ''    service_id: \"my-service\"'',
     '''',
     ''  - id: \"catch-all\"'',
     ''    priority: 100'',
     ''    path:'',
     ''      type: prefix'',
     ''      value: \"/\"'',
     ''    service_id: \"api-gateway\"'']"

text \<open>\<^verbatim>\<open>Path::join\<close> with a relative part.\<close>

definition path_join :: "string \<Rightarrow> string \<Rightarrow> string" where
  "path_join d f = (if d = [] \<or> ends_with d ''/'' then d @ f else d @ ''/'' @ f)"

text \<open>The file operations of \<^verbatim>\<open>init\<close>: the error of creating a directory or of
  writing a file, if any, and whether a path exists after the directory was created.\<close>

record file_ops =
  create_dir_error :: "string \<Rightarrow> string option"
  path_exists :: "string \<Rightarrow> bool"
  write_error :: "string \<Rightarrow> string option"

definition init_template :: "string \<Rightarrow> string option" where
  "init_template template =
     (if template = ''mock'' then Some init_template_mock
      else if template = ''nacos'' then Some init_template_nacos
      else if template = ''eureka'' then Some init_template_eureka
      else if template = ''k8s'' \<or> template = ''kubernetes'' then Some init_template_k8s
      else None)"

text \<open>The exit code and the file that was written, or the error the command ends with.\<close>

definition init_project :: "file_ops \<Rightarrow> string \<Rightarrow> string \<Rightarrow> string + nat \<times> (string \<times> string) option" where
  "init_project f template output_dir =
     (case init_template template of
        None \<Rightarrow> Inr (1, None)
      | Some config_content \<Rightarrow>
          (let config_dir = path_join output_dir ''config'' in
           case create_dir_error f config_dir of
             Some e \<Rightarrow> Inl e
           | None \<Rightarrow>
               (let config_path = path_join config_dir ''config.yaml'' in
                if path_exists f config_path then Inr (1, None)
                else case write_error f config_path of
                       Some e \<Rightarrow> Inl e
                     | None \<Rightarrow> Inr (0, Some (config_path, config_content)))))"

lemma captures_Nil [simp]: "captures [] = []"
  by (simp add: captures_def)

lemma captures_other: "CHR ''$'' \<noteq> c \<Longrightarrow> captures (c # s) = captures s"
  by (simp add: captures_def placeholder_at_def strip_prefix_str_def starts_with_def)

lemma captures_no_dollar: "CHR ''$'' \<notin> set a \<Longrightarrow> captures (a @ s) = captures s"
  by (induction a) (simp_all add: captures_other)

lemma captures_placeholder:
  "n \<noteq> [] \<Longrightarrow> CHR ''}'' \<notin> set n \<Longrightarrow> captures (CHR ''$'' # CHR ''{'' # n @ CHR ''}'' # s) = n # captures s"
  by (simp add: captures_def placeholder_at_def strip_prefix_str_def starts_with_def split_once_append)

lemma captures_lines:
  "captures (text_of_lines []) = []"
  "CHR ''$'' \<notin> set l \<Longrightarrow> captures (text_of_lines (l # ls)) = captures (text_of_lines ls)"
  "CHR ''$'' \<in> set l \<Longrightarrow> captures (text_of_lines (l # ls)) = captures (l @ CHR 0x0A # text_of_lines ls)"
  by (simp_all add: text_of_lines_def captures_no_dollar captures_other)

lemma starter_captures:
  "captures init_template_mock = []"
  "captures init_template_k8s = []"
  "captures init_template_nacos = [''NACOS_PASSWORD'']"
  "captures init_template_eureka = [''EUREKA_PASSWORD'']"
  using captures_placeholder [of "''NACOS_PASSWORD''"] captures_placeholder [of "''EUREKA_PASSWORD''"]
  by (simp_all add: init_template_mock_def init_template_k8s_def init_template_nacos_def
      init_template_eureka_def captures_lines captures_other)

lemma validate_rules_not_missing: "validate_rules x rs \<noteq> Inl (MissingEnvVar v)"
  by (induction x rs rule: validate_rules.induct) (auto split: path_matcher.split option.split)

lemma resolve_env_vars_Inl:
  "resolve_env_vars env s = Inl e \<longleftrightarrow> (\<exists>n. find (\<lambda>n. env n = None) (captures s) = Some n \<and> e = MissingEnvVar n)"
  by (simp add: resolve_env_vars_def replace_captures_Inl)

lemma load_config_missing_var:
  assumes "read_file w p = Inr text"
  shows "load_config w x p = Inl (MissingEnvVar v) \<longleftrightarrow>
    find (\<lambda>n. env_var w n = None) (captures text) = Some v"
  using assms validate_rules_not_missing [of x _ v]
  by (auto simp: load_config_def read_config_text_def resolve_env_vars_in_yaml_def res_bind_Inl_iff
      resolve_env_vars_Inl validate_config_def split: sum.splits) (metis sum.exhaust)

text \<open>A starter file that \<^verbatim>\<open>init\<close> has just written is refused by the
  loader for a missing variable exactly when it was made from the Nacos template and
  \<^verbatim>\<open>NACOS_PASSWORD\<close> is not set, or from the Eureka template and
  \<^verbatim>\<open>EUREKA_PASSWORD\<close> is not set: the placeholders of these templates stand in
  YAML comments, but expansion works on the raw text.\<close>

theorem starter_needs_password:
  assumes "init_project f template dir = Inr (0, Some (p, text))"
    and "read_file w p = Inr text"
  shows "load_config w x p = Inl (MissingEnvVar v) \<longleftrightarrow>
    env_var w v = None \<and> (template = ''nacos'' \<and> v = ''NACOS_PASSWORD'' \<or>
                         template = ''eureka'' \<and> v = ''EUREKA_PASSWORD'')"
proof -
  have t: "init_template template = Some text"
    using assms(1) by (auto simp: init_project_def Let_def split: option.splits if_splits)
  show ?thesis
    unfolding load_config_missing_var [OF assms(2)]
    using t by (auto simp: init_template_def starter_captures split: if_splits)
qed

definition example_world :: world where
  "example_world = \<lparr> read_file = (\<lambda>_. Inr init_template_nacos), env_var = (\<lambda>_. None),
     config_tree = (\<lambda>_. Inr (app_json default_app_config)), overrides_tree = (\<lambda>_. Inr JNull),
     decode_error = (\<lambda>_. ''bad value'') \<rparr>"

definition example_file_ops :: file_ops where
  "example_file_ops = \<lparr> create_dir_error = (\<lambda>_. None), path_exists = (\<lambda>_. False), write_error = (\<lambda>_. None) \<rparr>"

theorem starter_needs_password_witness:
  "load_config example_world example_ext ''./config/config.yaml'' = Inl (MissingEnvVar ''NACOS_PASSWORD'')"
proof -
  have "init_project example_file_ops ''nacos'' ''.'' = Inr (0, Some (''./config/config.yaml'', init_template_nacos))"
    by (simp add: init_project_def init_template_def example_file_ops_def path_join_def ends_with_def
        starts_with_def)
  from starter_needs_password [OF this, where w = example_world and x = example_ext and v = "''NACOS_PASSWORD''"]
  show ?thesis by (simp add: example_world_def)
qed

section \<open>What loading guarantees\<close>

lemma validate_rules_Inr:
  "validate_rules x rs = Inr () \<longleftrightarrow>
     (\<forall>r\<in>set rs. (rule_service_id r \<noteq> None \<or> rule_upstream_url r \<noteq> None) \<and>
        (\<exists>cp. compile_path x (rule_id r) (rule_path r) = Inr cp))"
  by (induction x rs rule: validate_rules.induct) (auto split: path_matcher.split option.split)

lemma compile_Inl_validation:
  assumes "compile x r = Inl e" and "compile_path x (rule_id r) (rule_path r) = Inr cp"
  shows "\<exists>m. e = Validation m"
proof -
  have "compile_response_headers x i hs = Inl e' \<Longrightarrow> \<exists>m. e' = Validation m" for i hs e'
    by (induction x i hs rule: compile_response_headers.induct)
       (auto simp: res_bind_Inl_iff split: if_splits option.splits)
  with assms show ?thesis
    by (auto simp: compile_def res_bind_Inl_iff split: option.splits if_splits)
qed

lemma loaded_decoded:
  assumes "load_config w x path = Inr cfg"
  shows "\<exists>v. app_of_json v = Some cfg" and "config_ok cfg"
proof -
  show "\<exists>v. app_of_json v = Some cfg"
    using assms by (auto simp: load_config_def res_bind_Inr_iff yaml_config_def decode_tree_def
        split: sum.splits option.splits)
  then show "config_ok cfg"
    using config_decoded by blast
qed

text \<open>C30. Errors surface when the file is loaded, not at request time: every route of a
  loaded configuration has a target and a path pattern that compiles, and building the
  routing table from it can only fail on a route's \<^verbatim>\<open>response_headers\<close>.\<close>

theorem loaded_config_sound:
  assumes "load_config w x p = Inr cfg"
  shows "(\<forall>r\<in>set (routes cfg). (rule_service_id r \<noteq> None \<or> rule_upstream_url r \<noteq> None) \<and>
            (\<exists>cp. compile_path x (rule_id r) (rule_path r) = Inr cp))
       \<and> (\<forall>e. from_config x cfg = Inl e \<longrightarrow>
            (\<exists>m. e = Validation m) \<and> (\<exists>r\<in>set (routes cfg). rule_response_headers r \<noteq> None))"
proof -
  have ok: "\<forall>r\<in>set (routes cfg). (rule_service_id r \<noteq> None \<or> rule_upstream_url r \<noteq> None) \<and>
      (\<exists>cp. compile_path x (rule_id r) (rule_path r) = Inr cp)"
    using assms validate_rules_Inr [of x "routes cfg"]
    by (auto simp: load_config_def res_bind_Inr_iff validate_config_def)
  moreover have "(\<exists>m. e = Validation m) \<and> (\<exists>r\<in>set (routes cfg). rule_response_headers r \<noteq> None)"
    if "from_config x cfg = Inl e" for e
  proof -
    have "try_map (compile x) (routes cfg) = Inl e"
      using that by (auto simp: from_config_def res_bind_Inl_iff)
    then obtain us r vs where r: "routes cfg = us @ r # vs" "compile x r = Inl e"
      unfolding try_map_Inl_iff by blast
    with ok obtain cp where "compile_path x (rule_id r) (rule_path r) = Inr cp" by auto
    with r have "(\<exists>m. e = Validation m) \<and> rule_response_headers r \<noteq> None"
      using compile_Inl_validation [of x r e cp]
      by (auto simp: compile_def split: option.splits)
    with r(1) show ?thesis by auto
  qed
  ultimately show ?thesis by blast
qed

theorem loaded_config_sound_witness:
  "\<exists>m. compile example_ext ((example_route ''r'' ''/'' 1)\<lparr> rule_response_headers := Some [(''TE'', ''x'')] \<rparr>) = Inl (Validation m)"
proof -
  let ?r = "(example_route ''r'' ''/'' 1)\<lparr> rule_response_headers := Some [(''TE'', ''x'')] \<rparr>"
  let ?cfg = "default_app_config\<lparr> routes := [?r] \<rparr>"
  let ?w = "example_world\<lparr> read_file := (\<lambda>_. Inr []), config_tree := (\<lambda>_. Inr (app_json ?cfg)) \<rparr>"
  have "reads_back ?cfg"
    by (simp add: reads_back_simps example_route_def)
  from reads_back_decode [OF this] have "load_config ?w example_ext ''c'' = Inr ?cfg"
    by (simp add: load_config_def yaml_config_def decode_tree_def read_config_text_def example_world_def resolve_env_vars_in_yaml_def
        resolve_env_vars_def validate_config_def example_route_def)
  from loaded_config_sound [OF this]
  have "\<forall>e. from_config example_ext ?cfg = Inl e \<longrightarrow> (\<exists>m. e = Validation m)" by blast
  moreover have "from_config example_ext ?cfg = Inl (case compile example_ext ?r of Inl e \<Rightarrow> e)"
    and "compile example_ext ?r = Inl (case compile example_ext ?r of Inl e \<Rightarrow> e)"
    by (code_simp)+
  ultimately show ?thesis by metis
qed

text \<open>A value is looked at again when a later placeholder occurs in it, so the result depends
  on the order of the placeholders.\<close>

lemma env_value_expanded_again:
  "resolve_env_vars [''A'' \<mapsto> ''${B}'', ''B'' \<mapsto> ''x''] ''${A}${B}'' = Inr ''xx''"
  "resolve_env_vars [''A'' \<mapsto> ''${B}'', ''B'' \<mapsto> ''x''] ''${B}${A}'' = Inr ''x${B}''"
  by code_simp+

theorem env_expansion_spec_witness:
  "resolve_env_vars [''U'' \<mapsto> ''alice'', ''P'' \<mapsto> ''secret''] ''${U}:${P}'' = Inr ''alice:secret''"
proof -
  let ?env = "[''U'' \<mapsto> ''alice'', ''P'' \<mapsto> ''secret'']"
  let ?s = "''${U}:${P}''"
  have scan: "scan ?s = [Var ''U'', Ch CHR '':'', Var ''P'']" and caps: "captures ?s = [''U'', ''P'']"
    by code_simp+
  have "plain ?env ?s"
    unfolding plain_def scan caps by simp
  moreover have "\<forall>n\<in>set (captures ?s). ?env n \<noteq> None"
    unfolding caps by simp
  moreover have "emits ?env (scan ?s) = ''alice:secret''"
    unfolding scan by simp
  moreover note env_expansion_spec [where env = ?env and s = ?s]
  ultimately show ?thesis
  proof (cases "resolve_env_vars ?env ?s")
    case (Inl e)
    with \<open>case resolve_env_vars ?env ?s of Inl e \<Rightarrow> _ e | Inr r \<Rightarrow> _ r\<close>
    obtain us n vs where "captures ?s = us @ n # vs" "?env n = None" by auto
    moreover from this(1) have "n \<in> set (captures ?s)" by (simp only: set_append set_simps Un_iff insert_iff) blast
    ultimately show ?thesis
      using \<open>\<forall>n\<in>set (captures ?s). ?env n \<noteq> None\<close> by blast
  next
    case (Inr r)
    then show ?thesis
      using \<open>case resolve_env_vars ?env ?s of Inl e \<Rightarrow> _ e | Inr r \<Rightarrow> _ r\<close> \<open>plain ?env ?s\<close>
        \<open>emits ?env (scan ?s) = ''alice:secret''\<close> by (simp only: sum.case)
  qed
qed

end
