(* ===== verification/Server.thy ===== *)
theory Server
  imports Handlers Factory Loader
begin

text \<open>
  The running server: \<^verbatim>\<open>run_server\<close> of \<^verbatim>\<open>main.rs\<close> with the file watcher
  of \<^verbatim>\<open>config/watcher.rs\<close>, the task that rebuilds the router, the task of
  \<^verbatim>\<open>spawn_health_checker\<close> and the routes of the HTTP server.  The tasks share the
  state of the handlers; the server is a step relation whose events are a message of the
  watcher, the first poll and a tick of the rebuild task, a step of the health checker or a
  whole round of it, a request and a change in the outside world: from then on the servers of the registries answer
  differently, or a registry client has another token.  \<^verbatim>\<open>run_server\<close> starts the watcher and
  the rebuild task before the plugin chain and the shared state of the handlers are built.  What
  these do in this window is a parameter of start-up (\<open>su_early\<close>): the shared state is built
  from the slots as they are then, and so the circuit breaker has the settings of the
  configuration of that moment; the registries, the plugin chain, the health checker and
  the address are those of the private copy of the configuration.  An
  \<^verbatim>\<open>Arc\<close> in the configuration slot is the pair of its address and its content,
  because the rebuild task compares addresses.
\<close>

section \<open>The configuration watcher\<close>

datatype event_kind = ModifyEvent | CreateEvent | OtherEvent

text \<open>Paths are compared by their components; a path here is the text of the components.\<close>

datatype watch_message = WatchError string | WatchEvent event_kind "string list"

type_synonym config_slot = "nat \<times> app_config"

definition relevant_event :: "event_kind \<Rightarrow> string list \<Rightarrow> string \<Rightarrow> bool" where
  "relevant_event k paths config_path =
     ((k = ModifyEvent \<or> k = CreateEvent) \<and> list_ex (\<lambda>p. same_path p config_path) paths)"

text \<open>\<open>fresh\<close> is the address of the new \<^verbatim>\<open>Arc\<close>.\<close>

definition handle_event ::
  "world \<Rightarrow> ext \<Rightarrow> event_kind \<Rightarrow> string list \<Rightarrow> string \<Rightarrow> nat \<Rightarrow> config_slot \<Rightarrow> config_slot" where
  "handle_event w x k paths config_path fresh slot =
     (if \<not> relevant_event k paths config_path then slot
      else case load_config w x config_path of
             Inr new_config \<Rightarrow> (fresh, new_config)
           | Inl e \<Rightarrow> slot)"

definition on_watch_message ::
  "world \<Rightarrow> ext \<Rightarrow> watch_message \<Rightarrow> string \<Rightarrow> nat \<Rightarrow> config_slot \<Rightarrow> config_slot" where
  "on_watch_message w x msg config_path fresh slot =
     (case msg of
        WatchEvent k paths \<Rightarrow> handle_event w x k paths config_path fresh slot
      | WatchError e \<Rightarrow> slot)"

text \<open>The directory that is watched.\<close>

definition watched_dir :: "string \<Rightarrow> string" where
  "watched_dir config_path = (case path_parent config_path of None \<Rightarrow> ''.'' | Some d \<Rightarrow> d)"

section \<open>The rebuild task\<close>

text \<open>One pass of the loop on the last address it saw and the shared router.\<close>

definition rebuild_tick :: "ext \<Rightarrow> config_slot \<Rightarrow> nat \<times> router_snapshot \<Rightarrow> nat \<times> router_snapshot" where
  "rebuild_tick x slot lr =
     (let (last_ptr, router) = lr; (current_ptr, current) = slot
      in if current_ptr \<noteq> last_ptr then (current_ptr, snd (rebuild_router x router current))
         else (last_ptr, router))"

text \<open>The slots that the watcher and the rebuild task share: the configuration, the address that
  the task saw last, once it has been polled, and the router.  \<open>early_step\<close> is what may happen
  while \<^verbatim>\<open>run_server\<close> is still building: a message of the watcher, or a turn of the task,
  its first poll or a tick.  A new \<^verbatim>\<open>Arc\<close> is allocated while the slot still holds the old
  one, so it never has its address.\<close>

datatype early_event = FileSeen world watch_message nat | TaskTurn

type_synonym shared_slots = "config_slot \<times> nat option \<times> router_snapshot"

fun early_step :: "ext \<Rightarrow> string \<Rightarrow> early_event \<Rightarrow> shared_slots \<Rightarrow> shared_slots" where
  "early_step x config_path (FileSeen w msg fresh) (slot, seen, router) =
     (if fresh = fst slot then slot else on_watch_message w x msg config_path fresh slot, seen, router)"
| "early_step x config_path TaskTurn (slot, None, router) = (slot, Some (fst slot), router)"
| "early_step x config_path TaskTurn (slot, Some last_ptr, router) =
     (let (l, r) = rebuild_tick x slot (last_ptr, router) in (slot, Some l, r))"

section \<open>The routes of the HTTP server\<close>

datatype endpoint = EHealth | EReady | EMetrics | EPrometheus | EProxy

definition endpoint_of :: "string \<Rightarrow> endpoint" where
  "endpoint_of path =
     (if path = ''/health'' then EHealth
      else if path = ''/ready'' then EReady
      else if path = ''/metrics'' then EMetrics
      else if path = ''/metrics/prometheus'' then EPrometheus
      else EProxy)"

datatype answer =
    Json "nat \<times> json"
  | Text "nat \<times> header_map \<times> string"
  | MethodNotAllowed
  | Proxied "(proxy_error + response) option"

text \<open>\<^verbatim>\<open>get(handler)\<close> also answers \<^verbatim>\<open>HEAD\<close>.\<close>

definition serve ::
  "ext \<Rightarrow> string list \<Rightarrow> string list \<Rightarrow> env \<Rightarrow> request \<Rightarrow> app_state \<Rightarrow> answer \<times> app_state" where
  "serve x ks fs e req st =
     (let get_only = (\<lambda>a. (if req_method req = ''GET'' \<or> req_method req = ''HEAD'' then a else MethodNotAllowed, st))
      in case endpoint_of (req_path req) of
           EHealth \<Rightarrow> get_only (Json health_handler)
         | EReady \<Rightarrow> get_only (Json (ready_handler st))
         | EMetrics \<Rightarrow> get_only (Json (metrics_handler ks fs st))
         | EPrometheus \<Rightarrow> get_only (Text (metrics_prometheus_handler ks fs st))
         | EProxy \<Rightarrow> (let (r, st') = proxy_handler x e st req in (Proxied r, st')))"

section \<open>Start-up\<close>

record server =
  sv_path :: string
  sv_ptr :: nat
  sv_last_ptr :: "nat option"      \<comment> \<open>of the rebuild task, once it has been polled\<close>
  sv_health_check :: "health_check_config option"
  sv_checker :: checker
  sv_clients :: clients      \<comment> \<open>of the registries that the resolver holds\<close>
  sv_state :: app_state

text \<open>The other collaborators of start-up: the error of watching a directory and of binding
  an address, if any, and what happens between the start of the watcher and the building of the
  shared state.\<close>

record startup_ext =
  su_registry :: registry_ext
  su_watch_error :: "string \<Rightarrow> string option"
  su_bind_error :: "string \<Rightarrow> string option"
  su_early :: "early_event list"

datatype startup = Failed string | Exited nat | Serving server

definition load_with_overrides :: "world \<Rightarrow> ext \<Rightarrow> string \<Rightarrow> string option \<Rightarrow> config_error + app_config" where
  "load_with_overrides w x config_path local_override =
     res_bind (load_config w x config_path) (\<lambda>cfg.
     (case local_override of
        None \<Rightarrow> Inr cfg
      | Some p \<Rightarrow> res_bind (load_local_overrides w p) (\<lambda>es. Inr (apply_local_overrides es cfg))))"

definition listen_addr :: "server_config \<Rightarrow> string" where
  "listen_addr sc = host sc @ '':'' @ show_nat (unat (port sc))"

text \<open>The state of the handlers is built from the content of the configuration slot.\<close>

definition run_server ::
  "world \<Rightarrow> ext \<Rightarrow> startup_ext \<Rightarrow> string \<Rightarrow> string option \<Rightarrow> startup" where
  "run_server w x u config_path local_override =
     (case load_with_overrides w x config_path local_override of
        Inl e \<Rightarrow> Exited 1
      | Inr config \<Rightarrow>
     (case build_resolver (su_registry u) config of
        Inl e \<Rightarrow> Exited 1
      | Inr resolver \<Rightarrow>
     (case from_config x config of
        Inl e \<Rightarrow> Exited 1
      | Inr snap \<Rightarrow>
     (case su_watch_error u (watched_dir config_path) of
        Some e \<Rightarrow> Failed (''Failed to start config watcher: '' @ e)
      | None \<Rightarrow>
     (case build_plugin_chain x (plugins (server config)) of
        Inl e \<Rightarrow> Exited 1
      | Inr chain \<Rightarrow>
     (let ((ptr, current), last_ptr, router) = fold (early_step x config_path) (su_early u) ((0, config), None, snap) in
     (case su_bind_error u (listen_addr (server config)) of
        Some e \<Rightarrow> Exited 1
      | None \<Rightarrow>
          Serving \<lparr> sv_path = config_path, sv_ptr = ptr, sv_last_ptr = last_ptr,
            sv_health_check = health_check (server config), sv_checker = Resting, sv_clients = clients_of (su_registry u) config,
            sv_state = (app_state_new router resolver current default_metrics)\<lparr> st_plugins := chain \<rparr> \<rparr>)))))))"

section \<open>The running server\<close>

text \<open>\<open>Backends\<close>: the registries' servers answer differently from now on, or a client has taken
  another token.\<close>

datatype server_event =
    FileMessage world watch_message nat
  | TaskStart
  | RebuildTick
  | ProbeRound "string \<Rightarrow> bool"
  | HealthStep "string \<Rightarrow> bool"
  | Backends registry_ext clients
  | Request "string list" "string list" env request

definition config_slot_of :: "server \<Rightarrow> config_slot" where
  "config_slot_of s = (sv_ptr s, st_config (sv_state s))"

definition file_message :: "ext \<Rightarrow> world \<Rightarrow> watch_message \<Rightarrow> nat \<Rightarrow> server \<Rightarrow> server" where
  "file_message x w msg fresh s =
     (let (p, cfg) = on_watch_message w x msg (sv_path s) fresh (config_slot_of s)
      in s\<lparr> sv_ptr := p, sv_state := (sv_state s)\<lparr> st_config := cfg \<rparr> \<rparr>)"

definition first_poll :: "server \<Rightarrow> server" where
  "first_poll s = s\<lparr> sv_last_ptr := Some (sv_ptr s) \<rparr>"

definition rebuild_task :: "ext \<Rightarrow> server \<Rightarrow> server" where
  "rebuild_task x s =
     (case sv_last_ptr s of
        None \<Rightarrow> s
      | Some last_ptr \<Rightarrow>
          (let (l, r) = rebuild_tick x (config_slot_of s) (last_ptr, st_router (sv_state s))
           in s\<lparr> sv_last_ptr := Some l, sv_state := (sv_state s)\<lparr> st_router := r \<rparr> \<rparr>))"

definition health_round :: "health_check_config \<Rightarrow> (string \<Rightarrow> bool) \<Rightarrow> app_state \<Rightarrow> app_state" where
  "health_round hc get_ok st =
     st\<lparr> st_health := probe_all hc get_ok (st_resolver st) (st_config st) (st_health st) \<rparr>"

definition health_task :: "health_check_config \<Rightarrow> (string \<Rightarrow> bool) \<Rightarrow> server \<Rightarrow> server" where
  "health_task hc get_ok s =
     (let (p, h) = checker_step hc get_ok (st_resolver (sv_state s)) (st_config (sv_state s))
            (sv_checker s, st_health (sv_state s))
      in s\<lparr> sv_checker := p, sv_state := (sv_state s)\<lparr> st_health := h \<rparr> \<rparr>)"

definition new_view :: "registry_ext \<Rightarrow> clients \<Rightarrow> server \<Rightarrow> server" where
  "new_view rx cs s = s\<lparr> sv_clients := cs, sv_state := (sv_state s)\<lparr> st_resolver :=
     resolver_at rx (res_query_mode (st_resolver (sv_state s))) cs \<rparr> \<rparr>"

text \<open>A new \<^verbatim>\<open>Arc\<close> is allocated while the slot still holds the old one.\<close>

inductive server_step :: "ext \<Rightarrow> server \<Rightarrow> server_event \<Rightarrow> server \<Rightarrow> bool" for x where
  reload: "fresh \<noteq> sv_ptr s \<Longrightarrow> server_step x s (FileMessage w msg fresh) (file_message x w msg fresh s)"
| start: "sv_last_ptr s = None \<Longrightarrow> server_step x s TaskStart (first_poll s)"
| tick: "sv_last_ptr s \<noteq> None \<Longrightarrow> server_step x s RebuildTick (rebuild_task x s)"
| probe: "sv_health_check s = Some hc \<Longrightarrow> sv_checker s = Resting \<Longrightarrow>
    server_step x s (ProbeRound get_ok) (s\<lparr> sv_state := health_round hc get_ok (sv_state s) \<rparr>)"
| check: "sv_health_check s = Some hc \<Longrightarrow> server_step x s (HealthStep get_ok) (health_task hc get_ok s)"
| backends: "clients_move rx (sv_clients s) cs \<Longrightarrow> server_step x s (Backends rx cs) (new_view rx cs s)"
| request: "server_step x s (Request ks fs e req) (s\<lparr> sv_state := snd (serve x ks fs e req (sv_state s)) \<rparr>)"

inductive server_run :: "ext \<Rightarrow> server \<Rightarrow> server_event list \<Rightarrow> server \<Rightarrow> bool" for x where
  stop: "server_run x s [] s"
| more: "server_step x s ev s' \<Longrightarrow> server_run x s' evs s'' \<Longrightarrow> server_run x s (ev # evs) s''"

inductive_simps server_step_simps:
  "server_step x s (FileMessage w msg fresh) s'"
  "server_step x s TaskStart s'"
  "server_step x s RebuildTick s'"
  "server_step x s (ProbeRound get_ok) s'"
  "server_step x s (HealthStep get_ok) s'"
  "server_step x s (Backends rx cs) s'"
  "server_step x s (Request ks fs e req) s'"
inductive_simps server_run_simps:
  "server_run x s [] s'"
  "server_run x s (ev # evs) s'"

lemma server_run_append:
  "server_run x s (us @ vs) s'' \<longleftrightarrow> (\<exists>s'. server_run x s us s' \<and> server_run x s' vs s'')"
  by (induction us arbitrary: s) (auto simp: server_run_simps)

section \<open>What requests leave alone\<close>

text \<open>The parts of the state that only start-up and reloading write.\<close>

definition installed :: "app_state \<Rightarrow> router_snapshot \<times> multi_registry_resolver \<times> app_config \<times> plugin list" where
  "installed st = (st_router st, st_resolver st, st_config st, st_plugins st)"

lemma installed_counts [simp]:
  "installed (count_failure c st) = installed st"
  "installed (count_hit r st) = installed st"
  "installed (st\<lparr> st_rr := rr \<rparr>) = installed st"
  "installed (st\<lparr> st_breaker := cb \<rparr>) = installed st"
  "installed (st\<lparr> st_health := h \<rparr>) = installed st"
  by (simp_all add: installed_def count_failure_def count_hit_def)

lemma installed_upstream_base_of [simp]: "installed (snd (upstream_base_of e rule path st)) = installed st"
  by (simp add: upstream_base_of_def Let_def split: option.split sum.split prod.split)

lemma installed_forward [simp]: "installed (snd (forward x e rule req rid path base st)) = installed st"
  by (auto simp: forward_def Let_def split: option.splits sum.splits prod.splits if_splits)

lemma installed_proxy_handler [simp]: "installed (snd (proxy_handler x e st req)) = installed st"
proof -
  have base: "upstream_base_of e rule path st' = (b, st2) \<Longrightarrow> installed st2 = installed st'" for rule path st' b st2
    using installed_upstream_base_of [of e rule path st'] by simp
  have fwd: "forward x e rule r rid path base st' = (b, st2) \<Longrightarrow> installed st2 = installed st'"
    for rule r rid path base st' b st2
    using installed_forward [of x e rule r rid path base st'] by simp
  show ?thesis
    by (auto simp: proxy_handler_def Let_def dest!: base fwd
        split: option.split sum.split prod.split request_action.split)
qed

lemma installed_serve [simp]: "installed (snd (serve x ks fs e req st)) = installed st"
  using installed_proxy_handler [of x e st req]
  by (cases "proxy_handler x e st req"; cases "endpoint_of (req_path req)") (simp_all add: serve_def Let_def)

lemma installed_health_round [simp]: "installed (health_round hc get_ok st) = installed st"
  by (simp add: health_round_def)

lemma installed_eq:
  "installed st = installed st' \<longleftrightarrow> st_router st = st_router st' \<and> st_resolver st = st_resolver st' \<and>
     st_config st = st_config st' \<and> st_plugins st = st_plugins st'"
  by (simp add: installed_def)

lemma serve_fields [simp]:
  "st_router (snd (serve x ks fs e req st)) = st_router st"
  "st_resolver (snd (serve x ks fs e req st)) = st_resolver st"
  "st_config (snd (serve x ks fs e req st)) = st_config st"
  "st_plugins (snd (serve x ks fs e req st)) = st_plugins st"
  using installed_serve [of x ks fs e req st] unfolding installed_eq by blast+

lemma health_round_fields [simp]:
  "st_router (health_round hc get_ok st) = st_router st"
  "st_resolver (health_round hc get_ok st) = st_resolver st"
  "st_config (health_round hc get_ok st) = st_config st"
  "st_plugins (health_round hc get_ok st) = st_plugins st"
  by (simp_all add: health_round_def)

lemma file_message_fields [simp]:
  "st_router (sv_state (file_message x w msg fresh s)) = st_router (sv_state s)"
  "st_resolver (sv_state (file_message x w msg fresh s)) = st_resolver (sv_state s)"
  "st_plugins (sv_state (file_message x w msg fresh s)) = st_plugins (sv_state s)"
  "sv_last_ptr (file_message x w msg fresh s) = sv_last_ptr s"
  "sv_path (file_message x w msg fresh s) = sv_path s"
  "sv_health_check (file_message x w msg fresh s) = sv_health_check s"
  "sv_clients (file_message x w msg fresh s) = sv_clients s"
  by (simp_all add: file_message_def split: prod.split)

lemma rebuild_task_fields [simp]:
  "st_resolver (sv_state (rebuild_task x s)) = st_resolver (sv_state s)"
  "st_config (sv_state (rebuild_task x s)) = st_config (sv_state s)"
  "st_plugins (sv_state (rebuild_task x s)) = st_plugins (sv_state s)"
  "sv_ptr (rebuild_task x s) = sv_ptr s"
  "sv_path (rebuild_task x s) = sv_path s"
  "sv_health_check (rebuild_task x s) = sv_health_check s"
  "sv_clients (rebuild_task x s) = sv_clients s"
  by (simp_all add: rebuild_task_def split: prod.split option.split)

lemma first_poll_fields [simp]:
  "sv_state (first_poll s) = sv_state s"
  "sv_last_ptr (first_poll s) = Some (sv_ptr s)"
  "sv_ptr (first_poll s) = sv_ptr s"
  "sv_path (first_poll s) = sv_path s"
  "sv_health_check (first_poll s) = sv_health_check s"
  "sv_clients (first_poll s) = sv_clients s"
  by (simp_all add: first_poll_def)

lemma health_task_eq:
  "health_task hc get_ok s =
     (let r = checker_step hc get_ok (st_resolver (sv_state s)) (st_config (sv_state s)) (sv_checker s, st_health (sv_state s))
      in s\<lparr> sv_checker := fst r, sv_state := (sv_state s)\<lparr> st_health := snd r \<rparr> \<rparr>)"
  by (simp add: health_task_def Let_def split_beta)

lemma health_task_fields [simp]:
  "st_router (sv_state (health_task hc get_ok s)) = st_router (sv_state s)"
  "st_resolver (sv_state (health_task hc get_ok s)) = st_resolver (sv_state s)"
  "st_config (sv_state (health_task hc get_ok s)) = st_config (sv_state s)"
  "st_plugins (sv_state (health_task hc get_ok s)) = st_plugins (sv_state s)"
  "st_metrics (sv_state (health_task hc get_ok s)) = st_metrics (sv_state s)"
  "st_breaker (sv_state (health_task hc get_ok s)) = st_breaker (sv_state s)"
  "sv_ptr (health_task hc get_ok s) = sv_ptr s"
  "sv_last_ptr (health_task hc get_ok s) = sv_last_ptr s"
  "sv_path (health_task hc get_ok s) = sv_path s"
  "sv_health_check (health_task hc get_ok s) = sv_health_check s"
  "sv_clients (health_task hc get_ok s) = sv_clients s"
  by (simp_all add: health_task_eq Let_def)

lemma new_view_fields [simp]:
  "st_router (sv_state (new_view rx cs s)) = st_router (sv_state s)"
  "st_config (sv_state (new_view rx cs s)) = st_config (sv_state s)"
  "st_plugins (sv_state (new_view rx cs s)) = st_plugins (sv_state s)"
  "st_metrics (sv_state (new_view rx cs s)) = st_metrics (sv_state s)"
  "st_breaker (sv_state (new_view rx cs s)) = st_breaker (sv_state s)"
  "sv_ptr (new_view rx cs s) = sv_ptr s"
  "sv_last_ptr (new_view rx cs s) = sv_last_ptr s"
  "sv_path (new_view rx cs s) = sv_path s"
  "sv_health_check (new_view rx cs s) = sv_health_check s"
  "sv_clients (new_view rx cs s) = cs"
  "st_resolver (sv_state (new_view rx cs s)) = resolver_at rx (res_query_mode (st_resolver (sv_state s))) cs"
  by (simp_all add: new_view_def)

text \<open>What a message and a tick do.\<close>

lemma file_message_store:
  "st_config (sv_state (file_message x w msg fresh s)) =
     (case msg of
        WatchEvent k paths \<Rightarrow> if relevant_event k paths (sv_path s)
          then (case load_config w x (sv_path s) of Inr c \<Rightarrow> c | Inl _ \<Rightarrow> st_config (sv_state s))
          else st_config (sv_state s)
      | WatchError _ \<Rightarrow> st_config (sv_state s))"
  "sv_ptr (file_message x w msg fresh s) =
     (case msg of
        WatchEvent k paths \<Rightarrow> if relevant_event k paths (sv_path s)
          then (case load_config w x (sv_path s) of Inr c \<Rightarrow> fresh | Inl _ \<Rightarrow> sv_ptr s)
          else sv_ptr s
      | WatchError _ \<Rightarrow> sv_ptr s)"
  by (auto simp: file_message_def on_watch_message_def handle_event_def config_slot_of_def
      split: watch_message.split sum.split)

lemma rebuild_task_result:
  "sv_last_ptr (rebuild_task x s) = (if sv_last_ptr s = None then None else Some (sv_ptr s))"
  "st_router (sv_state (rebuild_task x s)) =
     (if sv_last_ptr s \<in> {None, Some (sv_ptr s)} then st_router (sv_state s)
      else case from_config x (st_config (sv_state s)) of Inr snap \<Rightarrow> snap | Inl _ \<Rightarrow> st_router (sv_state s))"
  by (auto simp: rebuild_task_def rebuild_tick_def config_slot_of_def rebuild_router_def split: sum.split option.split)

section \<open>Start-up\<close>

text \<open>The slots of a server, and what they are when it starts.\<close>

definition slots_of :: "server \<Rightarrow> shared_slots" where
  "slots_of s = (config_slot_of s, sv_last_ptr s, st_router (sv_state s))"

lemma slots_of_eq:
  "slots_of s = ((ptr, cfg), seen, router) \<longleftrightarrow>
     sv_ptr s = ptr \<and> st_config (sv_state s) = cfg \<and> sv_last_ptr s = seen \<and> st_router (sv_state s) = router"
  by (auto simp: slots_of_def config_slot_of_def)

lemma run_server_serving:
  assumes "run_server w x u p lo = Serving s"
  shows "\<exists>cfg resolver snap. load_with_overrides w x p lo = Inr cfg \<and>
    build_resolver (su_registry u) cfg = Inr resolver \<and> st_resolver (sv_state s) = resolver \<and>
    from_config x cfg = Inr snap \<and>
    slots_of s = fold (early_step x p) (su_early u) ((0, cfg), None, snap) \<and>
    build_plugin_chain x (plugins (server cfg)) = Inr (st_plugins (sv_state s)) \<and>
    sv_health_check s = health_check (server cfg) \<and> sv_path s = p"
    and "sv_checker s = Resting" and "st_health (sv_state s) = health_status_new"
    and "st_breaker (sv_state s) = circuit_breaker_new (circuit_breaker_threshold (server (st_config (sv_state s))))
      (circuit_breaker_recovery_secs (server (st_config (sv_state s))))"
  using assms by (auto simp: run_server_def app_state_new_def slots_of_eq Let_def split: sum.splits option.splits prod.splits)

lemma run_server_path: "run_server w x u p lo = Serving s \<Longrightarrow> sv_path s = p"
  using run_server_serving by blast

text \<open>Nothing happens in the window.\<close>

lemma run_server_quiet:
  assumes "run_server w x u p lo = Serving s" and "su_early u = []" and "load_with_overrides w x p lo = Inr cfg"
  shows "sv_ptr s = 0" and "st_config (sv_state s) = cfg" and "sv_last_ptr s = None"
    and "from_config x cfg = Inr (st_router (sv_state s))"
  using run_server_serving(1) [OF assms(1)] assms(2,3) by (auto simp: slots_of_eq)

lemma run_server_clients:
  assumes "run_server w x u p lo = Serving s" and "load_with_overrides w x p lo = Inr cfg"
  shows "build_clients (su_registry u) cfg = Inr (sv_clients s)"
    and "st_resolver (sv_state s) = resolver_at (su_registry u) (query_mode (registries cfg)) (sv_clients s)"
  using assms by (auto simp: run_server_def app_state_new_def clients_of_def build_resolver_def res_simps
      split: sum.splits option.splits prod.splits)

section \<open>Reloading\<close>

text \<open>The routes in use are those of the current configuration, if these compile.\<close>

definition synced :: "ext \<Rightarrow> server \<Rightarrow> bool" where
  "synced x s = (\<forall>snap. from_config x (st_config (sv_state s)) = Inr snap \<longrightarrow> st_router (sv_state s) = snap)"

text \<open>A message of the watcher comes when none is pending, which its successor makes it until the
  next tick, and which the start is until the first poll of the rebuild task: the watcher sleeps
  500 ms before it loads, the rebuild task 200 ms between ticks.\<close>

fun apart :: "bool \<Rightarrow> server_event list \<Rightarrow> bool" where
  "apart pending [] = True"
| "apart pending (FileMessage w msg fresh # evs) = (\<not> pending \<and> apart True evs)"
| "apart pending (TaskStart # evs) = apart False evs"
| "apart pending (RebuildTick # evs) = apart False evs"
| "apart pending (ev # evs) = apart pending evs"

fun pending_after :: "bool \<Rightarrow> server_event \<Rightarrow> bool" where
  "pending_after pending (FileMessage _ _ _) = True"
| "pending_after pending TaskStart = False"
| "pending_after pending RebuildTick = False"
| "pending_after pending _ = pending"

lemma apart_pending: "apart pending (ev # evs) \<Longrightarrow> apart (pending_after pending ev) evs"
  by (cases ev) simp_all

definition ready_to_store :: "ext \<Rightarrow> bool \<Rightarrow> server \<Rightarrow> bool" where
  "ready_to_store x pending s =
     ((sv_last_ptr s \<in> {None, Some (sv_ptr s)} \<longrightarrow> synced x s) \<and> (\<not> pending \<longrightarrow> sv_last_ptr s = Some (sv_ptr s)))"

lemma synced_tick:
  "(sv_last_ptr s \<in> {None, Some (sv_ptr s)} \<longrightarrow> synced x s) \<Longrightarrow> sv_last_ptr s \<noteq> None \<Longrightarrow>
     ready_to_store x False (rebuild_task x s)"
  by (auto simp: ready_to_store_def synced_def rebuild_task_result)

text \<open>The same of the slots, for the window of start-up.\<close>

fun as_event :: "early_event \<Rightarrow> server_event" where
  "as_event (FileSeen w msg fresh) = FileMessage w msg fresh"
| "as_event TaskTurn = RebuildTick"

definition slots_ready :: "ext \<Rightarrow> bool \<Rightarrow> shared_slots \<Rightarrow> bool" where
  "slots_ready x pending sl = (case sl of ((ptr, cfg), seen, router) \<Rightarrow>
     (seen \<in> {None, Some ptr} \<longrightarrow> (\<forall>snap. from_config x cfg = Inr snap \<longrightarrow> router = snap)) \<and>
     (\<not> pending \<longrightarrow> seen = Some ptr))"

lemma slots_ready_server: "slots_ready x pending (slots_of s) \<longleftrightarrow> ready_to_store x pending s"
  by (auto simp: slots_ready_def ready_to_store_def synced_def slots_of_def config_slot_of_def)

lemma early_ready_step:
  assumes "apart pending (as_event ev # evs)" and "slots_ready x pending sl"
  shows "slots_ready x (pending_after pending (as_event ev)) (early_step x p ev sl)"
proof -
  obtain ptr cfg seen router where sl: "sl = ((ptr, cfg), seen, router)"
    by (metis prod_cases3 surj_pair)
  show ?thesis
  proof (cases ev)
    case (FileSeen w msg fresh)
    with assms show ?thesis
      by (auto simp: sl slots_ready_def on_watch_message_def handle_event_def split: watch_message.split sum.split)
  next
    case TaskTurn
    with assms(2) show ?thesis
      by (cases seen) (auto simp: sl slots_ready_def rebuild_tick_def rebuild_router_def split: sum.split)
  qed
qed

lemma early_ready:
  "apart pending (map as_event es @ evs) \<Longrightarrow> slots_ready x pending sl \<Longrightarrow>
     \<exists>pending'. apart pending' evs \<and> slots_ready x pending' (fold (early_step x p) es sl)"
proof (induction es arbitrary: pending sl)
  case Nil
  then show ?case by auto
next
  case (Cons ev es)
  then have step: "apart pending (as_event ev # map as_event es @ evs)" "slots_ready x pending sl"
    by simp_all
  from Cons.IH [OF apart_pending [OF step(1)] early_ready_step [OF step, of p]] show ?case
    by simp
qed

lemma run_server_ready:
  assumes "run_server w x u p lo = Serving s0" and "apart True (map as_event (su_early u) @ evs)"
  shows "\<exists>pending. apart pending evs \<and> ready_to_store x pending s0"
proof -
  obtain cfg snap where start: "from_config x cfg = Inr snap"
    "slots_of s0 = fold (early_step x p) (su_early u) ((0, cfg), None, snap)"
    using run_server_serving(1) [OF assms(1)] by blast
  from start(1) have "slots_ready x True ((0, cfg), None, snap)"
    by (simp add: slots_ready_def)
  from early_ready [OF assms(2) this, of p] show ?thesis
    unfolding start(2) [symmetric] slots_ready_server .
qed

lemma ready_step:
  assumes "server_step x s ev s'" and "apart pending (ev # evs)" and "ready_to_store x pending s"
  shows "ready_to_store x (pending_after pending ev) s'"
  using assms(1)
proof (cases rule: server_step.cases)
  case (reload fresh w msg)
  with assms(2,3) have "sv_last_ptr s = Some (sv_ptr s)" "synced x s"
    by (auto simp: ready_to_store_def)
  with reload show ?thesis
    by (auto simp: ready_to_store_def synced_def file_message_store split: watch_message.splits sum.splits if_splits)
next
  case tick
  with assms(2,3) show ?thesis
    using synced_tick [of s x] by (auto simp: ready_to_store_def)
qed (use assms(2,3) in \<open>simp_all add: ready_to_store_def synced_def\<close>)

lemma ready_run:
  "server_run x s evs s' \<Longrightarrow> apart pending evs \<Longrightarrow> ready_to_store x pending s \<Longrightarrow>
     sv_last_ptr s' \<in> {None, Some (sv_ptr s')} \<longrightarrow> synced x s'"
proof (induction arbitrary: pending rule: server_run.induct)
  case (stop s)
  then show ?case by (simp add: ready_to_store_def)
next
  case (more s ev s' evs s'')
  then show ?case using ready_step apart_pending by blast
qed

text \<open>Reloading takes effect: in every run of a started server in which, from the start of the watcher on, the rebuild task
  is polled before the first message of the watcher and ticks at least once between two, whatever requests and health
  rounds are interleaved, after each tick the routes in use are those of the current
  configuration, provided that they compile.\<close>

theorem reload_takes_effect:
  assumes "run_server w x u p lo = Serving s0"
    and "server_run x s0 (evs @ [RebuildTick]) s" and "apart True (map as_event (su_early u) @ evs)"
    and "from_config x (st_config (sv_state s)) = Inr snap"
  shows "st_router (sv_state s) = snap"
proof -
  obtain s1 where s1: "server_run x s0 evs s1" "sv_last_ptr s1 \<noteq> None" and s: "s = rebuild_task x s1"
    using assms(2) by (auto simp: server_run_append server_run_simps server_step_simps)
  obtain pending where "apart pending evs" "ready_to_store x pending s0"
    using run_server_ready [OF assms(1,3)] by blast
  from ready_run [OF s1(1) this] s1(2) have "ready_to_store x False s"
    unfolding s by (rule synced_tick)
  with assms(4) show ?thesis by (simp add: ready_to_store_def synced_def)
qed

text \<open>A configuration of the start, or one that the loader returned for one of the given messages
  of the watcher.\<close>

definition loaded_by :: "ext \<Rightarrow> string \<Rightarrow> app_config \<Rightarrow> server_event set \<Rightarrow> app_config \<Rightarrow> bool" where
  "loaded_by x p cfg0 M cfg =
     (cfg = cfg0 \<or> (\<exists>w k paths fresh. FileMessage w (WatchEvent k paths) fresh \<in> M \<and>
        relevant_event k paths p \<and> load_config w x p = Inr cfg))"

lemma loaded_start [simp]: "loaded_by x p cfg0 M cfg0"
  by (simp add: loaded_by_def)

lemma loaded_message:
  "FileMessage w (WatchEvent k paths) fresh \<in> M \<Longrightarrow> relevant_event k paths p \<Longrightarrow> load_config w x p = Inr cfg \<Longrightarrow>
     loaded_by x p cfg0 M cfg"
  by (auto simp: loaded_by_def)

text \<open>The messages a run has seen: those of the window of start-up and those since.\<close>

definition events_since_start :: "startup_ext \<Rightarrow> server_event list \<Rightarrow> server_event set" where
  "events_since_start u evs = set (map as_event (su_early u) @ evs)"

definition slots_loaded :: "ext \<Rightarrow> string \<Rightarrow> app_config \<Rightarrow> server_event set \<Rightarrow> shared_slots \<Rightarrow> bool" where
  "slots_loaded x p cfg0 M sl = (case sl of ((ptr, current), seen, router) \<Rightarrow>
     loaded_by x p cfg0 M current \<and> (\<exists>cfg. loaded_by x p cfg0 M cfg \<and> from_config x cfg = Inr router))"

lemma early_loaded:
  "as_event ` set es \<subseteq> M \<Longrightarrow> slots_loaded x p cfg0 M sl \<Longrightarrow> slots_loaded x p cfg0 M (fold (early_step x p) es sl)"
proof (induction es arbitrary: sl)
  case (Cons ev es)
  obtain ptr cfg seen router where sl: "sl = ((ptr, cfg), seen, router)"
    by (metis prod_cases3 surj_pair)
  have "slots_loaded x p cfg0 M (early_step x p ev sl)"
  proof (cases ev)
    case (FileSeen w msg fresh)
    with Cons.prems show ?thesis
      by (auto simp: sl slots_loaded_def on_watch_message_def handle_event_def
          split: watch_message.split sum.split intro: loaded_message)
  next
    case TaskTurn
    with Cons.prems(2) show ?thesis
      by (cases seen) (auto simp: sl slots_loaded_def rebuild_tick_def rebuild_router_def split: sum.split)
  qed
  with Cons show ?case by simp
qed simp

lemma run_server_loaded:
  assumes "run_server w x u p lo = Serving s0"
  shows "\<exists>cfg0. load_with_overrides w x p lo = Inr cfg0 \<and> slots_loaded x p cfg0 (events_since_start u evs) (slots_of s0)"
proof -
  obtain cfg snap where start: "load_with_overrides w x p lo = Inr cfg" "from_config x cfg = Inr snap"
    "slots_of s0 = fold (early_step x p) (su_early u) ((0, cfg), None, snap)"
    using run_server_serving(1) [OF assms] by blast
  from start(2) have "slots_loaded x p cfg (events_since_start u evs) ((0, cfg), None, snap)"
    by (auto simp: slots_loaded_def intro: exI [of _ cfg])
  moreover have "as_event ` set (su_early u) \<subseteq> events_since_start u evs"
    by (simp add: events_since_start_def)
  ultimately show ?thesis
    using start(1,3) early_loaded by metis
qed

lemma step_loaded:
  assumes "server_step x s ev s'" and "ev \<in> M" and "slots_loaded x (sv_path s) cfg0 M (slots_of s)"
  shows "slots_loaded x (sv_path s) cfg0 M (slots_of s') \<and> sv_path s' = sv_path s"
  using assms(1)
proof (cases rule: server_step.cases)
  case (reload fresh w msg)
  with assms(2,3) show ?thesis
    by (auto simp: slots_loaded_def slots_of_def config_slot_of_def file_message_store
        split: watch_message.split sum.split intro: loaded_message)
next
  case tick
  with assms(3) show ?thesis
    by (auto simp: slots_loaded_def slots_of_def config_slot_of_def rebuild_task_result split: sum.split)
qed (use assms(3) in \<open>simp_all add: slots_loaded_def slots_of_def config_slot_of_def\<close>)

lemma run_loaded:
  "server_run x s evs s' \<Longrightarrow> set evs \<subseteq> M \<Longrightarrow> slots_loaded x (sv_path s) cfg0 M (slots_of s) \<Longrightarrow>
     slots_loaded x (sv_path s) cfg0 M (slots_of s')"
proof (induction rule: server_run.induct)
  case (more s ev s' evs s'')
  with step_loaded [OF more.hyps(1)] show ?case by auto
qed

text \<open>Every routing table in use stems from a configuration file that was loaded and
  compiled: at any point of any run of a started server it is the compiled form of the
  configuration of the start (with its local overrides) or of one that \<^verbatim>\<open>load_config\<close>
  returned for a message of the watcher since.\<close>

theorem served_router_loaded:
  assumes "run_server w x u p lo = Serving s0" and "server_run x s0 evs s"
  shows "\<exists>cfg0 cfg. load_with_overrides w x p lo = Inr cfg0 \<and> from_config x cfg = Inr (st_router (sv_state s)) \<and>
    (cfg = cfg0 \<or> (\<exists>w' k paths fresh. FileMessage w' (WatchEvent k paths) fresh \<in> set (map as_event (su_early u) @ evs) \<and>
       relevant_event k paths p \<and> load_config w' x p = Inr cfg))"
proof -
  obtain cfg0 where cfg0: "load_with_overrides w x p lo = Inr cfg0"
    "slots_loaded x p cfg0 (events_since_start u evs) (slots_of s0)"
    using run_server_loaded [OF assms(1)] by blast
  have "set evs \<subseteq> events_since_start u evs"
    by (simp add: events_since_start_def)
  with run_loaded [OF assms(2) this, of cfg0] cfg0(2) run_server_path [OF assms(1)]
  have "slots_loaded x p cfg0 (events_since_start u evs) (slots_of s)"
    by simp
  then obtain cfg where "loaded_by x p cfg0 (events_since_start u evs) cfg" "from_config x cfg = Inr (st_router (sv_state s))"
    by (auto simp: slots_loaded_def slots_of_def config_slot_of_def)
  with cfg0(1) show ?thesis
    unfolding loaded_by_def events_since_start_def by blast
qed

text \<open>The outside worlds that a run has seen, from the one at the start.\<close>

definition worlds_seen :: "startup_ext \<Rightarrow> server_event list \<Rightarrow> registry_ext set" where
  "worlds_seen u evs = insert (su_registry u) {rx. \<exists>cs. Backends rx cs \<in> set evs}"

fun event_in :: "registry_ext set \<Rightarrow> server_event \<Rightarrow> bool" where
  "event_in W (Backends rx cs) = (rx \<in> W)"
| "event_in W _ = True"

lemma events_in_worlds: "list_all (event_in (worlds_seen u evs)) evs"
proof -
  have "event_in (worlds_seen u evs) ev" if "ev \<in> set evs" for ev
    by (cases ev) (use that in \<open>auto simp: worlds_seen_def\<close>)
  then show ?thesis by (simp add: list_all_iff)
qed

lemma event_in_UNIV [simp]: "event_in UNIV ev"
  by (cases ev) simp_all

lemma start_world [simp]: "su_registry u \<in> worlds_seen u evs"
  by (simp add: worlds_seen_def)

text \<open>The resolver, the plugin chain and the settings of the health checker stem from a
  configuration: its clients, with whatever tokens, in the configured mode, seen in one of the
  worlds \<open>W\<close>.\<close>

definition started_from :: "startup_ext \<Rightarrow> ext \<Rightarrow> app_config \<Rightarrow> registry_ext set \<Rightarrow> server \<Rightarrow> bool" where
  "started_from u x cfg W s =
     ((\<exists>cs. build_clients (su_registry u) cfg = Inr cs \<and> same_clients cs (sv_clients s)) \<and>
      (\<exists>rx\<in>W. st_resolver (sv_state s) = resolver_at rx (query_mode (registries cfg)) (sv_clients s)) \<and>
      build_plugin_chain x (plugins (server cfg)) = Inr (st_plugins (sv_state s)) \<and>
      sv_health_check s = health_check (server cfg))"

lemma run_server_started:
  assumes "run_server w x u p lo = Serving s" and "load_with_overrides w x p lo = Inr cfg" and "su_registry u \<in> W"
  shows "started_from u x cfg W s"
  using run_server_clients [OF assms(1,2)] run_server_serving(1) [OF assms(1)] assms(2,3)
  by (auto simp: started_from_def)

lemma started_from_step:
  assumes "started_from u x' cfg W s" and "server_step x s ev s'" and "event_in W ev"
  shows "started_from u x' cfg W s'"
  using assms(2)
proof (cases rule: server_step.cases)
  case (backends rx cs)
  with assms(1,3) show ?thesis
    by (auto simp: started_from_def intro: same_clients_moves)
qed (use assms(1) in \<open>simp_all add: started_from_def\<close>)

text \<open>Reloading replaces routes and configuration only: in every run of a started server
  the registries stay those of the configuration of the start, and so do the plugin
  chain and the settings of the health checker, whatever the file says later.\<close>

theorem reload_keeps_resolver:
  assumes "run_server w x u p lo = Serving s0" and "server_run x s0 evs s"
    and "load_with_overrides w x p lo = Inr cfg"
  shows "started_from u x cfg (worlds_seen u evs) s"
proof -
  have "list_all (event_in W) evs \<Longrightarrow> started_from u x cfg W s0 \<Longrightarrow> started_from u x cfg W s" for W
    using assms(2) by (induction rule: server_run.induct) (auto intro: started_from_step)
  with events_in_worlds run_server_started [OF assms(1,3) start_world] show ?thesis by blast
qed

text \<open>C40. A reload forgets the local overrides: after the first message of the watcher for the
  configuration file, the file being as it was at the start, and a tick, the configuration
  and the routes are those of the file without the overrides given on the command line.\<close>

theorem reload_drops_overrides:
  assumes "run_server w x u p (Some lo) = Serving s0" and "load_config w x p = Inr cfg"
    and "from_config x cfg = Inr snap" and "relevant_event k paths p"
    and "server_run x s0 [TaskStart, FileMessage w (WatchEvent k paths) fresh, RebuildTick] s"
  shows "st_config (sv_state s) = cfg \<and> st_router (sv_state s) = snap"
proof -
  let ?s1 = "file_message x w (WatchEvent k paths) fresh (first_poll s0)"
  have "s = rebuild_task x ?s1" and fresh: "fresh \<noteq> sv_ptr s0"
    using assms(5) by (auto simp: server_run_simps server_step_simps)
  moreover have "sv_path s0 = p"
    by (rule run_server_path [OF assms(1)])
  ultimately show ?thesis
    using assms(2-4) by (simp add: file_message_store rebuild_task_result)
qed

text \<open>Ticks that find the address they saw last do nothing.\<close>

lemma idle_ticks:
  "sv_last_ptr s = Some (sv_ptr s) \<Longrightarrow> \<exists>s'. server_run x s (replicate n RebuildTick) s' \<and>
     st_config (sv_state s') = st_config (sv_state s) \<and> st_router (sv_state s') = st_router (sv_state s)"
proof (induction n arbitrary: s)
  case 0
  then show ?case by (auto simp: server_run_simps)
next
  case (Suc n)
  from Suc.IH [of "rebuild_task x s"] Suc.prems show ?case
    by (auto simp: server_run_simps server_step_simps rebuild_task_result)
qed

text \<open>Two reloads between two ticks can be missed for good: if the second new
  configuration is stored at the address of the configuration that the rebuild task saw
  last, no number of ticks brings its routes into use.\<close>

theorem reloads_missed:
  assumes "sv_last_ptr s = Some (sv_ptr s)" and "relevant_event k paths (sv_path s)"
    and "load_config w1 x (sv_path s) = Inr c1" and "load_config w2 x (sv_path s) = Inr c2"
    and "other \<noteq> sv_ptr s"
  shows "\<exists>s'. server_run x s (FileMessage w1 (WatchEvent k paths) other #
      FileMessage w2 (WatchEvent k paths) (sv_ptr s) # replicate n RebuildTick) s'
    \<and> st_config (sv_state s') = c2 \<and> st_router (sv_state s') = st_router (sv_state s)"
proof -
  let ?s1 = "file_message x w1 (WatchEvent k paths) other s"
  let ?s2 = "file_message x w2 (WatchEvent k paths) (sv_ptr s) ?s1"
  have "sv_last_ptr ?s2 = Some (sv_ptr ?s2)"
    using assms by (simp add: file_message_store)
  from idle_ticks [OF this, of x n] obtain s' where "server_run x ?s2 (replicate n RebuildTick) s'"
    "st_config (sv_state s') = st_config (sv_state ?s2)" "st_router (sv_state s') = st_router (sv_state ?s2)" by blast
  moreover have "server_step x s (FileMessage w1 (WatchEvent k paths) other) ?s1"
    "server_step x ?s1 (FileMessage w2 (WatchEvent k paths) (sv_ptr s)) ?s2"
    using assms by (auto simp: server_step_simps file_message_store)
  ultimately show ?thesis
    using assms by (intro exI [of _ s']) (auto simp: server_run_simps file_message_store)
qed

text \<open>C24. A change of the file that is stored before the rebuild task is first polled is missed as
  well: the task takes its address for the one at the start, so the new configuration is in
  use but no number of ticks brings its routes into use.\<close>

theorem startup_change_missed:
  assumes "run_server w x u p lo = Serving s0" and "relevant_event k paths p"
    and "load_config w' x p = Inr cfg" and "fresh \<noteq> sv_ptr s0" and "sv_last_ptr s0 = None"
  shows "\<exists>s. server_run x s0 (FileMessage w' (WatchEvent k paths) fresh # TaskStart # replicate n RebuildTick) s
    \<and> st_config (sv_state s) = cfg \<and> st_router (sv_state s) = st_router (sv_state s0)"
proof -
  let ?s1 = "file_message x w' (WatchEvent k paths) fresh s0"
  have s0: "sv_path s0 = p" "sv_last_ptr s0 = None"
    using run_server_path [OF assms(1)] assms(5) by simp_all
  obtain s where "server_run x (first_poll ?s1) (replicate n RebuildTick) s"
    "st_config (sv_state s) = st_config (sv_state ?s1)" "st_router (sv_state s) = st_router (sv_state ?s1)"
    using idle_ticks [of "first_poll ?s1" x n] by auto
  moreover have "server_step x s0 (FileMessage w' (WatchEvent k paths) fresh) ?s1"
    "server_step x ?s1 TaskStart (first_poll ?s1)"
    using assms(4) s0 by (simp_all add: server_step_simps)
  ultimately show ?thesis
    using assms(2,3) s0(1) by (intro exI [of _ s]) (auto simp: server_run_simps file_message_store)
qed

text \<open>A reload whose routes do not compile is half applied: the new configuration is in
  use (instance selection, retries, the list of registries), the routes stay those of the
  old one, and they stay so for every later tick.\<close>

theorem rejected_reload_half_applied:
  assumes "relevant_event k paths (sv_path s)" and "load_config w x (sv_path s) = Inr cfg"
    and "from_config x cfg = Inl err"
    and "server_run x s (FileMessage w (WatchEvent k paths) fresh # replicate n RebuildTick) s'"
  shows "st_config (sv_state s') = cfg \<and> st_router (sv_state s') = st_router (sv_state s)"
proof -
  have "server_run x t (replicate n RebuildTick) s' \<Longrightarrow> st_config (sv_state t) = cfg \<Longrightarrow>
      st_config (sv_state s') = cfg \<and> st_router (sv_state s') = st_router (sv_state t)" for t
  proof (induction n arbitrary: t)
    case (Suc n)
    then show ?case
      using assms(3) by (auto simp: server_run_simps server_step_simps rebuild_task_result)
  qed (simp add: server_run_simps)
  with assms show ?thesis
    by (auto simp: server_run_simps server_step_simps file_message_store)
qed

text \<open>Every path in a message of the watcher is absolute.\<close>

fun absolute_paths :: "server_event \<Rightarrow> bool" where
  "absolute_paths (FileMessage w (WatchEvent k paths) fresh) = list_all path_absolute paths"
| "absolute_paths _ = True"

lemma absolute_no_reload:
  assumes "server_step x s ev s'" and "absolute_paths ev" and "\<not> path_absolute (sv_path s)"
  shows "sv_path s' = sv_path s \<and> config_slot_of s' = config_slot_of s"
  using assms(1)
proof (cases rule: server_step.cases)
  case (reload fresh w msg)
  have "\<not> relevant_event k paths (sv_path s)" if "list_all path_absolute paths" for k paths
    using that assms(3) same_path_absolute by (fastforce simp: relevant_event_def list_all_iff list_ex_iff)
  with reload assms(2) have "on_watch_message w x msg (sv_path s) fresh (config_slot_of s) = config_slot_of s"
    by (cases msg) (auto simp: on_watch_message_def handle_event_def)
  with reload show ?thesis
    by (simp add: file_message_def config_slot_of_def)
next
  case tick
  then show ?thesis by (simp add: rebuild_task_fields config_slot_of_def)
next
  case start
  then show ?thesis by (simp add: config_slot_of_def)
next
  case (probe hc get_ok)
  then show ?thesis by (simp add: health_round_fields config_slot_of_def)
next
  case (check hc get_ok)
  then show ?thesis by (simp add: config_slot_of_def)
next
  case (backends rx cs)
  then show ?thesis by (simp add: config_slot_of_def)
next
  case (request ks fs e req)
  then show ?thesis by (simp add: serve_fields config_slot_of_def)
qed

lemma early_no_reload:
  "list_all (\<lambda>ev. absolute_paths (as_event ev)) es \<Longrightarrow> \<not> path_absolute p \<Longrightarrow> seen \<in> {None, Some ptr} \<Longrightarrow>
     \<exists>seen'. seen' \<in> {None, Some ptr} \<and> fold (early_step x p) es ((ptr, cfg), seen, router) = ((ptr, cfg), seen', router)"
proof (induction es arbitrary: seen)
  case (Cons ev es)
  have irrelevant: "\<not> relevant_event k paths p" if "list_all path_absolute paths" for k paths
    using that Cons.prems(2) same_path_absolute by (fastforce simp: relevant_event_def list_all_iff list_ex_iff)
  have "\<exists>l. l \<in> {None, Some ptr} \<and> early_step x p ev ((ptr, cfg), seen, router) = ((ptr, cfg), l, router)"
  proof (cases ev)
    case (FileSeen w msg fresh)
    with Cons.prems irrelevant show ?thesis
      by (cases msg) (auto simp: on_watch_message_def handle_event_def)
  next
    case TaskTurn
    with Cons.prems show ?thesis
      by (cases seen) (auto simp: rebuild_tick_def)
  qed
  then obtain l where l: "l \<in> {None, Some ptr}" "early_step x p ev ((ptr, cfg), seen, router) = ((ptr, cfg), l, router)"
    by blast
  from Cons.IH [OF _ Cons.prems(2) l(1)] Cons.prems(1) show ?case
    by (simp add: l(2))
qed simp

text \<open>C39. Hot reload does not work for a relative configuration path, such as the default
  \<^verbatim>\<open>config/config.yaml\<close>, if the notification library reports absolute paths: in no run
  does the configuration or the routing table ever differ from that of the start.\<close>

theorem relative_path_never_reloads:
  assumes "run_server w x u p lo = Serving s0" and "\<not> path_absolute p"
    and "server_run x s0 evs s" and "list_all absolute_paths (map as_event (su_early u) @ evs)"
    and "load_with_overrides w x p lo = Inr cfg"
  shows "st_config (sv_state s) = cfg \<and> from_config x cfg = Inr (st_router (sv_state s))"
proof -
  have "sv_last_ptr s' \<in> {None, Some (sv_ptr s')} \<and> st_router (sv_state s') = st_router (sv_state t) \<and>
      config_slot_of s' = config_slot_of t"
    if "server_run x t evs s'" "list_all absolute_paths evs" "\<not> path_absolute (sv_path t)"
      "sv_last_ptr t \<in> {None, Some (sv_ptr t)}"
    for t s' evs
    using that
  proof (induction rule: server_run.induct)
    case (more s ev s' evs s'')
    have slot: "sv_path s' = sv_path s" "config_slot_of s' = config_slot_of s"
      using absolute_no_reload [OF more.hyps(1)] more.prems by simp_all
    moreover have "sv_last_ptr s' \<in> {None, Some (sv_ptr s')} \<and> st_router (sv_state s') = st_router (sv_state s)"
      using more.hyps(1) more.prems(3) slot(2)
      by (cases rule: server_step.cases)
         (auto simp: file_message_fields rebuild_task_result health_round_fields serve_fields config_slot_of_def)
    ultimately show ?case
      using more by simp
  qed simp
  note kept = this
  obtain snap where start: "from_config x cfg = Inr snap" "sv_path s0 = p"
    "slots_of s0 = fold (early_step x p) (su_early u) ((0, cfg), None, snap)"
    using run_server_serving(1) [OF assms(1)] assms(5) by auto
  have "list_all (\<lambda>ev. absolute_paths (as_event ev)) (su_early u)" "list_all absolute_paths evs"
    using assms(4) by (simp_all add: list.pred_map comp_def)
  from early_no_reload [OF this(1) assms(2), of None 0 x cfg snap] start(3)
  obtain l where "slots_of s0 = ((0, cfg), l, snap)" "l \<in> {None, Some 0}"
    by auto
  then have "sv_ptr s0 = 0" "st_config (sv_state s0) = cfg" "sv_last_ptr s0 \<in> {None, Some 0}" "st_router (sv_state s0) = snap"
    by (simp_all add: slots_of_eq)
  with kept [OF assms(3) \<open>list_all absolute_paths evs\<close>] assms(2) start(1,2) show ?thesis
    by (auto simp: config_slot_of_def)
qed

text \<open>The four service paths are answered by the server itself whatever the routes and
  plugins say: the answer does not depend on the routing table, the state is unchanged, and
  any other method than \<^verbatim>\<open>GET\<close> and \<^verbatim>\<open>HEAD\<close> is refused.\<close>

theorem service_paths_reserved:
  assumes "req_path req \<in> {''/health'', ''/ready'', ''/metrics'', ''/metrics/prometheus''}"
  shows "snd (serve x ks fs e req st) = st
       \<and> fst (serve x ks fs e req st) = fst (serve x ks fs e req (st\<lparr> st_router := r, st_plugins := ps \<rparr>))
       \<and> (fst (serve x ks fs e req st) = MethodNotAllowed \<longleftrightarrow> req_method req \<notin> {''GET'', ''HEAD''})"
  using assms
  by (auto simp: serve_def endpoint_of_def Let_def ready_handler_def metrics_handler_def
      metrics_prometheus_handler_def)

section \<open>Examples\<close>

text \<open>Registries that cannot be reached.\<close>

definition example_registry_ext :: registry_ext where
  "example_registry_ext = \<lparr>
     rx_nacos = \<lparr> nx_get = (\<lambda>_ _ _. Inl ''offline''), nx_login = (\<lambda>_ _ _. Inl ''offline''),
       nx_json = (\<lambda>_. Inl ''offline''), nx_decode_error = (\<lambda>_. ''bad value''), nx_status_text = show_nat \<rparr>,
     rx_eureka = \<lparr> ex_get = (\<lambda>_ _. Inl ''offline''), ex_json = (\<lambda>_. Inl ''offline''),
       ex_decode_error = (\<lambda>_. ''bad value''), ex_status_text = show_nat \<rparr>,
     rx_k8s = \<lparr> kx_get = (\<lambda>_ _ _. Inl ''offline''), kx_status_text = show_nat,
       kx_json = (\<lambda>_. Inl ''offline''), kx_decode_error = (\<lambda>_. ''bad value''), kx_encode_pair = (\<lambda>a b. a @ ''='' @ b),
       kx_read_file = (\<lambda>_. Inl ''offline''), kx_yaml = (\<lambda>_. Inl ''offline''),
       kx_base64_decode = (\<lambda>_. Inl ''offline''), kx_certificate_error = (\<lambda>_. None),
       kx_identity_error = (\<lambda>_. None), kx_client_error = (\<lambda>_. None) \<rparr> \<rparr>"

definition example_startup :: startup_ext where
  "example_startup = \<lparr> su_registry = example_registry_ext, su_watch_error = (\<lambda>_. None), su_bind_error = (\<lambda>_. None), su_early = [] \<rparr>"

text \<open>A world whose files parse to the given configuration and to one override.\<close>

definition routes_world :: "app_config \<Rightarrow> world" where
  "routes_world cfg = \<lparr> read_file = (\<lambda>_. Inr []), env_var = (\<lambda>_. None), config_tree = (\<lambda>_. Inr (app_json cfg)),
     overrides_tree = (\<lambda>_. Inr (JObj [(''overrides'', JArr [JObj [(''route_id'', JStr ''all''),
       (''upstream_url'', JStr ''http://localhost'')]])])), decode_error = (\<lambda>_. ''bad value'') \<rparr>"

lemma load_routes_world:
  "reads_back cfg \<Longrightarrow> load_config (routes_world cfg) x p = res_bind (validate_config x cfg) (\<lambda>_. Inr cfg)"
  by (simp add: load_config_def routes_world_def yaml_config_def decode_tree_def reads_back_decode read_config_text_def resolve_env_vars_in_yaml_def resolve_env_vars_def)

lemma example_reads_back: "reads_back example_routes" "reads_back default_app_config"
  by (simp_all add: reads_back_simps example_routes_def example_route_def)

lemma load_example_routes: "load_config (routes_world example_routes) x p = Inr example_routes"
  unfolding load_routes_world [OF example_reads_back(1)] by (simp add: validate_config_def example_routes_def example_route_def)

lemma load_default: "load_config (routes_world default_app_config) x p = Inr default_app_config"
  unfolding load_routes_world [OF example_reads_back(2)] by (simp add: validate_config_def default_app_config_def)

lemma compile_default: "from_config x default_app_config = Inr \<lparr> rules = [] \<rparr>"
  by (simp add: from_config_def default_app_config_def sort_rules_def)

definition example_overridden :: app_config where
  "example_overridden = apply_local_overrides
     [\<lparr> lo_route_id = ''all'', lo_upstream_url = ''http://localhost'' \<rparr>] example_routes"

definition example_server :: server where
  "example_server = \<lparr> sv_path = ''c'', sv_ptr = 0, sv_last_ptr = None, sv_health_check = None, sv_checker = Resting, sv_clients = [],
     sv_state = app_state_new \<lparr> rules = [example_compiled ''api'' ''/api'' 10,
         (example_compiled ''all'' ''/'' 20)\<lparr> cr_upstream_url := Some ''http://localhost'' \<rparr>] \<rparr>
       (resolver_new [] Priority) example_overridden default_metrics \<rparr>"

lemma example_overridden_compile:
  "from_config example_ext example_overridden = Inr (st_router (sv_state example_server))"
  by code_simp

lemma example_overridden_fields:
  "registries example_overridden = \<lparr> query_mode = Priority, sources = [] \<rparr>"
  "plugins (server example_overridden) = []" "health_check (server example_overridden) = None"
  by (simp_all add: example_overridden_def apply_local_overrides_def example_routes_def
      default_app_config_def default_server_config_def)

lemma example_overrides:
  "load_local_overrides (routes_world cfg) p = Inr [\<lparr> lo_route_id = ''all'', lo_upstream_url = ''http://localhost'' \<rparr>]"
  by (simp add: load_local_overrides_def routes_world_def read_config_text_def resolve_env_vars_in_yaml_def
      resolve_env_vars_def yaml_overrides_def decode_tree_def overrides_of_json_def override_of_json_def
      decoding of_list_def read_back)

lemma example_load: "load_with_overrides (routes_world example_routes) x ''c'' (Some ''o'') = Inr example_overridden"
  by (simp add: load_with_overrides_def load_example_routes example_overrides example_overridden_def)

lemma example_run_server:
  "run_server (routes_world example_routes) example_ext example_startup ''c'' (Some ''o'') = Serving example_server"
  unfolding run_server_def example_load sum.case example_overridden_compile
  by (simp add: build_resolver_none clients_of_none example_overridden_fields build_plugin_chain_def sort_entries_def
      example_startup_def example_server_def app_state_new_def)

definition modified :: watch_message where
  "modified = WatchEvent ModifyEvent [''c'']"

lemma relevant_modified: "relevant_event ModifyEvent [''c''] ''c''"
  by (simp add: relevant_event_def)

lemma example_reload_run:
  "server_run x example_server [TaskStart, FileMessage w modified 1, RebuildTick]
     (rebuild_task x (file_message x w modified 1 (first_poll example_server)))"
  by (simp add: server_run_simps server_step_simps example_server_def)

theorem reload_takes_effect_witness:
  "st_router (sv_state (rebuild_task example_ext
     (file_message example_ext (routes_world default_app_config) modified 1 (first_poll example_server)))) = \<lparr> rules = [] \<rparr>"
  by (rule reload_takes_effect [OF example_run_server, where evs = "[TaskStart, FileMessage (routes_world default_app_config) modified 1]"])
     (use example_reload_run in \<open>simp_all add: file_message_store modified_def relevant_modified load_default
        compile_default example_server_def example_startup_def\<close>)

theorem served_router_loaded_witness:
  "\<exists>cfg. from_config example_ext cfg = Inr (st_router (sv_state (rebuild_task example_ext
     (file_message example_ext (routes_world default_app_config) modified 1 (first_poll example_server)))))"
  using served_router_loaded [OF example_run_server example_reload_run] by blast

theorem reload_keeps_resolver_witness:
  "started_from example_startup example_ext example_overridden
     (worlds_seen example_startup [TaskStart, FileMessage (routes_world default_app_config) modified 1, RebuildTick]) (rebuild_task example_ext
     (file_message example_ext (routes_world default_app_config) modified 1 (first_poll example_server)))"
  by (rule reload_keeps_resolver [OF example_run_server example_reload_run example_load])

theorem reload_drops_overrides_witness:
  "st_config (sv_state (rebuild_task example_ext
     (file_message example_ext (routes_world example_routes) modified 1 (first_poll example_server)))) = example_routes"
  using reload_drops_overrides [OF example_run_server load_example_routes example_routes_compile relevant_modified
      example_reload_run [unfolded modified_def]]
  by (simp add: modified_def)

theorem reloads_missed_witness:
  "\<exists>s :: server. st_config (sv_state s) = default_app_config \<and> st_router (sv_state s) = st_router (sv_state example_server)"
proof -
  let ?s = "first_poll example_server"
  have "sv_last_ptr ?s = Some (sv_ptr ?s)" "1 \<noteq> sv_ptr ?s" "relevant_event ModifyEvent [''c''] (sv_path ?s)"
    by (simp_all add: example_server_def relevant_modified)
  from reloads_missed [OF this(1,3) load_example_routes [of example_ext] load_default this(2), of 5]
  show ?thesis by auto
qed

theorem startup_change_missed_witness:
  "\<exists>s :: server. st_config (sv_state s) = default_app_config \<and> st_router (sv_state s) = st_router (sv_state example_server)"
proof -
  have "1 \<noteq> sv_ptr example_server"
    by (simp add: example_server_def)
  from startup_change_missed [OF example_run_server relevant_modified load_default this, of 5]
  show ?thesis by (auto simp: example_server_def)
qed

theorem relative_path_never_reloads_witness:
  "st_config (sv_state (rebuild_task example_ext (file_message example_ext (routes_world default_app_config)
     (WatchEvent ModifyEvent [''/w/c'']) 1 (first_poll example_server)))) = example_overridden"
proof -
  have "\<not> path_absolute ''c''" "path_absolute ''/w/c''"
    by code_simp+
  then show ?thesis
    using relative_path_never_reloads [OF example_run_server _ _ _ example_load, where evs = "[TaskStart, FileMessage (routes_world default_app_config)
        (WatchEvent ModifyEvent [''/w/c'']) 1, RebuildTick]"]
    by (auto simp: server_run_simps server_step_simps example_server_def app_state_new_def example_startup_def)
qed

theorem rejected_reload_half_applied_witness:
  "\<exists>s :: server. rule_id (routes (st_config (sv_state s)) ! 0) = ''bad'' \<and> rules (st_router (sv_state s)) \<noteq> []"
proof -
  let ?cfg = "default_app_config\<lparr> routes := [(example_route ''bad'' ''/'' 1)\<lparr> rule_response_headers := Some [(''TE'', ''x'')] \<rparr>] \<rparr>"
  let ?s = "rebuild_task example_ext (file_message example_ext (routes_world ?cfg) modified 1 (first_poll example_server))"
  have "reads_back ?cfg"
    by (simp add: reads_back_simps example_route_def)
  then have "load_config (routes_world ?cfg) example_ext ''c'' = Inr ?cfg"
    by (simp add: load_routes_world validate_config_def example_route_def)
  then have load: "load_config (routes_world ?cfg) example_ext (sv_path (first_poll example_server)) = Inr ?cfg"
    by (simp add: example_server_def)
  have rel: "relevant_event ModifyEvent [''c''] (sv_path (first_poll example_server))"
    by (simp add: example_server_def relevant_modified)
  have "case from_config example_ext ?cfg of Inl _ \<Rightarrow> True | Inr _ \<Rightarrow> False"
    by code_simp
  then obtain err where err: "from_config example_ext ?cfg = Inl err"
    by (cases "from_config example_ext ?cfg") simp_all
  have "server_run example_ext (first_poll example_server) (FileMessage (routes_world ?cfg) (WatchEvent ModifyEvent [''c'']) 1
      # replicate 1 RebuildTick) ?s"
    by (simp add: server_run_simps server_step_simps modified_def example_server_def)
  from rejected_reload_half_applied [OF rel load err this]
  have "rule_id (routes (st_config (sv_state ?s)) ! 0) = ''bad'' \<and> rules (st_router (sv_state ?s)) \<noteq> []"
    by (simp add: example_server_def app_state_new_def example_route_def)
  then show ?thesis by blast
qed

theorem service_paths_reserved_witness:
  "fst (serve example_ext [] [] example_env (example_request\<lparr> req_path := ''/ready'', req_method := ''POST'' \<rparr>)
     (sv_state example_server)) = MethodNotAllowed"
  using service_paths_reserved [where req = "example_request\<lparr> req_path := ''/ready'', req_method := ''POST'' \<rparr>"]
  by simp

end
