(* ===== verification/Diff.thy ===== *)
theory Diff
  imports Serde
begin

text \<open>
  \<^verbatim>\<open>config/diff.rs\<close>: the structural comparison of two loaded configurations,
  over the JSON values that \<^verbatim>\<open>serde_json::to_value\<close> makes of them (theory
  \<open>Serde\<close>).  The order in which a \<^verbatim>\<open>HashSet\<close> iterates is a parameter.
\<close>

section \<open>The comparison\<close>

record diff_change =
  dc_path :: string
  dc_kind :: string
  dc_left :: "json option"
  dc_right :: "json option"

definition change :: "string \<Rightarrow> string \<Rightarrow> json option \<Rightarrow> json option \<Rightarrow> diff_change" where
  "change p k l r = \<lparr> dc_path = p, dc_kind = k, dc_left = l, dc_right = r \<rparr>"

record diff_report =
  dr_left_path :: string
  dr_right_path :: string
  dr_identical :: bool
  dr_changes :: "diff_change list"

definition array_any_ne :: "json list \<Rightarrow> json list \<Rightarrow> bool" where
  "array_any_ne aa ab = (length aa = length ab \<and> list_ex (\<lambda>(x, y). x \<noteq> y) (zip aa ab))"

definition sub_path :: "string \<Rightarrow> string \<Rightarrow> string" where
  "sub_path path k = (if path = [] then k else path @ ''.'' @ k)"

lemma size_json_map_of: "map_of m k = Some v \<Longrightarrow> size v < size (JObj m)"
  by (induction m) (auto split: if_splits)

text \<open>\<open>ord\<close> is the order in which the set of keys collected at a path is iterated.\<close>

function (sequential) diff_json_leaf ::
  "(string \<Rightarrow> string list \<Rightarrow> string list) \<Rightarrow> string \<Rightarrow> json \<Rightarrow> json \<Rightarrow> diff_change list" where
  "diff_json_leaf ord path (JObj ma) (JObj mb) =
     (if JObj ma = JObj mb then []
      else concat (map (\<lambda>k.
             case (map_of ma k, map_of mb k) of
               (Some va, Some vb) \<Rightarrow> diff_json_leaf ord (sub_path path k) va vb
             | (None, Some vb) \<Rightarrow> [change (sub_path path k) ''added'' None (Some vb)]
             | (Some va, None) \<Rightarrow> [change (sub_path path k) ''removed'' (Some va) None]
             | (None, None) \<Rightarrow> [])
           (ord path (remdups (map fst ma @ map fst mb)))))"
| "diff_json_leaf ord path a b =
     (if a = b then []
      else case (a, b) of
        (JArr aa, JArr ab) \<Rightarrow>
          if length aa \<noteq> length ab \<or> array_any_ne aa ab then [change path ''modified'' (Some a) (Some b)]
          else [change path ''modified'' (Some a) (Some b)]
      | _ \<Rightarrow> [change path ''modified'' (Some a) (Some b)])"
  by pat_completeness auto
termination
  by (relation "measure (\<lambda>(ord, path, a, b). size a)")
     (simp_all only: in_measure case_prod_conv wf_measure, metis size_json_map_of prod.inject)

definition routes_by_id :: "routing_rule list \<Rightarrow> (string, routing_rule) hashmap" where
  "routes_by_id rs = fold (\<lambda>r. hashmap_insert (rule_id r) r) rs []"

definition route_path :: "string \<Rightarrow> string" where
  "route_path i = ''routes['' @ i @ '']''"

definition diff_routes_by_id ::
  "(string \<Rightarrow> string list \<Rightarrow> string list) \<Rightarrow> routing_rule list \<Rightarrow> routing_rule list \<Rightarrow> diff_change list" where
  "diff_routes_by_id ord left right =
     (let lm = routes_by_id left; rm = routes_by_id right;
          ids_l = map fst lm; ids_r = map fst rm
      in map (\<lambda>i. change (route_path i) ''removed'' (map_option rule_json (map_of lm i)) None)
           (ord ''removed'' (filter (\<lambda>i. i \<notin> set ids_r) ids_l))
         @ map (\<lambda>i. change (route_path i) ''added'' None (map_option rule_json (map_of rm i)))
           (ord ''added'' (filter (\<lambda>i. i \<notin> set ids_l) ids_r))
         @ concat (map (\<lambda>i.
             let vl = map_option rule_json (map_of lm i); vr = map_option rule_json (map_of rm i)
             in if vl \<noteq> vr then [change (route_path i) ''modified'' vl vr] else [])
           (ord ''common'' (filter (\<lambda>i. i \<in> set ids_r) ids_l))))"

definition diff_app_configs ::
  "(string \<Rightarrow> string list \<Rightarrow> string list) \<Rightarrow> app_config \<Rightarrow> app_config \<Rightarrow> string \<Rightarrow> string \<Rightarrow> diff_report" where
  "diff_app_configs ord left right left_path right_path =
     (let changes =
            diff_json_leaf ord ''server'' (server_json (server left)) (server_json (server right))
            @ (if log_level left \<noteq> log_level right
               then [change ''log_level'' ''modified'' (Some (JStr (log_level left))) (Some (JStr (log_level right)))]
               else [])
            @ diff_json_leaf ord ''registries'' (registries_json (registries left)) (registries_json (registries right))
            @ diff_routes_by_id ord (routes left) (routes right)
      in \<lparr> dr_left_path = left_path, dr_right_path = right_path, dr_identical = (changes = []),
           dr_changes = changes \<rparr>)"

section \<open>The printed forms\<close>

definition newline :: string where
  "newline = [CHR 0x0A]"

text \<open>\<^verbatim>\<open>{:?}\<close> of a text without characters to escape.\<close>

definition debug_str :: "string \<Rightarrow> string" where
  "debug_str s = [CHR 0x22] @ s @ [CHR 0x22]"

definition text_line :: "diff_change \<Rightarrow> string" where
  "text_line c =
     (if dc_kind c = ''added'' then ''+ '' @ dc_path c @ ''  (only in right)'' @ newline
      else if dc_kind c = ''removed'' then ''- '' @ dc_path c @ ''  (only in left)'' @ newline
      else if dc_kind c = ''modified'' then ''~ '' @ dc_path c @ newline
      else ''? '' @ dc_path c @ '' '' @ debug_str (dc_kind c) @ newline)"

definition format_text :: "diff_report \<Rightarrow> string" where
  "format_text r =
     (if dr_identical r then
        ''config-diff: no differences between '' @ dr_left_path r @ '' and '' @ dr_right_path r
      else ''config-diff: '' @ show_nat (length (dr_changes r)) @ '' difference(s) between '' @ dr_left_path r
           @ '' and '' @ dr_right_path r @ newline @ concat (map text_line (dr_changes r)))"

definition backticked :: "string \<Rightarrow> string" where
  "backticked s = [CHR 0x60] @ s @ [CHR 0x60]"

definition markdown_line :: "diff_change \<Rightarrow> string" where
  "markdown_line c =
     (if dc_kind c = ''added'' then ''- **'' @ dc_path c @ ''** -- added on right only'' @ newline
      else if dc_kind c = ''removed''
      then ''- **'' @ dc_path c @ ''** -- removed on right (present only on left)'' @ newline
      else if dc_kind c = ''modified'' then ''- **'' @ dc_path c @ ''** -- modified'' @ newline
      else ''- **'' @ dc_path c @ ''** -- '' @ debug_str (dc_kind c) @ newline)"

definition format_markdown :: "diff_report \<Rightarrow> string" where
  "format_markdown r =
     (if dr_identical r then
        ''### Config diff'' @ newline @ newline @ ''No differences between '' @ backticked (dr_left_path r)
        @ '' and '' @ backticked (dr_right_path r) @ ''.''
      else ''### Config diff'' @ newline @ newline @ ''Comparing '' @ backticked (dr_left_path r)
        @ '' (left/base) -> '' @ backticked (dr_right_path r) @ '' (right/change); ''
        @ show_nat (length (dr_changes r)) @ '' change(s).'' @ newline @ newline
        @ concat (map markdown_line (dr_changes r)))"

section \<open>The order of hash sets\<close>

definition order_ok :: "(string \<Rightarrow> string list \<Rightarrow> string list) \<Rightarrow> bool" where
  "order_ok ord = (\<forall>p ks. mset (ord p ks) = mset ks)"

lemma set_order: "order_ok ord \<Longrightarrow> set (ord p ks) = set ks"
  unfolding order_ok_def by (metis set_mset_mset)

section \<open>The comparison of two values\<close>

text \<open>The changes reported for one key of two objects.\<close>

definition key_changes ::
  "(string \<Rightarrow> string list \<Rightarrow> string list) \<Rightarrow> string \<Rightarrow> json option \<Rightarrow> json option \<Rightarrow> diff_change list" where
  "key_changes ord p va vb = (case (va, vb) of
       (Some va, Some vb) \<Rightarrow> diff_json_leaf ord p va vb
     | (None, Some vb) \<Rightarrow> [change p ''added'' None (Some vb)]
     | (Some va, None) \<Rightarrow> [change p ''removed'' (Some va) None]
     | (None, None) \<Rightarrow> [])"

lemma diff_objects:
  "diff_json_leaf ord path (JObj ma) (JObj mb) = (if ma = mb then []
     else concat (map (\<lambda>k. key_changes ord (sub_path path k) (map_of ma k) (map_of mb k))
       (ord path (remdups (map fst ma @ map fst mb)))))"
  by (simp add: key_changes_def cong: map_cong)

lemma diff_leaf:
  "\<not> (\<exists>ma mb. a = JObj ma \<and> b = JObj mb) \<Longrightarrow>
   diff_json_leaf ord path a b = (if a = b then [] else [change path ''modified'' (Some a) (Some b)])"
  by (cases a; cases b) simp_all

declare diff_json_leaf.simps [simp del]

lemma diff_refl [simp]: "diff_json_leaf ord path a a = []"
  by (cases "\<exists>m. a = JObj m") (auto simp: diff_objects diff_leaf)

text \<open>Induction along the comparison.\<close>

lemma diff_induct [case_names objects leaf]:
  assumes "\<And>path ma mb. (\<And>k va vb. map_of ma k = Some va \<Longrightarrow> map_of mb k = Some vb \<Longrightarrow> P (sub_path path k) va vb) \<Longrightarrow>
      P path (JObj ma) (JObj mb)"
    and "\<And>path a b. \<not> (\<exists>ma mb. a = JObj ma \<and> b = JObj mb) \<Longrightarrow> P path a b"
  shows "P path a b"
proof (induction a arbitrary: path b rule: measure_induct_rule [where f = size])
  case (less a path b)
  show ?case
  proof (cases "\<exists>ma mb. a = JObj ma \<and> b = JObj mb")
    case True
    then obtain ma mb where ab: "a = JObj ma" "b = JObj mb" by blast
    have "P (sub_path path k) va vb" if "map_of ma k = Some va" "map_of mb k = Some vb" for k va vb
      using less size_json_map_of [OF that(1)] ab(1) by blast
    then show ?thesis unfolding ab by (rule assms(1))
  next
    case False
    then show ?thesis by (rule assms(2))
  qed
qed

lemma json_ok_map_of: "json_ok (JObj m) \<Longrightarrow> map_of m k = Some v \<Longrightarrow> json_ok v"
  by (auto dest!: map_of_SomeD)

lemma map_of_outside: "k \<notin> set (map fst m) \<Longrightarrow> map_of m k = None"
  by (simp add: map_of_eq_None_iff)

lemma diff_json_leaf_empty_iff:
  assumes "order_ok ord" "json_ok a" "json_ok b"
  shows "diff_json_leaf ord path a b = [] \<longleftrightarrow> a = b"
  using assms(2,3)
proof (induction path a b rule: diff_induct)
  case (objects path ma mb)
  show ?case
  proof (cases "ma = mb")
    case False
    have keys: "set (ord path (remdups (map fst ma @ map fst mb))) = set (map fst ma) \<union> set (map fst mb)"
      by (simp add: set_order [OF assms(1)])
    have "\<exists>k. map_of ma k \<noteq> map_of mb k"
      using False objects.prems sorted_map_of_inject [of ma mb] by auto
    then obtain k where k: "map_of ma k \<noteq> map_of mb k" ..
    then have "k \<in> set (ord path (remdups (map fst ma @ map fst mb)))"
      unfolding keys using map_of_outside [of k ma] map_of_outside [of k mb] by (metis UnCI)
    moreover have "key_changes ord (sub_path path k) (map_of ma k) (map_of mb k) \<noteq> []"
    proof (cases "map_of ma k"; cases "map_of mb k")
      fix va vb
      assume v: "map_of ma k = Some va" "map_of mb k = Some vb"
      then have "diff_json_leaf ord (sub_path path k) va vb = [] \<longleftrightarrow> va = vb"
        using objects.prems json_ok_map_of by (intro objects.IH) blast+
      with v k show ?thesis by (simp add: key_changes_def)
    qed (use k in \<open>simp_all add: key_changes_def\<close>)
    ultimately show ?thesis
      using False by (auto simp: diff_objects)
  qed (simp add: diff_objects)
next
  case (leaf path a b)
  then show ?case by (simp add: diff_leaf)
qed

text \<open>A change with its sides exchanged.\<close>

definition swap_change :: "diff_change \<Rightarrow> diff_change" where
  "swap_change c = \<lparr> dc_path = dc_path c,
     dc_kind = (if dc_kind c = ''added'' then ''removed'' else if dc_kind c = ''removed'' then ''added'' else dc_kind c),
     dc_left = dc_right c, dc_right = dc_left c \<rparr>"

lemma swap_change_simps [simp]:
  "swap_change (change p ''added'' l r) = change p ''removed'' r l"
  "swap_change (change p ''removed'' l r) = change p ''added'' r l"
  "swap_change (change p ''modified'' l r) = change p ''modified'' r l"
  by (simp_all add: swap_change_def change_def)

lemma mset_concat_map_order:
  assumes "mset ks = mset ks'" "\<And>k. k \<in> set ks \<Longrightarrow> mset (f k) = mset (g k)"
  shows "mset (concat (map f ks)) = mset (concat (map g ks'))"
proof -
  have "mset (concat (map f ks)) = (\<Sum>k\<in>#mset ks. mset (f k))"
    by (induction ks) simp_all
  also have "\<dots> = (\<Sum>k\<in>#mset ks. mset (g k))"
    using assms(2) by (intro arg_cong [of _ _ sum_mset] image_mset_cong) simp
  also have "\<dots> = mset (concat (map g ks'))"
    unfolding assms(1) by (induction ks') simp_all
  finally show ?thesis .
qed

lemma mset_remdups: "mset (remdups l) = mset_set (set l)"
  by (metis distinct_remdups mset_set_set set_remdups)

lemma diff_json_leaf_swap:
  assumes "order_ok ord"
  shows "mset (map swap_change (diff_json_leaf ord path a b)) = mset (diff_json_leaf ord path b a)"
proof (induction path a b rule: diff_induct)
  case (objects path ma mb)
  let ?ks = "ord path (remdups (map fst ma @ map fst mb))" and ?ks' = "ord path (remdups (map fst mb @ map fst ma))"
  have "mset ?ks = mset (remdups (map fst ma @ map fst mb))" and "mset ?ks' = mset (remdups (map fst mb @ map fst ma))"
    using assms by (simp_all add: order_ok_def)
  moreover have "mset (remdups (map fst ma @ map fst mb)) = mset (remdups (map fst mb @ map fst ma))"
    by (simp add: mset_remdups Un_commute)
  ultimately have ks: "mset ?ks = mset ?ks'" by simp
  have "mset (map swap_change (key_changes ord (sub_path path k) (map_of ma k) (map_of mb k))) =
      mset (key_changes ord (sub_path path k) (map_of mb k) (map_of ma k))" for k
    using objects by (auto simp: key_changes_def split: option.split)
  then have "mset (map swap_change (concat (map (\<lambda>k. key_changes ord (sub_path path k) (map_of ma k) (map_of mb k)) ?ks)))
      = mset (concat (map (\<lambda>k. key_changes ord (sub_path path k) (map_of mb k) (map_of ma k)) ?ks'))"
    unfolding map_concat map_map comp_def by (intro mset_concat_map_order [OF ks]) simp
  then show ?case
    by (simp add: diff_objects eq_commute [of mb ma])
next
  case (leaf path a b)
  then show ?case by (auto simp: diff_leaf)
qed

section \<open>What the serialization distinguishes\<close>

lemma json_word_inject [simp]: "json_word a = json_word b \<longleftrightarrow> a = b"
  by (simp add: json_word_def word_uint_eq_iff)

lemma json_opt_eq:
  "(\<And>y. f y \<noteq> JNull) \<Longrightarrow> json_opt f a = json_opt f b \<longleftrightarrow> rel_option (\<lambda>u v. f u = f v) a b"
  by (auto simp: json_opt_def eq_commute [of JNull] split: option.split)

lemma json_opt_inject:
  "(\<And>y. f y \<noteq> JNull) \<Longrightarrow> (\<And>u v. f u = f v \<longleftrightarrow> u = v) \<Longrightarrow> json_opt f a = json_opt f b \<longleftrightarrow> a = b"
  by (simp add: json_opt_eq option.rel_eq)

lemma json_opt_str [simp]: "json_opt JStr a = json_opt JStr b \<longleftrightarrow> a = b"
  by (rule json_opt_inject) simp_all

lemma map_eq_list_all2: "map f xs = map f ys \<longleftrightarrow> list_all2 (\<lambda>u v. f u = f v) xs ys"
  by (induction xs arbitrary: ys) (auto simp: Cons_eq_map_conv list_all2_Cons1)

lemma map_inject: "(\<And>u v. f u = f v \<longleftrightarrow> u = v) \<Longrightarrow> map f xs = map f ys \<longleftrightarrow> xs = ys"
  by (simp add: map_eq_list_all2 list.rel_eq)

lemma json_strs_simps [simp]: "json_strs a \<noteq> JNull" "json_strs a = json_strs b \<longleftrightarrow> a = b"
  by (simp_all add: json_strs_def map_inject)

lemma selection_json_inject [simp]: "selection_json a = selection_json b \<longleftrightarrow> a = b"
  by (cases a; cases b) simp_all

lemma query_mode_json_inject [simp]: "query_mode_json a = query_mode_json b \<longleftrightarrow> a = b"
  by (cases a; cases b) simp_all

lemma mock_health_json_inject [simp]: "mock_health_json a = mock_health_json b \<longleftrightarrow> a = b"
  by (cases a; cases b) simp_all

lemma path_json_inject [simp]: "path_json a = path_json b \<longleftrightarrow> a = b"
  by (cases a; cases b) (simp_all add: tagged_value_def)

lemma plugin_json_inject [simp]: "plugin_json a = plugin_json b \<longleftrightarrow> a = b"
  by (cases a; cases b) (auto simp: plugin_json_def)

lemma health_check_json_simps [simp]:
  "health_check_json a \<noteq> JNull" "health_check_json a = health_check_json b \<longleftrightarrow> a = b"
  by (cases a; cases b; auto simp: health_check_json_def)+

lemma nacos_auth_json_simps [simp]:
  "nacos_auth_json a \<noteq> JNull" "nacos_auth_json a = nacos_auth_json b \<longleftrightarrow> a = b"
  by (cases a; cases b; auto simp: nacos_auth_json_def)+

lemma basic_auth_json_simps [simp]:
  "basic_auth_json a \<noteq> JNull" "basic_auth_json a = basic_auth_json b \<longleftrightarrow> a = b"
  by (cases a; cases b; auto simp: basic_auth_json_def)+

lemma k8s_auth_json_simps [simp]:
  "k8s_auth_json a \<noteq> JNull" "k8s_auth_json a = k8s_auth_json b \<longleftrightarrow> a = b"
  by (cases a; cases b; auto simp: k8s_auth_json_def)+

lemma server_json_inject [simp]: "server_json a = server_json b \<longleftrightarrow> a = b"
  by (cases a; cases b) (auto simp: server_json_def json_opt_inject map_inject)

lemma json_map_eq:
  fixes f :: "'a \<Rightarrow> json"
  assumes "hashmap_ok m" and "hashmap_ok m'"
  shows "json_map f m = json_map f m' \<longleftrightarrow> (\<forall>k. map_option f (map_of m k) = map_option f (map_of m' k))"
proof -
  let ?l = "\<lambda>m. map (\<lambda>(k, v). (k, f v)) (sort_key fst m)"
  have keys: "map fst (?l n) = map fst (sort_key fst n)" for n
    by (simp add: comp_def case_prod_beta)
  have "map_of (?l n) = map_option f \<circ> map_of n" if "hashmap_ok n" for n :: "(string, 'a) hashmap"
    using that by (simp add: map_of_map map_of_sort_key)
  with assms have "map_of (?l m) = map_of (?l m') \<longleftrightarrow> (\<forall>k. map_option f (map_of m k) = map_option f (map_of m' k))"
    by (simp add: fun_eq_iff)
  moreover have "sorted_wrt (<) (map fst (?l m))" "sorted_wrt (<) (map fst (?l m'))"
    unfolding keys by (rule strict_sorted_sort_key [OF assms(1)], rule strict_sorted_sort_key [OF assms(2)])
  then have "?l m = ?l m' \<longleftrightarrow> map_of (?l m) = map_of (?l m')"
    by (intro iffI) (simp, rule sorted_map_of_inject)
  ultimately show ?thesis
    by (simp add: json_map_def)
qed

lemma json_str_map_eq: "hashmap_ok m \<Longrightarrow> hashmap_ok m' \<Longrightarrow> json_map JStr m = json_map JStr m' \<longleftrightarrow> same_map m m'"
proof -
  have "map_option JStr u = map_option JStr v \<longleftrightarrow> u = v" for u v
    by (cases u; cases v) simp_all
  then show "hashmap_ok m \<Longrightarrow> hashmap_ok m' \<Longrightarrow> ?thesis"
    by (simp add: json_map_eq same_map_def fun_eq_iff)
qed

lemma json_map_not_null [simp]: "json_map f m \<noteq> JNull"
  by (simp add: json_map_def)

lemma rule_json_eq:
  assumes "rule_ok a" "rule_ok b"
  shows "rule_json a = rule_json b \<longleftrightarrow> rule_equiv a b"
proof -
  have "json_opt (json_map JStr) u = json_opt (json_map JStr) v \<longleftrightarrow> rel_option same_map u v"
    if "pred_option hashmap_ok u" "pred_option hashmap_ok v" for u v
    using that by (cases u; cases v) (simp_all add: json_opt_eq json_str_map_eq)
  moreover have "json_opt json_strs u = json_opt json_strs v \<longleftrightarrow> u = v" for u v
    by (rule json_opt_inject) simp_all
  ultimately show ?thesis
    using assms by (auto simp: rule_json_def rule_equiv_def rule_ok_def)
qed

lemma mock_instances_eq:
  assumes "\<forall>i\<in>set is. hashmap_ok (mi_metadata i)" "\<forall>i\<in>set js. hashmap_ok (mi_metadata i)"
  shows "map mock_instance_json is = map mock_instance_json js \<longleftrightarrow> list_all2 instance_equiv is js"
  unfolding map_eq_list_all2
  using assms
  by (intro list.rel_cong refl) (auto simp: mock_instance_json_def instance_equiv_def json_str_map_eq)

lemma registry_json_eq:
  assumes "registry_ok a" "registry_ok b"
  shows "registry_json a = registry_json b \<longleftrightarrow> registry_equiv a b"
proof -
  have opt: "json_opt nacos_auth_json u = json_opt nacos_auth_json v \<longleftrightarrow> u = v"
    "json_opt basic_auth_json u' = json_opt basic_auth_json v' \<longleftrightarrow> u' = v'"
    "json_opt k8s_auth_json u'' = json_opt k8s_auth_json v'' \<longleftrightarrow> u'' = v''" for u v u' v' u'' v''
    by (simp_all add: json_opt_inject)
  have services: "map_option (\<lambda>is. JArr (map mock_instance_json is)) (map_of m s) =
        map_option (\<lambda>is. JArr (map mock_instance_json is)) (map_of m' s)
      \<longleftrightarrow> rel_option (list_all2 instance_equiv) (map_of m s) (map_of m' s)"
    if "\<forall>(s, is)\<in>set m. \<forall>i\<in>set is. hashmap_ok (mi_metadata i)"
      "\<forall>(s, is)\<in>set m'. \<forall>i\<in>set is. hashmap_ok (mi_metadata i)"
    for m m' :: "(string, mock_service_instance list) hashmap" and s
  proof (cases "map_of m s"; cases "map_of m' s")
    fix l l'
    assume l: "map_of m s = Some l" "map_of m' s = Some l'"
    with that have "\<forall>i\<in>set l. hashmap_ok (mi_metadata i)" "\<forall>i\<in>set l'. hashmap_ok (mi_metadata i)"
      by (fastforce dest: map_of_SomeD)+
    with l show ?thesis by (simp add: mock_instances_eq)
  qed simp_all
  show ?thesis
  proof (cases a; cases b)
    fix c d
    assume "a = Nacos c" "b = Nacos d"
    then show ?thesis by (cases c; cases d) (auto simp: opt)
  next
    fix c d
    assume "a = Eureka c" "b = Eureka d"
    then show ?thesis by (cases c; cases d) (auto simp: opt)
  next
    fix c d
    assume "a = Kubernetes c" "b = Kubernetes d"
    then show ?thesis by (cases c; cases d) (auto simp: opt)
  next
    fix c d
    assume "a = Mock c" "b = Mock d"
    with assms have ok: "hashmap_ok (mc_error_services c)" "hashmap_ok (mc_error_services d)"
        "hashmap_ok (mc_services c)" "hashmap_ok (mc_services d)"
      and inst: "\<forall>(s, is)\<in>set (mc_services c). \<forall>i\<in>set is. hashmap_ok (mi_metadata i)"
        "\<forall>(s, is)\<in>set (mc_services d). \<forall>i\<in>set is. hashmap_ok (mi_metadata i)" by auto
    show ?thesis
      using services [OF inst] json_str_map_eq [OF ok(1,2)] json_map_eq [OF ok(3,4)]
      unfolding \<open>a = Mock c\<close> \<open>b = Mock d\<close> by auto
  qed simp_all
qed

section \<open>Routes by their id\<close>

text \<open>Of several routes with one id only the last is compared.\<close>

definition last_rule :: "routing_rule list \<Rightarrow> string \<Rightarrow> routing_rule option" where
  "last_rule rs i = find (\<lambda>r. rule_id r = i) (rev rs)"

lemma routes_by_id_snoc: "routes_by_id (rs @ [r]) = hashmap_insert (rule_id r) r (routes_by_id rs)"
  by (simp add: routes_by_id_def)

lemma map_of_routes_by_id: "map_of (routes_by_id rs) i = last_rule rs i"
proof (induction rs rule: rev_induct)
  case Nil
  then show ?case by (simp add: routes_by_id_def last_rule_def)
next
  case (snoc r rs)
  then show ?case by (simp add: routes_by_id_snoc last_rule_def)
qed

lemma keys_routes_by_id: "i \<in> set (map fst (routes_by_id rs)) \<longleftrightarrow> last_rule rs i \<noteq> None"
  by (metis map_of_eq_None_iff map_of_routes_by_id list.set_map)

lemma last_rule_in: "last_rule rs i = Some r \<Longrightarrow> r \<in> set rs \<and> rule_id r = i"
  by (auto simp: last_rule_def find_Some_iff) (metis length_rev nth_mem set_rev)

lemma concat_guarded_empty: "concat (map (\<lambda>i. if P i then [f i] else []) ks) = [] \<longleftrightarrow> (\<forall>i\<in>set ks. \<not> P i)"
  by (induction ks) auto

lemma diff_routes_by_id_empty_iff:
  assumes "order_ok ord" "list_all rule_ok left" "list_all rule_ok right"
  shows "diff_routes_by_id ord left right = [] \<longleftrightarrow> (\<forall>i. rel_option rule_equiv (last_rule left i) (last_rule right i))"
proof -
  have "diff_routes_by_id ord left right = [] \<longleftrightarrow>
      (\<forall>i. last_rule left i \<noteq> None \<longrightarrow> last_rule right i \<noteq> None) \<and>
      (\<forall>i. last_rule right i \<noteq> None \<longrightarrow> last_rule left i \<noteq> None) \<and>
      (\<forall>i. last_rule left i \<noteq> None \<longrightarrow> last_rule right i \<noteq> None \<longrightarrow>
         map_option rule_json (last_rule left i) = map_option rule_json (last_rule right i))"
  proof -
    have ord: "ord p ks = [] \<longleftrightarrow> ks = []" "set (ord p ks) = set ks" for p ks
      using set_order [OF assms(1), of p ks] by (metis set_empty, simp)
    let ?l = "map fst (routes_by_id left)" and ?r = "map fst (routes_by_id right)"
    have "diff_routes_by_id ord left right = [] \<longleftrightarrow>
        filter (\<lambda>i. i \<notin> set ?r) ?l = [] \<and> filter (\<lambda>i. i \<notin> set ?l) ?r = [] \<and>
        (\<forall>i\<in>set (filter (\<lambda>i. i \<in> set ?r) ?l).
           map_option rule_json (last_rule left i) = map_option rule_json (last_rule right i))"
      unfolding diff_routes_by_id_def Let_def map_of_routes_by_id append_is_Nil_conv map_is_Nil_conv ord
        concat_guarded_empty not_not by simp
    then show ?thesis
      unfolding filter_empty_conv set_filter Ball_def mem_Collect_eq not_not keys_routes_by_id by blast
  qed
  moreover have "rel_option rule_equiv (last_rule left i) (last_rule right i) \<longleftrightarrow>
      (last_rule left i \<noteq> None \<longleftrightarrow> last_rule right i \<noteq> None) \<and>
      (last_rule left i \<noteq> None \<longrightarrow> last_rule right i \<noteq> None \<longrightarrow>
         map_option rule_json (last_rule left i) = map_option rule_json (last_rule right i))" for i
  proof (cases "last_rule left i"; cases "last_rule right i")
    fix a b
    assume ab: "last_rule left i = Some a" "last_rule right i = Some b"
    with assms(2,3) have "rule_ok a" "rule_ok b"
      by (auto dest!: last_rule_in simp: list_all_iff)
    with ab show ?thesis by (simp add: rule_json_eq)
  qed simp_all
  ultimately show ?thesis by blast
qed

section \<open>The report\<close>

definition same_config :: "app_config \<Rightarrow> app_config \<Rightarrow> bool" where
  "same_config a b = (server a = server b \<and> log_level a = log_level b \<and>
     query_mode (registries a) = query_mode (registries b) \<and>
     list_all2 registry_equiv (sources (registries a)) (sources (registries b)) \<and>
     (\<forall>i. rel_option rule_equiv (last_rule (routes a) i) (last_rule (routes b) i)))"

lemma json_ok_simps [simp]:
  "json_ok (json_word w)" "json_ok (json_strs l)" "json_ok (selection_json sel)" "json_ok (query_mode_json qm)"
  by (simp add: json_word_def, auto simp: json_strs_def, cases sel, auto, cases qm, auto)

lemma json_ok_opt: "(\<And>y. v = Some y \<Longrightarrow> json_ok (f y)) \<Longrightarrow> json_ok (json_opt f v)"
  by (auto simp: json_opt_def split: option.split)

lemma json_ok_map:
  assumes "hashmap_ok m" and "\<And>k v. (k, v) \<in> set m \<Longrightarrow> json_ok (f v)"
  shows "json_ok (json_map f m)"
proof -
  have "map fst (map (\<lambda>(k, v). (k, f v)) (sort_key fst m)) = map fst (sort_key fst m)"
    by (simp add: comp_def case_prod_beta)
  with assms strict_sorted_sort_key [OF assms(1)] show ?thesis
    by (auto simp: json_map_def simp del: map_map)
qed

lemmas key_order = less_char_def

lemma json_ok_server:
  assumes "list_all (\<lambda>p. json_ok (pc_config p)) (plugins s)"
  shows "json_ok (server_json s)"
proof -
  have "json_ok (plugin_json p)" if "json_ok (pc_config p)" for p
    using that by (simp add: plugin_json_def key_order)
  moreover have "json_ok (health_check_json h)" for h
    by (simp add: health_check_json_def key_order)
  ultimately show ?thesis
    using assms by (auto simp: server_json_def key_order list_all_iff intro!: json_ok_opt)
qed

lemma json_ok_registry:
  assumes "registry_ok r"
  shows "json_ok (registry_json r)"
proof -
  have auth: "json_ok (nacos_auth_json na)" "json_ok (basic_auth_json ba)" "json_ok (k8s_auth_json ka)" for na ba ka
    by (simp_all add: nacos_auth_json_def basic_auth_json_def k8s_auth_json_def key_order json_ok_opt)
  have health: "json_ok (mock_health_json h)" for h
    by (cases h) (simp_all add: key_order)
  have inst: "json_ok (mock_instance_json i)" if "hashmap_ok (mi_metadata i)" for i
    using that by (simp add: mock_instance_json_def key_order json_ok_map)
  show ?thesis
  proof (cases r)
    case (Mock c)
    with assms have "json_ok (json_map JStr (mc_error_services c))"
      "json_ok (json_map (\<lambda>is. JArr (map mock_instance_json is)) (mc_services c))"
      by (fastforce intro!: json_ok_map inst)+
    with Mock show ?thesis
      by (simp add: key_order health)
  qed (simp_all add: key_order json_ok_opt auth)
qed

lemma json_ok_registries:
  "list_all registry_ok (sources r) \<Longrightarrow> json_ok (registries_json r)"
  by (auto simp: registries_json_def key_order list_all_iff json_ok_registry)

lemma json_ok_rule:
  assumes "rule_ok r"
  shows "json_ok (rule_json r)"
proof -
  have "json_ok (path_json p)" for p
    by (cases p) (simp_all add: tagged_value_def key_order)
  with assms show ?thesis
    by (auto simp: rule_json_def rule_ok_def key_order intro!: json_ok_opt json_ok_map)
qed

lemma identical_same_config:
  assumes "order_ok ord" and "config_ok a" and "config_ok b"
  shows "dr_identical (diff_app_configs ord a b pa pb) \<longleftrightarrow> same_config a b"
proof -
  have ok: "json_ok (server_json (server a))" "json_ok (server_json (server b))"
    "json_ok (registries_json (registries a))" "json_ok (registries_json (registries b))"
    "list_all rule_ok (routes a)" "list_all rule_ok (routes b)"
    and sources: "list_all registry_ok (sources (registries a))" "list_all registry_ok (sources (registries b))"
    using assms(2,3) by (simp_all add: config_ok_def json_ok_server json_ok_registries)
  have "registries_json (registries a) = registries_json (registries b) \<longleftrightarrow>
      query_mode (registries a) = query_mode (registries b) \<and>
      list_all2 (\<lambda>u v. registry_json u = registry_json v) (sources (registries a)) (sources (registries b))"
    by (simp add: registries_json_def map_eq_list_all2)
  also have "list_all2 (\<lambda>u v. registry_json u = registry_json v) (sources (registries a)) (sources (registries b)) \<longleftrightarrow>
      list_all2 registry_equiv (sources (registries a)) (sources (registries b))"
    using sources by (intro list.rel_cong refl) (simp add: list_all_iff registry_json_eq)
  finally show ?thesis
    by (simp add: diff_app_configs_def Let_def diff_json_leaf_empty_iff [OF assms(1) ok(1,2)]
        diff_json_leaf_empty_iff [OF assms(1) ok(3,4)] diff_routes_by_id_empty_iff [OF assms(1) ok(5,6)]
        same_config_def)
qed

text \<open>C11. Two configurations are reported identical exactly when they agree on the server,
  the log level, the registries and, for every route id, on the last route of that id, up to
  the order of hash maps.  In particular the schema version, the order of the routes and
  routes hidden by a later one of the same id are not compared.\<close>

theorem diff_identical_iff:
  assumes "order_ok ord" and "config_ok a" and "config_ok b"
  shows "dr_identical (diff_app_configs ord a b pa pb) \<longleftrightarrow>
    server a = server b \<and> log_level a = log_level b \<and> query_mode (registries a) = query_mode (registries b) \<and>
    list_all2 registry_equiv (sources (registries a)) (sources (registries b)) \<and>
    (\<forall>i. rel_option rule_equiv (last_rule (routes a) i) (last_rule (routes b) i))"
  using identical_same_config [OF assms] by (simp add: same_config_def)

text \<open>A change is added, removed or modified as its sides say, its values are well-formed, and
  the sides of a modification differ.\<close>

definition change_ok :: "diff_change \<Rightarrow> bool" where
  "change_ok c = (case (dc_left c, dc_right c) of
     (None, Some r) \<Rightarrow> dc_kind c = ''added'' \<and> json_ok r
   | (Some l, None) \<Rightarrow> dc_kind c = ''removed'' \<and> json_ok l
   | (Some l, Some r) \<Rightarrow> dc_kind c = ''modified'' \<and> l \<noteq> r \<and> json_ok l \<and> json_ok r
   | (None, None) \<Rightarrow> False)"

lemma diff_json_leaf_changes:
  assumes "order_ok ord"
  shows "json_ok a \<Longrightarrow> json_ok b \<Longrightarrow> \<forall>c\<in>set (diff_json_leaf ord path a b). change_ok c"
proof (induction path a b rule: diff_induct)
  case (objects path ma mb)
  have "change_ok c" if c: "c \<in> set (key_changes ord (sub_path path k) (map_of ma k) (map_of mb k))" for c k
  proof (cases "map_of ma k"; cases "map_of mb k")
    fix va vb
    assume v: "map_of ma k = Some va" "map_of mb k = Some vb"
    then have "json_ok va" "json_ok vb"
      using objects.prems json_ok_map_of by blast+
    with v c objects.IH [OF v] show ?thesis by (simp add: key_changes_def)
  qed (use c objects.prems json_ok_map_of in \<open>auto simp: key_changes_def change_ok_def change_def\<close>)
  then show ?case by (auto simp: diff_objects)
next
  case (leaf path a b)
  then show ?case by (auto simp: diff_leaf change_ok_def change_def)
qed

lemma in_ordered:
  "order_ok ord \<Longrightarrow> c \<in> set (map f (ord p (filter P ks))) \<longleftrightarrow> (\<exists>i. i \<in> set ks \<and> P i \<and> c = f i)"
  by (auto simp: set_order)

lemma in_ordered_guarded:
  "order_ok ord \<Longrightarrow> c \<in> set (concat (map (\<lambda>i. if Q i then [f i] else []) (ord p (filter P ks)))) \<longleftrightarrow>
     (\<exists>i. i \<in> set ks \<and> P i \<and> Q i \<and> c = f i)"
  by (auto simp: set_order)

lemma diff_routes_changes:
  assumes "order_ok ord" "list_all rule_ok left" "list_all rule_ok right"
  shows "\<forall>c\<in>set (diff_routes_by_id ord left right). change_ok c"
proof -
  have ok: "last_rule left i = Some r \<Longrightarrow> json_ok (rule_json r)" "last_rule right i = Some r \<Longrightarrow> json_ok (rule_json r)"
    for i r
    using assms(2,3) by (auto dest!: last_rule_in intro!: json_ok_rule simp: list_all_iff)
  have removed: "change_ok (change p ''removed'' (map_option rule_json (last_rule left i)) None)"
    if "last_rule left i \<noteq> None" for p i
    using that ok by (auto simp: change_ok_def change_def)
  have added: "change_ok (change p ''added'' None (map_option rule_json (last_rule right i)))"
    if "last_rule right i \<noteq> None" for p i
    using that ok by (auto simp: change_ok_def change_def)
  have modified: "change_ok (change p ''modified'' (map_option rule_json (last_rule left i))
      (map_option rule_json (last_rule right i)))"
    if "last_rule left i \<noteq> None" "last_rule right i \<noteq> None"
      "map_option rule_json (last_rule left i) \<noteq> map_option rule_json (last_rule right i)" for p i
    using that ok by (auto simp: change_ok_def change_def)
  show ?thesis
    unfolding diff_routes_by_id_def Let_def map_of_routes_by_id set_append Ball_def Un_iff
      in_ordered [OF assms(1)] in_ordered_guarded [OF assms(1)] keys_routes_by_id
    using removed added modified by blast
qed

text \<open>Every change of a report is well-typed: an addition has only a right value, a
  removal only a left one, a modification two different ones, every value is a well-formed
  JSON value, and the report is identical exactly when it lists no change.\<close>

theorem diff_report_welltyped:
  assumes "order_ok ord" and "config_ok a" and "config_ok b"
  shows "(\<forall>c\<in>set (dr_changes (diff_app_configs ord a b pa pb)). change_ok c)
       \<and> (dr_identical (diff_app_configs ord a b pa pb) \<longleftrightarrow> dr_changes (diff_app_configs ord a b pa pb) = [])"
proof -
  have ok: "json_ok (server_json (server c))" "json_ok (registries_json (registries c))" "list_all rule_ok (routes c)"
    if "config_ok c" for c
    using that by (simp_all add: config_ok_def json_ok_server json_ok_registries)
  have level: "change_ok (change p ''modified'' (Some (JStr l)) (Some (JStr r)))" if "l \<noteq> r" for p l r
    using that by (simp add: change_ok_def change_def)
  note parts = diff_json_leaf_changes [OF assms(1) ok(1) [OF assms(2)] ok(1) [OF assms(3)]]
    diff_json_leaf_changes [OF assms(1) ok(2) [OF assms(2)] ok(2) [OF assms(3)]]
    diff_routes_changes [OF assms(1) ok(3) [OF assms(2)] ok(3) [OF assms(3)]]
  show ?thesis
    unfolding diff_app_configs_def Let_def diff_report.simps set_append ball_Un
    using parts level by simp
qed

text \<open>Comparing the other way round reports the same changes with their sides exchanged,
  in whatever order the sets are iterated.\<close>

theorem diff_swap:
  assumes "order_ok ord"
  shows "mset (map swap_change (dr_changes (diff_app_configs ord a b pa pb)))
       = mset (dr_changes (diff_app_configs ord b a pb pa))"
proof -
  let ?sw = "\<lambda>l. mset (map swap_change l)"
  have routes: "?sw (diff_routes_by_id ord l r) = mset (diff_routes_by_id ord r l)" for l r
  proof -
    let ?f = "\<lambda>l r i. if map_option rule_json (last_rule l i) \<noteq> map_option rule_json (last_rule r i)
      then [change (route_path i) ''modified'' (map_option rule_json (last_rule l i)) (map_option rule_json (last_rule r i))]
      else []"
    let ?common = "\<lambda>l r. filter (\<lambda>i. i \<in> set (map fst (routes_by_id r))) (map fst (routes_by_id l))"
    have distinct: "distinct (map fst (routes_by_id rs))" for rs
      by (induction rs rule: rev_induct)
         (simp_all add: routes_by_id_snoc hashmap_ok_insert [unfolded hashmap_ok_def], simp add: routes_by_id_def)
    have "mset (ord p (?common l r)) = mset (ord q (?common r l))" for p q
    proof -
      have "set (?common l r) = set (?common r l)" by auto
      then have "mset (?common l r) = mset (?common r l)"
        using distinct by (metis distinct_filter set_eq_iff_mset_eq_distinct)
      then show ?thesis using assms by (simp add: order_ok_def)
    qed
    from mset_concat_map_order [OF this, of "''common''" "\<lambda>i. map swap_change (?f l r i)" "?f r l" "''common''"]
    have "?sw (concat (map (?f l r) (ord ''common'' (?common l r)))) =
        mset (concat (map (?f r l) (ord ''common'' (?common r l))))"
      by (simp add: map_concat comp_def)
    moreover have only: "?sw (map f (ord p ks)) = mset (map g (ord q ks))" if "\<And>i. swap_change (f i) = g i"
      for f g :: "string \<Rightarrow> diff_change" and p q ks
    proof -
      have "?sw (map f (ord p ks)) = image_mset g (mset (ord p ks))"
        by (simp add: comp_def that flip: mset_map)
      then show ?thesis
        using assms by (simp add: order_ok_def)
    qed
    ultimately show ?thesis
      unfolding diff_routes_by_id_def Let_def map_of_routes_by_id map_append mset_append
      by (simp only: only [where q = "''added''" and
            g = "\<lambda>i. change (route_path i) ''added'' None (map_option rule_json (last_rule l i))", OF swap_change_simps(2)]
          only [where q = "''removed''" and
            g = "\<lambda>i. change (route_path i) ''removed'' (map_option rule_json (last_rule r i)) None", OF swap_change_simps(1)]
          ac_simps)
  qed
  show ?thesis
    using diff_json_leaf_swap [OF assms] routes
    by (simp add: diff_app_configs_def Let_def)
qed

section \<open>Examples\<close>

definition as_listed :: "string \<Rightarrow> string list \<Rightarrow> string list" where
  "as_listed p ks = ks"

lemma order_as_listed: "order_ok as_listed"
  by (simp add: order_ok_def as_listed_def)

lemma config_ok_default:
  "config_ok default_app_config" "config_ok (default_app_config\<lparr> config_version := v \<rparr>)"
  "config_ok (default_app_config\<lparr> log_level := l \<rparr>)"
  by (simp_all add: config_ok_def default_app_config_def default_server_config_def)

theorem diff_identical_iff_witness:
  "dr_identical (diff_app_configs as_listed default_app_config (default_app_config\<lparr> config_version := ''2'' \<rparr>) ''a'' ''b'')"
  using diff_identical_iff [OF order_as_listed config_ok_default(1,2)]
  by (simp add: default_app_config_def last_rule_def)

theorem diff_report_welltyped_witness:
  "list_all change_ok (dr_changes (diff_app_configs as_listed default_app_config
     (default_app_config\<lparr> log_level := ''debug'' \<rparr>) ''a'' ''b''))"
  using diff_report_welltyped [OF order_as_listed config_ok_default(1,3)]
  by (simp add: list_all_iff)

theorem diff_swap_witness:
  "mset (dr_changes (diff_app_configs as_listed (default_app_config\<lparr> log_level := ''debug'' \<rparr>) default_app_config ''b'' ''a''))
     = {# change ''log_level'' ''modified'' (Some (JStr ''debug'')) (Some (JStr ''info'')) #}"
proof -
  have "dr_changes (diff_app_configs as_listed default_app_config (default_app_config\<lparr> log_level := ''debug'' \<rparr>) ''a'' ''b'')
      = [change ''log_level'' ''modified'' (Some (JStr ''info'')) (Some (JStr ''debug''))]"
    by (simp add: diff_app_configs_def Let_def default_app_config_def diff_routes_by_id_def routes_by_id_def as_listed_def)
  then show ?thesis
    using diff_swap [OF order_as_listed, of default_app_config "default_app_config\<lparr> log_level := ''debug'' \<rparr>" "''a''" "''b''"]
    by simp
qed

end
