(* ===== verification/Explain.thy ===== *)
theory Explain
  imports Server Snapshot
begin

text \<open>
  \<^verbatim>\<open>route-explain\<close> of \<^verbatim>\<open>main.rs\<close>: which rule a request would take,
  or for each rule why it does not match and what could be done about it.  A command yields
  an error or its exit code and its output; JSON output is the value that is printed.
\<close>

section \<open>Commands\<close>

datatype printed = Line string | Raw string | JsonOut json

type_synonym command_result = "string + nat \<times> printed list"

definition path_extension :: "string \<Rightarrow> string option" where
  "path_extension p =
     (case path_file_name p of
        None \<Rightarrow> None
      | Some name \<Rightarrow>
          (case rsplit_once CHR ''.'' name of
             None \<Rightarrow> None
           | Some (stem, ext) \<Rightarrow> if stem = [] then None else Some ext))"

definition is_json_file :: "string \<Rightarrow> bool" where
  "is_json_file p = (to_lowercase (case path_extension p of None \<Rightarrow> [] | Some e \<Rightarrow> e) = ''json'')"

text \<open>Files that are read by the commands themselves: reading, the trees of the two parsers,
  and the text of a refusal are parameters.\<close>

record route_sample =
  rq_path :: string
  rq_method :: "string option"
  rq_headers :: "(string, string) hashmap"

record sample_files =
  sf_read :: "string \<Rightarrow> string + string"
  sf_json_tree :: "string \<Rightarrow> string + json"
  sf_yaml_tree :: "string \<Rightarrow> string + json"
  sf_decode_error :: "json \<Rightarrow> string"

definition sample_of_json :: "route_sample decoder" where
  "sample_of_json = of_struct [''path'', ''method'', ''headers''] (\<lambda>m. do {
     p \<leftarrow> need of_str ''path'' m;
     mt \<leftarrow> optional of_str ''method'' m;
     hs \<leftarrow> with_default (of_map of_str) [] ''headers'' m;
     Some \<lparr> rq_path = p, rq_method = mt, rq_headers = hs \<rparr> })"

definition sf_json :: "sample_files \<Rightarrow> string \<Rightarrow> string + route_sample" where
  "sf_json f raw = decode_tree (sf_decode_error f) sample_of_json (sf_json_tree f raw)"

definition sf_yaml :: "sample_files \<Rightarrow> string \<Rightarrow> string + route_sample" where
  "sf_yaml f raw = decode_tree (sf_decode_error f) sample_of_json (sf_yaml_tree f raw)"

definition map_err :: "('e \<Rightarrow> 'f) \<Rightarrow> 'e + 'a \<Rightarrow> 'f + 'a" where
  "map_err f r = (case r of Inl e \<Rightarrow> Inl (f e) | Inr y \<Rightarrow> Inr y)"

definition load_route_request_sample :: "sample_files \<Rightarrow> string \<Rightarrow> string + route_sample" where
  "load_route_request_sample f p =
     res_bind (map_err (\<lambda>e. ''read '' @ p @ '': '' @ e) (sf_read f p)) (\<lambda>raw.
     if is_json_file p then map_err (\<lambda>e. ''parse '' @ p @ '' as JSON: '' @ e) (sf_json f raw)
     else map_err (\<lambda>e. ''parse '' @ p @ '' as YAML: '' @ e) (sf_yaml f raw))"

section \<open>Why a rule does not match\<close>

fun describe_path_expectation :: "compiled_path \<Rightarrow> string" where
  "describe_path_expectation (CExact v) = ''exact '' @ quoted v"
| "describe_path_expectation (CPrefix v) = ''prefix '' @ quoted v @ '' (path must start with this)''"
| "describe_path_expectation (CGlob p) = ''glob '' @ quoted p"
| "describe_path_expectation (CRegex re) = ''regex '' @ backticked re"

fun path_mismatch_action_message :: "compiled_path \<Rightarrow> string" where
  "path_mismatch_action_message (CExact v) = ''use path '' @ quoted v @ '' or change the rule to the path you need''"
| "path_mismatch_action_message (CPrefix v) = ''ensure the path starts with '' @ quoted v @
     '' or adjust the rule prefix / try a more specific rule first''"
| "path_mismatch_action_message (CGlob p) = ''shape the path to match glob '' @ quoted p @
     '' or relax/tighten the pattern in config''"
| "path_mismatch_action_message (CRegex re) = ''adjust the path to satisfy regex '' @ backticked re @
     '' or update the pattern in config''"

definition suggestion :: "string \<Rightarrow> string \<Rightarrow> string \<Rightarrow> json" where
  "suggestion code message command =
     JObj [(''code'', JStr code), (''command'', JStr command), (''message'', JStr message)]"

definition explain_cmd :: "string \<Rightarrow> string \<Rightarrow> string \<Rightarrow> string" where
  "explain_cmd path method config_path =
     ''cargo run -- route-explain '' @ path @ '' '' @ method @ '' --config '' @ config_path"

definition header_cmd :: "ext \<Rightarrow> string \<Rightarrow> string \<Rightarrow> string \<Rightarrow> string \<Rightarrow> string \<Rightarrow> string" where
  "header_cmd x path method config_path name expected =
     explain_cmd path (upper_with (char_upper x) method) config_path @ '' --header '' @ [CHR 0x22] @ name @ '':'' @ expected @ [CHR 0x22]"

text \<open>Reason and suggestion for a header constraint that does not hold.\<close>

definition header_issue ::
  "ext \<Rightarrow> string \<Rightarrow> string \<Rightarrow> string \<Rightarrow> string \<Rightarrow> header_map \<Rightarrow> string \<Rightarrow> string \<Rightarrow> (string \<times> json) option" where
  "header_issue x rid path method config_path hm name_raw expected =
     (case header_name x name_raw of
        None \<Rightarrow> Some (''invalid rule header name '' @ quoted name_raw,
                 suggestion ''RULE_HEADER_NAME_INVALID''
                   ''header names must be valid HTTP tokens; fix the key in YAML for this rule''
                   (''edit route '' @ quoted rid @ '' headers: replace invalid key '' @ quoted name_raw))
      | Some name \<Rightarrow>
          (case Option.bind (header_get hm name) (value_to_str x) of
             Some actual \<Rightarrow>
               if actual = expected then None
               else Some (''header '' @ quoted name @ '' mismatch: expected '' @ quoted expected @
                            '', got '' @ quoted actual,
                          suggestion ''HEADER_VALUE_MISMATCH''
                            (''set header '' @ quoted name @ '' to '' @ quoted expected @ '' or update rule condition'')
                            (header_cmd x path method config_path name expected))
           | None \<Rightarrow> Some (''missing required header '' @ quoted name,
                     suggestion ''HEADER_MISSING''
                       (''add required header '' @ quoted name @ '' with expected value '' @ quoted expected)
                       (header_cmd x path method config_path name expected))))"

text \<open>The loop over the header constraints of a rule, on whether all hold and on the reasons
  and suggestions.\<close>

fun explain_rule_headers ::
  "ext \<Rightarrow> string \<Rightarrow> string \<Rightarrow> string \<Rightarrow> string \<Rightarrow> header_map \<Rightarrow> (string \<times> string) list
    \<Rightarrow> bool \<times> string list \<times> json list \<Rightarrow> bool \<times> string list \<times> json list" where
  "explain_rule_headers x rid path method config_path hm [] acc = acc"
| "explain_rule_headers x rid path method config_path hm ((name, expected) # hs) (ok, reasons, suggestions) =
     (case header_issue x rid path method config_path hm name expected of
        None \<Rightarrow> explain_rule_headers x rid path method config_path hm hs (ok, reasons, suggestions)
      | Some (r, s) \<Rightarrow> explain_rule_headers x rid path method config_path hm hs
          (False, reasons @ [r], suggestions @ [s]))"

text \<open>Reason and suggestion about the path and about the method, if it does not match.\<close>

definition path_issue :: "ext \<Rightarrow> compiled_rule \<Rightarrow> string \<Rightarrow> string \<Rightarrow> string \<Rightarrow> string list \<times> json list" where
  "path_issue x rule path method config_path =
     (if compiled_path_matches x (cr_path rule) path then ([], [])
      else ([''path '' @ quoted path @ '' does not match rule ('' @ describe_path_expectation (cr_path rule) @ '')''],
            [suggestion ''PATH_MISMATCH'' (path_mismatch_action_message (cr_path rule))
               (explain_cmd path (upper_with (char_upper x) method) config_path @ '' --verbose'')]))"

definition method_ok :: "compiled_rule \<Rightarrow> string \<Rightarrow> bool" where
  "method_ok rule method =
     (case cr_methods rule of None \<Rightarrow> True | Some ms \<Rightarrow> list_ex (\<lambda>m. eq_ignore_ascii_case m method) ms)"

definition method_issue :: "ext \<Rightarrow> compiled_rule \<Rightarrow> string \<Rightarrow> string \<Rightarrow> string \<Rightarrow> string list \<times> json list" where
  "method_issue x rule path method config_path =
     (if method_ok rule method then ([], [])
      else let allowed = (case cr_methods rule of None \<Rightarrow> ''*'' | Some ms \<Rightarrow> join '','' ms);
               sample_method = (case cr_methods rule of Some (m # _) \<Rightarrow> upper_with (char_upper x) m | _ \<Rightarrow> ''GET'')
           in ([''method '' @ quoted (upper_with (char_upper x) method) @ '' not in ['' @ allowed @ '']''],
               [suggestion ''METHOD_MISMATCH''
                  (''call with one of ['' @ allowed @ ''] or add '' @ quoted (upper_with (char_upper x) method) @ '' to rule.methods'')
                  (explain_cmd path sample_method config_path)]))"

definition explain_rule_mismatch ::
  "ext \<Rightarrow> compiled_rule \<Rightarrow> string \<Rightarrow> string \<Rightarrow> header_map \<Rightarrow> string
    \<Rightarrow> bool \<times> bool \<times> bool \<times> string list \<times> json list" where
  "explain_rule_mismatch x rule path method hm config_path =
     (let (r1, s1) = path_issue x rule path method config_path;
          (r2, s2) = method_issue x rule path method config_path;
          (headers_ok, reasons, suggestions) =
            (case cr_headers rule of
               None \<Rightarrow> (True, r1 @ r2, s1 @ s2)
             | Some hs \<Rightarrow> explain_rule_headers x (cr_id rule) path method config_path hm hs (True, r1 @ r2, s1 @ s2))
      in (compiled_path_matches x (cr_path rule) path, method_ok rule method, headers_ok, reasons, suggestions))"

section \<open>The outline of remedies\<close>

definition coded_suggestions :: "json \<Rightarrow> (string \<times> json) list" where
  "coded_suggestions d =
     (case Option.bind (json_get d ''suggestions'') json_as_array of
        None \<Rightarrow> []
      | Some arr \<Rightarrow> concat (map (\<lambda>s. case Option.bind (json_get s ''code'') json_as_str of
                                      None \<Rightarrow> []
                                    | Some code \<Rightarrow> [(code, s)]) arr))"

definition merge_remediation_outline :: "json list \<Rightarrow> json list" where
  "merge_remediation_outline diagnostics =
     map snd (snd (fold (\<lambda>d acc. fold (push_unseen fst) (coded_suggestions d) acc) diagnostics ({}, [])))"

section \<open>The command\<close>

text \<open>\<open>lossy\<close> is \<^verbatim>\<open>String::from_utf8_lossy\<close>.\<close>

definition explain_response_headers_json :: "ext \<Rightarrow> (string \<Rightarrow> string) \<Rightarrow> compiled_rule \<Rightarrow> json" where
  "explain_response_headers_json x lossy rule =
     (case cr_response_headers rule of
        None \<Rightarrow> JNull
      | Some pairs \<Rightarrow>
          if pairs = [] then JNull
          else json_map JStr (fold (\<lambda>(name, value). hashmap_insert name
                 (case value_to_str x value of Some s \<Rightarrow> s | None \<Rightarrow> lossy value)) pairs []))"

definition rule_target :: "compiled_rule \<Rightarrow> string option" where
  "rule_target rule = (case cr_upstream_url rule of Some u \<Rightarrow> Some u | None \<Rightarrow> cr_service_id rule)"

definition show_word :: "'a :: len word \<Rightarrow> string" where
  "show_word w = show_nat (unat w)"

definition explain_headline :: "ext \<Rightarrow> string \<Rightarrow> string \<Rightarrow> string \<Rightarrow> printed" where
  "explain_headline x path method config_path =
     Line (''Route explain - path='' @ path @ '', method='' @ upper_with (char_upper x) method @ '', config='' @ config_path)"

definition explain_match ::
  "ext \<Rightarrow> (string \<Rightarrow> string) \<Rightarrow> string \<Rightarrow> string \<Rightarrow> string \<Rightarrow> string option \<Rightarrow> bool \<Rightarrow> compiled_rule \<Rightarrow> nat \<times> printed list" where
  "explain_match x lossy config_path path method request_file as_json rule =
     (0, if as_json then
           [JsonOut (JObj [(''config_path'', JStr config_path), (''diagnostic_version'', JStr ''1.0''),
              (''matched'', JBool True), (''method'', JStr (upper_with (char_upper x) method)), (''path'', JStr path),
              (''priority'', json_word (cr_priority rule)), (''request_file'', json_opt JStr request_file),
              (''response_headers'', explain_response_headers_json x lossy rule),
              (''rewritten_path'', JStr (rewrite_path rule path)), (''rule_id'', JStr (cr_id rule)),
              (''target'', json_opt JStr (rule_target rule))])]
         else
           [explain_headline x path method config_path,
            Line (''Matched rule: '' @ cr_id rule @ '' (priority='' @ show_word (cr_priority rule) @ '')''),
            Line (''Target: '' @ (case rule_target rule of Some t \<Rightarrow> t | None \<Rightarrow> ''<missing>'')),
            Line (''Rewritten path: '' @ rewrite_path rule path)]
           @ (case cr_response_headers rule of
                None \<Rightarrow> []
              | Some pairs \<Rightarrow>
                  if pairs = [] then []
                  else Line ''Outbound response headers (HTTP only):'' #
                       map (\<lambda>(name, value). Line (''  '' @ name @ '': '' @
                              (case value_to_str x value of Some s \<Rightarrow> s | None \<Rightarrow> ''<non-utf8>''))) pairs))"

definition diagnostic :: "ext \<Rightarrow> string \<Rightarrow> string \<Rightarrow> string \<Rightarrow> header_map \<Rightarrow> compiled_rule \<Rightarrow> json" where
  "diagnostic x config_path path method hm rule =
     (let (path_ok, method_ok, headers_ok, reasons, suggestions) =
            explain_rule_mismatch x rule path method hm config_path
      in JObj [(''headers'', JBool headers_ok), (''method'', JBool method_ok), (''path'', JBool path_ok),
           (''reasons'', json_strs reasons), (''rule_id'', JStr (cr_id rule)), (''suggestions'', JArr suggestions)])"

definition get_str :: "json \<Rightarrow> string \<Rightarrow> string option" where
  "get_str v k = Option.bind (json_get v k) json_as_str"

definition or_else :: "'a option \<Rightarrow> 'a \<Rightarrow> 'a" where
  "or_else v d = (case v of Some y \<Rightarrow> y | None \<Rightarrow> d)"

definition get_bool :: "json \<Rightarrow> string \<Rightarrow> bool" where
  "get_bool v k = (case json_get v k of Some (JBool b) \<Rightarrow> b | _ \<Rightarrow> False)"

definition show_bool :: "bool \<Rightarrow> string" where
  "show_bool b = (if b then ''true'' else ''false'')"

definition diagnostic_line :: "json \<Rightarrow> printed" where
  "diagnostic_line item =
     (let reasons = (case Option.bind (json_get item ''reasons'') json_as_array of
            Some arr \<Rightarrow> join ''; '' (List.map_filter json_as_str arr)
          | None \<Rightarrow> ''no additional reason'');
          suggestions = (case Option.bind (json_get item ''suggestions'') json_as_array of
            Some arr \<Rightarrow> join ''; '' (List.map_filter (\<lambda>v.
              case (get_str v ''message'', get_str v ''command'') of
                (Some message, Some command) \<Rightarrow> Some (message @ '' (cmd: '' @ command @ '')'')
              | _ \<Rightarrow> None) arr)
          | None \<Rightarrow> ''no suggestion'')
      in Line ('' - '' @ or_else (get_str item ''rule_id'') ''-'' @ '': path='' @ show_bool (get_bool item ''path'')
           @ '', method='' @ show_bool (get_bool item ''method'') @ '', headers='' @ show_bool (get_bool item ''headers'')
           @ '' | '' @ reasons @ '' | suggestion: '' @ suggestions))"

definition outline_line :: "json \<Rightarrow> printed" where
  "outline_line entry =
     Line ('' - ['' @ or_else (get_str entry ''code'') ''?'' @ ''] '' @ or_else (get_str entry ''message'') ''''
       @ '' | '' @ or_else (get_str entry ''command'') '''')"

definition explain_no_match ::
  "ext \<Rightarrow> string \<Rightarrow> string \<Rightarrow> string \<Rightarrow> header_map \<Rightarrow> string option \<Rightarrow> bool \<Rightarrow> bool \<Rightarrow> router_snapshot
    \<Rightarrow> nat \<times> printed list" where
  "explain_no_match x config_path path method hm request_file as_json verbose snap =
     (let inspect_limit = (if verbose then length (rules snap) else 5);
          diagnostics = map (diagnostic x config_path path method hm) (take inspect_limit (rules snap));
          outline = merge_remediation_outline diagnostics
      in (1, if as_json then
               [JsonOut (JObj [(''config_path'', JStr config_path), (''diagnostic_version'', JStr ''1.0''),
                  (''diagnostics'', JArr diagnostics), (''inspected_rules'', JInt (int inspect_limit)),
                  (''matched'', JBool False), (''method'', JStr (upper_with (char_upper x) method)), (''path'', JStr path),
                  (''remediation_outline'', JArr outline), (''request_file'', json_opt JStr request_file)])]
             else
               [explain_headline x path method config_path,
                Line (''No route matched. Candidate diagnostics (showing '' @ show_nat inspect_limit @ '' rule(s)):'')]
               @ map diagnostic_line diagnostics
               @ (if outline = [] then []
                  else Line ''Suggested actions (first hit per issue code):'' # map outline_line outline)))"

definition failed_to_load :: "string \<Rightarrow> config_error \<Rightarrow> string" where
  "failed_to_load config_path e = ''Failed to load config from '' @ config_path @ '': '' @ show_config_error e"

definition explain_request ::
  "sample_files \<Rightarrow> string \<Rightarrow> string \<Rightarrow> (string \<times> string) list \<Rightarrow> string option
    \<Rightarrow> string + string \<times> string \<times> (string \<times> string) list" where
  "explain_request f path method headers request_file =
     (case request_file of
        None \<Rightarrow> Inr (path, method, headers)
      | Some rf \<Rightarrow>
          res_bind (load_route_request_sample f rf) (\<lambda>sample.
            Inr (rq_path sample, or_else (rq_method sample) ''GET'',
                 fold (\<lambda>(k, v). hashmap_insert k v) headers (rq_headers sample))))"

definition route_explain ::
  "world \<Rightarrow> ext \<Rightarrow> sample_files \<Rightarrow> (string \<Rightarrow> string) \<Rightarrow> string \<Rightarrow> string \<Rightarrow> string \<Rightarrow> (string \<times> string) list
    \<Rightarrow> string option \<Rightarrow> bool \<Rightarrow> bool \<Rightarrow> command_result" where
  "route_explain w x f lossy config_path path0 method0 headers0 request_file as_json verbose =
     res_bind (explain_request f path0 method0 headers0 request_file) (\<lambda>(path, method, headers).
     res_bind (map_err (failed_to_load config_path) (load_config w x config_path)) (\<lambda>cfg.
     res_bind (map_err (\<lambda>e. ''Failed to compile routing rules: '' @ show_config_error e) (from_config x cfg)) (\<lambda>snap.
       let hm = set_headers x headers [] in
       case resolve x snap path method hm of
         Some rule \<Rightarrow> Inr (explain_match x lossy config_path path method request_file as_json rule)
       | None \<Rightarrow> Inr (explain_no_match x config_path path method hm request_file as_json verbose snap))))"

section \<open>The explanation and the router agree\<close>

definition header_holds :: "ext \<Rightarrow> header_map \<Rightarrow> string \<times> string \<Rightarrow> bool" where
  "header_holds x hm c = (\<exists>hn v. header_name x (fst c) = Some hn \<and> header_get hm hn = Some v \<and>
     value_to_str x v = Some (snd c))"

definition issue_codes :: "string list" where
  "issue_codes = [''PATH_MISMATCH'', ''METHOD_MISMATCH'', ''RULE_HEADER_NAME_INVALID'', ''HEADER_VALUE_MISMATCH'', ''HEADER_MISSING'']"

definition coded :: "json \<Rightarrow> bool" where
  "coded s = (\<exists>c\<in>set issue_codes. \<exists>m k. s = suggestion c m k)"

lemma coded_suggestion: "c \<in> set issue_codes \<Longrightarrow> coded (suggestion c m k)"
  unfolding coded_def by blast

lemma header_issue_None: "header_issue x rid path m cfg hm n e = None \<longleftrightarrow> header_holds x hm (n, e)"
  by (auto simp: header_issue_def header_holds_def bind_eq_Some_conv split: option.splits)

lemma header_issue_coded: "header_issue x rid path m cfg hm n e = Some (r, s) \<Longrightarrow> coded s"
  by (auto simp: header_issue_def issue_codes_def intro!: coded_suggestion split: option.splits if_splits)

lemma explain_rule_headers_spec:
  "\<exists>rs' ss'. explain_rule_headers x rid path m cfg hm hs (ok, rs, ss) =
       (ok \<and> (\<forall>c\<in>set hs. header_holds x hm c), rs @ rs', ss @ ss') \<and>
     length ss' = length rs' \<and> (rs' = [] \<longleftrightarrow> (\<forall>c\<in>set hs. header_holds x hm c)) \<and> (\<forall>s\<in>set ss'. coded s)"
proof (induction hs arbitrary: ok rs ss)
  case Nil
  then show ?case by simp
next
  case (Cons c hs)
  obtain n e where c: "c = (n, e)" by force
  show ?case
  proof (cases "header_holds x hm c")
    case True
    then have "explain_rule_headers x rid path m cfg hm (c # hs) (ok, rs, ss) =
        explain_rule_headers x rid path m cfg hm hs (ok, rs, ss)"
      using header_issue_None [of x rid path m cfg hm n e] by (simp add: c)
    with Cons.IH [of ok rs ss] True show ?thesis by simp
  next
    case False
    then obtain r s where issue: "header_issue x rid path m cfg hm n e = Some (r, s)"
      using header_issue_None [of x rid path m cfg hm n e] c by fastforce
    then have s: "coded s"
      by (rule header_issue_coded)
    have step: "explain_rule_headers x rid path m cfg hm (c # hs) (ok, rs, ss) =
        explain_rule_headers x rid path m cfg hm hs (False, rs @ [r], ss @ [s])"
      by (simp add: c issue)
    obtain rs' ss' where "explain_rule_headers x rid path m cfg hm hs (False, rs @ [r], ss @ [s]) =
        (False, (rs @ [r]) @ rs', (ss @ [s]) @ ss')" "length ss' = length rs'" "\<forall>s\<in>set ss'. coded s"
      using Cons.IH [of False "rs @ [r]" "ss @ [s]"] by auto
    with s step False show ?thesis
      by (intro exI [of _ "r # rs'"] exI [of _ "s # ss'"]) auto
  qed
qed

lemma explain_rule_mismatch_spec:
  assumes "explain_rule_mismatch x rule path method hm cfg = (p, m, h, reasons, suggestions)"
  shows "p = compiled_path_matches x (cr_path rule) path
       \<and> m = method_ok rule method
       \<and> h = (case cr_headers rule of None \<Rightarrow> True | Some hs \<Rightarrow> \<forall>c\<in>set hs. header_holds x hm c)
       \<and> (reasons = [] \<longleftrightarrow> p \<and> m \<and> h) \<and> length suggestions = length reasons \<and> (\<forall>s\<in>set suggestions. coded s)"
proof -
  obtain r1 s1 r2 s2 where issues: "path_issue x rule path method cfg = (r1, s1)"
    "method_issue x rule path method cfg = (r2, s2)" by fastforce
  have path: "(r1 = [] \<longleftrightarrow> compiled_path_matches x (cr_path rule) path) \<and> length s1 = length r1 \<and> (\<forall>s\<in>set s1. coded s)"
    using issues(1) by (auto simp: path_issue_def issue_codes_def intro!: coded_suggestion split: if_splits)
  have meth: "(r2 = [] \<longleftrightarrow> method_ok rule method) \<and> length s2 = length r2 \<and> (\<forall>s\<in>set s2. coded s)"
    using issues(2) by (auto simp: method_issue_def Let_def issue_codes_def intro!: coded_suggestion split: if_splits)
  show ?thesis
  proof (cases "cr_headers rule")
    case None
    with assms issues path meth show ?thesis
      by (auto simp: explain_rule_mismatch_def)
  next
    case (Some hs)
    obtain r3 s3 where "explain_rule_headers x (cr_id rule) path method cfg hm hs (True, r1 @ r2, s1 @ s2) =
        (\<forall>c\<in>set hs. header_holds x hm c, (r1 @ r2) @ r3, (s1 @ s2) @ s3)"
      "length s3 = length r3" "r3 = [] \<longleftrightarrow> (\<forall>c\<in>set hs. header_holds x hm c)" "\<forall>s\<in>set s3. coded s"
      using explain_rule_headers_spec [of x "cr_id rule" path "method" cfg hm hs True "r1 @ r2" "s1 @ s2"] by auto
    with Some assms issues path meth show ?thesis
      by (auto simp: explain_rule_mismatch_def)
  qed
qed

lemma method_ok_ascii:
  assumes "list_all ascii_char method" and "\<forall>ms\<in>set_option (cr_methods rule). \<forall>k\<in>set ms. list_all ascii_char k"
  shows "method_ok rule method \<longleftrightarrow>
    (case cr_methods rule of None \<Rightarrow> True
     | Some ms \<Rightarrow> \<exists>k\<in>set ms. upper_with (char_upper x) k = upper_with (char_upper x) method)"
  using assms
  by (cases "cr_methods rule") (simp_all add: method_ok_def list_ex_iff eq_ignore_ascii_case_upper upper_with_ascii)

text \<open>C15. The explanation agrees with the router when the methods of the rule and of the request
  are ASCII and the header values of the request are readable text: the three verdicts on a
  rule hold together exactly when the router would take the rule, a rule that is not taken has
  at least one reason, and there is one suggestion per reason.\<close>

theorem explanation_agrees_with_router:
  assumes "explain_rule_mismatch x rule path method hm cfg = (p, m, h, reasons, suggestions)"
    and "\<forall>n v. header_get hm n = Some v \<longrightarrow> value_to_str x v \<noteq> None"
    and "list_all ascii_char method" and "\<forall>ms\<in>set_option (cr_methods rule). \<forall>k\<in>set ms. list_all ascii_char k"
  shows "(p \<and> m \<and> h \<longleftrightarrow> rule_matches x rule path method hm)
       \<and> (reasons = [] \<longleftrightarrow> rule_matches x rule path method hm)
       \<and> length suggestions = length reasons"
proof -
  have "header_holds x hm c \<longleftrightarrow> header_accepts x (fst c) (snd c) hm" for c
    using assms(2) by (auto simp: header_holds_def header_accepts_def) (metis option.distinct(1))
  then have "p \<and> m \<and> h \<longleftrightarrow> rule_matches x rule path method hm"
    using explain_rule_mismatch_spec [OF assms(1)] method_ok_ascii [OF assms(3,4), of x]
    by (auto simp: rule_matches_def headers_match_iff list_ex_iff split: option.splits)
  with explain_rule_mismatch_spec [OF assms(1)] show ?thesis by blast
qed

text \<open>Beyond ASCII they differ: the router compares the upper case of Unicode, the explanation
  that of ASCII letters.  Where the upper case of a letter is two, as that of the sharp s is
  SS, a rule with that letter as its method takes requests that the explanation says it
  refuses.\<close>

lemma explanation_beyond_ascii:
  assumes "cr_methods rule = Some [[CHR 0xDF]]" and "char_upper x (CHR 0xDF) = ''SS''"
    and "compiled_path_matches x (cr_path rule) path" and "cr_headers rule = None"
  shows "rule_matches x rule path ''SS'' hm \<and> \<not> method_ok rule ''SS''"
  using assms
  by (simp add: rule_matches_def method_ok_def upper_with_def ascii_char_def upper_char_def eq_ignore_ascii_case_def to_lowercase_def)

lemma no_match_iff:
  assumes "from_config x cfg = Inr snap"
  shows "resolve x snap p m hs = None \<longleftrightarrow> (\<forall>r\<in>set (routes cfg). \<not> accepts x r p m hs)"
proof -
  obtain cs where cs: "list_all2 (\<lambda>r c. compile x r = Inr c) (routes cfg) cs" and snap: "snap = \<lparr> rules = sort_rules cs \<rparr>"
    using assms by (auto simp: from_config_Inr)
  have "resolve x snap p m hs = None \<longleftrightarrow> (\<forall>c\<in>set cs. \<not> rule_matches x c p m hs)"
    by (simp add: resolve_def snap resolve_in_find rule_table.no_hit)
  also have "\<dots> \<longleftrightarrow> (\<forall>r\<in>set (routes cfg). \<not> accepts x r p m hs)"
  proof -
    have "\<forall>r\<in>set (routes cfg). \<exists>c\<in>set cs. compile x r = Inr c" "\<forall>c\<in>set cs. \<exists>r\<in>set (routes cfg). compile x r = Inr c"
      using cs by (auto simp: list_all2_conv_all_nth in_set_conv_nth) (metis nth_mem)+
    then show ?thesis by (metis compile_matches)
  qed
  finally show ?thesis .
qed

text \<open>What the output says of the compiled rule, said of the declared one.\<close>

lemma compiled_output:
  assumes "compile x r = Inr c"
  shows "cr_id c = rule_id r"
    and "rewrite_path c path = (case rule_strip_prefix r of
       None \<Rightarrow> path
     | Some pre \<Rightarrow> if path = pre then ''/'' else if prefix pre path then drop (length pre) path else path)"
    and "json_opt JStr (rule_target c) = (case (rule_upstream_url r, rule_service_id r) of
       (Some u, _) \<Rightarrow> JStr u | (None, Some s) \<Rightarrow> JStr s | (None, None) \<Rightarrow> JNull)"
  using assms
  by (elim compile_InrE; auto simp: rewrite_path_def rule_target_def str_simps prefix_def json_opt_def split: option.splits)+

text \<open>C3. The command tells the truth about the declared table: it ends with exit code 0
  exactly when some declared rule accepts the request; then its JSON output names the rule
  that the router takes, its rewritten path and its target, and otherwise it ends with exit
  code 1 and the JSON output says that nothing matched.\<close>

theorem route_explain_reports_winner:
  assumes "explain_request f path0 method0 headers0 request_file = Inr (path, method, headers)"
    and "load_config w x config_path = Inr cfg" and "from_config x cfg = Inr snap"
    and hm_def: "hm = set_headers x headers []"
  shows "\<exists>code j. route_explain w x f lossy config_path path0 method0 headers0 request_file True verbose =
        Inr (code, [JsonOut j])
    \<and> (code = 0 \<longleftrightarrow> (\<exists>r\<in>set (routes cfg). accepts x r path method hm))
    \<and> (if code = 0 then \<exists>i r. wins x (routes cfg) path method hm i \<and> r = routes cfg ! i \<and>
           json_get j ''rule_id'' = Some (JStr (rule_id r)) \<and>
           json_get j ''rewritten_path'' = Some (JStr (case rule_strip_prefix r of
               None \<Rightarrow> path
             | Some pre \<Rightarrow> if path = pre then ''/'' else if prefix pre path then drop (length pre) path else path)) \<and>
           json_get j ''target'' = Some (case (rule_upstream_url r, rule_service_id r) of
               (Some u, _) \<Rightarrow> JStr u | (None, Some s) \<Rightarrow> JStr s | (None, None) \<Rightarrow> JNull)
       else code = 1 \<and> json_get j ''matched'' = Some (JBool False))"
proof (cases "resolve x snap path method hm")
  case None
  moreover have "\<not> (\<exists>r\<in>set (routes cfg). accepts x r path method hm)"
    using None no_match_iff [OF assms(3)] by blast
  ultimately show ?thesis
    using assms by (simp add: route_explain_def map_err_def explain_no_match_def Let_def json_get_def)
next
  case (Some c)
  obtain cs where cs: "list_all2 (\<lambda>r c. compile x r = Inr c) (routes cfg) cs" and snap: "snap = \<lparr> rules = sort_rules cs \<rparr>"
    using assms(3) by (auto simp: from_config_Inr)
  have "find (\<lambda>r. rule_matches x r path method hm) (sort_rules cs) = Some c"
    using Some by (simp add: resolve_def snap resolve_in_find)
  from resolve_Some_wins [OF cs this] obtain i
    where i: "wins x (routes cfg) path method hm i" "compile x (routes cfg ! i) = Inr c" by blast
  have "\<exists>r\<in>set (routes cfg). accepts x r path method hm"
    using Some no_match_iff [OF assms(3), of path "method" hm] by force
  moreover note compiled_output(1,3) [OF i(2)] compiled_output(2) [OF i(2), of path]
  ultimately show ?thesis
    using Some assms i(1)
    by (simp add: route_explain_def map_err_def explain_match_def json_get_def) blast
qed

section \<open>The outline\<close>

lemma coded_suggestions_diagnostic:
  "\<exists>l. coded_suggestions (diagnostic x cfg path method hm rule) = l \<and> fst ` set l \<subseteq> set issue_codes"
proof -
  obtain p m h reasons suggestions
    where e: "explain_rule_mismatch x rule path method hm cfg = (p, m, h, reasons, suggestions)"
    by (metis prod_cases5)
  then have "\<forall>s\<in>set suggestions. coded s"
    using explain_rule_mismatch_spec by blast
  then show ?thesis
    by (fastforce simp: coded_suggestions_def diagnostic_def e json_get_def json_as_array_def coded_def
        suggestion_def json_as_str_def split: option.splits)
qed

lemma coded_suggestions_code: "(c, s) \<in> set (coded_suggestions d) \<Longrightarrow> json_get s ''code'' = Some (JStr c)"
proof -
  have "Option.bind v json_as_str = Some c \<Longrightarrow> v = Some (JStr c)" for v
    by (cases v) (auto simp: json_as_str_def split: json.splits)
  then show "(c, s) \<in> set (coded_suggestions d) \<Longrightarrow> ?thesis"
    by (auto simp: coded_suggestions_def split: option.splits)
qed

text \<open>The outline of remedies names every issue at most once, the first suggestion for it,
  and so never has more than five entries, however many rules are inspected.\<close>

theorem remediation_outline_bound:
  assumes "diagnostics = map (diagnostic x config_path path method hm) inspected"
  shows "distinct (map (\<lambda>s. json_get s ''code'') (merge_remediation_outline diagnostics))
       \<and> length (merge_remediation_outline diagnostics) \<le> 5
       \<and> merge_remediation_outline diagnostics = map snd (first_seen fst {} (concat (map coded_suggestions diagnostics)))"
proof -
  let ?l = "concat (map coded_suggestions diagnostics)"
  let ?out = "first_seen fst {} ?l"
  have run: "merge_remediation_outline diagnostics = map snd ?out"
    unfolding merge_remediation_outline_def
    by (subst fold_push_concat [where key = fst and g = coded_suggestions]) (simp_all add: fold_push_unseen)
  have code: "json_get (snd cs) ''code'' = Some (JStr (fst cs))" if "cs \<in> set ?l" for cs
    using that coded_suggestions_code [of "fst cs" "snd cs"] by auto
  have sub: "set ?out \<subseteq> set ?l"
    by (rule set_first_seen_subset)
  have "map (\<lambda>s. json_get s ''code'') (map snd ?out) = map (\<lambda>c. Some (JStr c)) (map fst ?out)"
    unfolding map_map comp_def by (rule map_cong [OF refl], rule code, rule subsetD [OF sub])
  moreover have d: "distinct (map fst ?out)"
    by (rule distinct_first_seen)
  ultimately have "distinct (map (\<lambda>s. json_get s ''code'') (map snd ?out))"
    by (simp add: distinct_map inj_on_def)
  moreover have "set (map fst ?out) \<subseteq> set issue_codes"
  proof -
    have "fst ` set ?l \<subseteq> set issue_codes"
      using coded_suggestions_diagnostic [of x config_path path "method" hm] assms by auto
    then show ?thesis
      unfolding list.set_map by (rule order_trans [OF image_mono [OF sub]])
  qed
  then have "length ?out \<le> 5"
    using card_mono [of "set issue_codes" "set (map fst ?out)"] distinct_card [OF d]
    by (simp add: issue_codes_def)
  ultimately show ?thesis by (simp add: run)
qed

section \<open>Examples\<close>

theorem explanation_agrees_with_router_witness:
  "fst (snd (snd (snd (explain_rule_mismatch example_ext (example_compiled ''api'' ''/api'' 10) ''/x'' ''GET'' [] ''c'')))) \<noteq> []"
proof -
  obtain p m h reasons suggestions
    where e: "explain_rule_mismatch example_ext (example_compiled ''api'' ''/api'' 10) ''/x'' ''GET'' [] ''c'' =
      (p, m, h, reasons, suggestions)" by (metis prod_cases5)
  have "\<not> rule_matches example_ext (example_compiled ''api'' ''/api'' 10) ''/x'' ''GET'' []"
    by code_simp
  moreover have ascii: "list_all ascii_char ''GET''" "\<forall>ms\<in>set_option (cr_methods (example_compiled ''api'' ''/api'' 10)).
      \<forall>k\<in>set ms. list_all ascii_char k"
    by (simp_all add: ascii_char_def example_compiled_def)
  ultimately show ?thesis
    using explanation_agrees_with_router [OF e _ ascii] e by (simp add: header_get_def)
qed

definition example_sample_files :: sample_files where
  "example_sample_files = \<lparr> sf_read = (\<lambda>_. Inl ''not found''), sf_json_tree = (\<lambda>_. Inl ''bad''),
     sf_yaml_tree = (\<lambda>_. Inl ''bad''), sf_decode_error = (\<lambda>_. ''bad value'') \<rparr>"

theorem route_explain_reports_winner_witness:
  "\<exists>j. route_explain (routes_world example_routes) example_ext example_sample_files id ''c'' ''/api/x'' ''GET'' [] None True False =
     Inr (0, [JsonOut j])"
proof -
  let ?snap = "\<lparr> rules = [example_compiled ''api'' ''/api'' 10, example_compiled ''all'' ''/'' 20] \<rparr>"
  have req: "explain_request example_sample_files ''/api/x'' ''GET'' [] None = Inr (''/api/x'', ''GET'', [])"
    by (simp add: explain_request_def)
  have "\<exists>r\<in>set (routes example_routes). accepts example_ext r ''/api/x'' ''GET'' []"
    using example_routes_resolve no_match_iff [OF example_routes_compile, of "''/api/x''" "''GET''" "[]"] by auto
  then show ?thesis
    using route_explain_reports_winner [OF req load_example_routes example_routes_compile, of "[]" id "''c''" False]
    by auto
qed

theorem remediation_outline_bound_witness:
  "length (merge_remediation_outline (map (diagnostic example_ext ''c'' ''/x'' ''GET'' [])
     [example_compiled ''api'' ''/api'' 10, example_compiled ''v2'' ''/v2'' 20])) \<le> 5"
  using remediation_outline_bound [OF refl] by blast

end
