(* ===== verification/Commands.thy ===== *)
theory Commands
  imports Explain StrictCheck
begin

text \<open>
  The commands of \<^verbatim>\<open>main.rs\<close> that work on whole configurations:
  \<^verbatim>\<open>check-config\<close>, \<^verbatim>\<open>config-diff\<close>,
  \<^verbatim>\<open>config-drift\<close>, \<^verbatim>\<open>config-snapshot\<close>, and the two that
  start a proxy of their own and send it requests, \<^verbatim>\<open>smoke-proxy\<close> and
  \<^verbatim>\<open>replay\<close>.  What the HTTP client makes of a request and of a redirection is a
  parameter.
\<close>

section \<open>check-config\<close>

definition finding_json :: "strict_finding \<Rightarrow> json" where
  "finding_json f = JObj ([(''code'', JStr (sf_code f))] @ field_opt ''details'' id (sf_details f)
     @ [(''message'', JStr (sf_message f))])"

definition show_len :: "'a list \<Rightarrow> string" where
  "show_len l = show_nat (length l)"

definition json_len :: "'a list \<Rightarrow> json" where
  "json_len l = JInt (int (length l))"

definition routes_error :: "config_error \<Rightarrow> string" where
  "routes_error e = ''Failed to compile routing rules: '' @ show_config_error e"

definition check_config ::
  "world \<Rightarrow> ext \<Rightarrow> registry_ext \<Rightarrow> string list \<Rightarrow> string \<Rightarrow> bool \<Rightarrow> bool \<Rightarrow> command_result" where
  "check_config w x rx id_order config_path as_json strict =
     res_bind (map_err (failed_to_load config_path) (load_config w x config_path)) (\<lambda>config.
     res_bind (map_err routes_error (from_config x config)) (\<lambda>snap.
     res_bind (map_err show_registry_error (build_resolver rx config)) (\<lambda>resolver.
       let strict_findings = (if strict then run_strict_config_checks id_order config else []);
           strict_passed = (strict_findings = []);
           resolver_empty = resolver_is_empty resolver;
           summary = JObj [(''config_path'', JStr config_path),
             (''registries'', json_len (sources (registries config))), (''resolver_empty'', JBool resolver_empty),
             (''routes'', json_len (routes config)), (''status'', JStr ''ok''), (''strict_enabled'', JBool strict),
             (''strict_findings'', JArr (map finding_json strict_findings)), (''strict_passed'', JBool strict_passed)]
       in if as_json then Inr (if strict \<and> \<not> strict_passed then 1 else 0, [JsonOut summary])
          else
            (let head = (if resolver_empty
               then Line (''check-config OK: no registries configured, direct upstream routes only ('' @ config_path @ '')'')
               else Line (''check-config OK: '' @ show_len (sources (registries config)) @ '' registries configured, ''
                      @ show_len (routes config) @ '' routes compiled ('' @ config_path @ '')''))
             in if strict then
                  (if strict_passed then Inr (0, [head, Line ''strict-check OK: no findings''])
                   else Inr (1, [head, Line ''strict-check FAIL:'']
                               @ map (\<lambda>f. Line ('' - '' @ sf_message f)) strict_findings))
                else Inr (0, [head])))))"

section \<open>config-diff, config-drift and config-snapshot\<close>

definition change_json :: "diff_change \<Rightarrow> json" where
  "change_json c = JObj ([(''kind'', JStr (dc_kind c))] @ field_opt ''left'' id (dc_left c)
     @ [(''path'', JStr (dc_path c))] @ field_opt ''right'' id (dc_right c))"

definition report_json :: "diff_report \<Rightarrow> json" where
  "report_json r = JObj [(''diagnostic_version'', JStr ''1.0''), (''left_path'', JStr (dr_left_path r)),
     (''right_path'', JStr (dr_right_path r)), (''identical'', JBool (dr_identical r)),
     (''changes'', JArr (map change_json (dr_changes r)))]"

definition load_named :: "string \<Rightarrow> world \<Rightarrow> ext \<Rightarrow> string \<Rightarrow> string + app_config" where
  "load_named what w x p =
     map_err (\<lambda>e. ''Failed to load '' @ what @ '' config from '' @ p @ '': '' @ show_config_error e) (load_config w x p)"

definition config_diff ::
  "world \<Rightarrow> ext \<Rightarrow> (string \<Rightarrow> string list \<Rightarrow> string list) \<Rightarrow> string \<Rightarrow> string \<Rightarrow> bool \<Rightarrow> bool \<Rightarrow> command_result" where
  "config_diff w x ord left_path right_path as_json markdown =
     (if as_json \<and> markdown then Inl ''use either --json or --markdown, not both''
      else
        res_bind (load_named ''left'' w x left_path) (\<lambda>left.
        res_bind (load_named ''right'' w x right_path) (\<lambda>right.
          let report = diff_app_configs ord left right left_path right_path
          in Inr (if dr_identical report then 0 else 1,
                  [if as_json then JsonOut (report_json report)
                   else if markdown then Line (format_markdown report)
                   else Raw (format_text report)]))))"

fun drift_profiles_loop ::
  "world \<Rightarrow> ext \<Rightarrow> (string \<Rightarrow> string list \<Rightarrow> string list) \<Rightarrow> app_config \<Rightarrow> string \<Rightarrow> bool \<Rightarrow> string list
    \<Rightarrow> bool \<times> json list \<times> printed list \<Rightarrow> string + bool \<times> json list \<times> printed list" where
  "drift_profiles_loop w x ord base base_path as_json [] acc = Inr acc"
| "drift_profiles_loop w x ord base base_path as_json (p # ps) (all_identical, results, out) =
     res_bind (load_named ''profile'' w x p) (\<lambda>profile.
       let report = diff_app_configs ord base profile base_path p;
           all_identical' = (if dr_identical report then all_identical else False)
       in if as_json then
            drift_profiles_loop w x ord base base_path as_json ps
              (all_identical',
               results @ [JObj [(''changes'', JArr (map change_json (dr_changes report))),
                 (''drift_count'', json_len (dr_changes report)), (''identical'', JBool (dr_identical report)),
                 (''profile'', JStr p)]],
               out)
          else
            drift_profiles_loop w x ord base base_path as_json ps
              (all_identical', results,
               out @ [Line ((if dr_identical report then ''IDENTICAL'' else ''DRIFT'') @ '' '' @ p @ '' (''
                        @ show_len (dr_changes report) @ '' change(s) vs base)'')]
                   @ (if dr_identical report then []
                      else map (\<lambda>c. Line (''  - ['' @ dc_kind c @ ''] '' @ dc_path c)) (dr_changes report))))"

definition config_drift ::
  "world \<Rightarrow> ext \<Rightarrow> (string \<Rightarrow> string list \<Rightarrow> string list) \<Rightarrow> string \<Rightarrow> string list \<Rightarrow> bool \<Rightarrow> command_result" where
  "config_drift w x ord base_path profile_paths as_json =
     res_bind (load_named ''base'' w x base_path) (\<lambda>base.
     res_bind (drift_profiles_loop w x ord base base_path as_json profile_paths (True, [], []))
       (\<lambda>(all_identical, results, out).
       Inr (if all_identical then 0 else 1,
         if as_json then
           out @ [JsonOut (JObj [(''all_identical'', JBool all_identical), (''base'', JStr base_path),
                    (''diagnostic_version'', JStr ''1.0''), (''profiles'', JArr results)])]
         else
           out @ [Line (newline @ ''config-drift summary: '' @ show_len profile_paths @ '' profile(s) compared against '' @ base_path),
                  Line (if all_identical then ''Result: all profiles identical to base'' else ''Result: DRIFT detected'')])))"

text \<open>The text that is printed or written, \<open>pretty\<close> being
  \<^verbatim>\<open>serde_json::to_string_pretty\<close>; a file is the second component.\<close>

definition config_snapshot ::
  "world \<Rightarrow> ext \<Rightarrow> url_ext \<Rightarrow> string \<Rightarrow> (json \<Rightarrow> string) \<Rightarrow> (string \<Rightarrow> string option) \<Rightarrow> string \<Rightarrow> string option
    \<Rightarrow> string + nat \<times> printed list \<times> (string \<times> string) option" where
  "config_snapshot w x ux uuid pretty write_err config_path out_path =
     res_bind (map_err (failed_to_load config_path) (load_config w x config_path)) (\<lambda>config.
       let json = pretty (config_snapshot_json (build_config_snapshot_export ux uuid config config_path))
       in case out_path of
            Some p \<Rightarrow>
              if p \<noteq> ''-'' then (case write_err p of Some e \<Rightarrow> Inl e | None \<Rightarrow> Inr (0, [], Some (p, json @ newline)))
              else Inr (0, [Line json], None)
          | None \<Rightarrow> Inr (0, [Line json], None))"

section \<open>A proxy of the command's own\<close>

definition start_ephemeral_proxy :: "world \<Rightarrow> ext \<Rightarrow> startup_ext \<Rightarrow> string \<Rightarrow> string + app_state" where
  "start_ephemeral_proxy w x u config_path =
     res_bind (map_err (failed_to_load config_path) (load_config w x config_path)) (\<lambda>config.
     res_bind (map_err show_registry_error (build_resolver (su_registry u) config)) (\<lambda>resolver.
     res_bind (map_err routes_error (from_config x config)) (\<lambda>snap.
     case su_bind_error u ''127.0.0.1:0'' of
       Some e \<Rightarrow> Inl e
     | None \<Rightarrow> Inr (app_state_new snap resolver config default_metrics))))"

record client_request =
  cq_method :: string
  cq_url :: string
  cq_headers :: "(string \<times> string) list"
  cq_body :: "string option"

definition request_method :: "string \<Rightarrow> string" where
  "request_method method =
     (if method = ''POST'' then ''POST'' else if method = ''PUT'' then ''PUT''
      else if method = ''DELETE'' then ''DELETE'' else if method = ''PATCH'' then ''PATCH''
      else if method = ''HEAD'' then ''HEAD'' else ''GET'')"

definition build_reqwest_request ::
  "string \<Rightarrow> string \<Rightarrow> string \<Rightarrow> (string, string) hashmap \<Rightarrow> string option \<Rightarrow> client_request" where
  "build_reqwest_request url_base path method headers body =
     \<lparr> cq_method = request_method method, cq_url = url_base @ path, cq_headers = headers, cq_body = body \<rparr>"

text \<open>The HTTP client.  A request is not sent (the client's error), or another server answers it, or
  it arrives at the proxy.  An answer is the last one, or a redirection that the client
  follows, with its next request or its error; it follows only so many.  \<open>cl_closed\<close> is its
  error when the connection is closed because the handler panicked.\<close>

record client_ext =
  cl_deliver :: "client_request \<Rightarrow> string + (answer + request)"
  cl_redirect :: "client_request \<Rightarrow> answer \<Rightarrow> (string + client_request) option"
  cl_max_redirects :: nat
  cl_too_many :: string
  cl_closed :: string

definition answer_status :: "answer \<Rightarrow> nat option" where
  "answer_status a =
     (case a of
        Json (s, _) \<Rightarrow> Some s
      | Text (s, _) \<Rightarrow> Some s
      | MethodNotAllowed \<Rightarrow> Some 405
      | Proxied None \<Rightarrow> None
      | Proxied (Some (Inr r)) \<Rightarrow> Some (resp_status r)
      | Proxied (Some (Inl e)) \<Rightarrow> Some (fst (into_response e)))"

definition send_once ::
  "ext \<Rightarrow> client_ext \<Rightarrow> env \<Rightarrow> client_request \<Rightarrow> app_state \<Rightarrow> (string + nat \<times> answer) \<times> app_state" where
  "send_once x cl e cq st =
     (let (r, st') = (case cl_deliver cl cq of
          Inl err \<Rightarrow> (Inl err, st)
        | Inr (Inl a) \<Rightarrow> (Inr a, st)
        | Inr (Inr req) \<Rightarrow> (let (a, st') = serve x [] [] e req st in (Inr a, st')))
      in (case r of
            Inl err \<Rightarrow> Inl err
          | Inr a \<Rightarrow> (case answer_status a of None \<Rightarrow> Inl (cl_closed cl) | Some s \<Rightarrow> Inr (s, a)), st'))"

text \<open>A request and the redirections that the client follows, \<open>hops\<close> of them at most; \<open>e i\<close>
  is what the outside contributes when \<open>i\<close> of them are left.\<close>

fun send_hops ::
  "ext \<Rightarrow> client_ext \<Rightarrow> (nat \<Rightarrow> env) \<Rightarrow> nat \<Rightarrow> client_request \<Rightarrow> app_state \<Rightarrow> (string + nat) \<times> app_state" where
  "send_hops x cl e hops cq st =
     (let (r, st') = send_once x cl (e hops) cq st
      in case r of
           Inl err \<Rightarrow> (Inl err, st')
         | Inr (s, a) \<Rightarrow>
             (case cl_redirect cl cq a of
                None \<Rightarrow> (Inr s, st')
              | Some (Inl err) \<Rightarrow> (Inl err, st')
              | Some (Inr cq') \<Rightarrow>
                  (case hops of 0 \<Rightarrow> (Inl (cl_too_many cl), st') | Suc n \<Rightarrow> send_hops x cl e n cq' st')))"

declare send_hops.simps [simp del]

definition send_request ::
  "ext \<Rightarrow> client_ext \<Rightarrow> (nat \<Rightarrow> env) \<Rightarrow> client_request \<Rightarrow> app_state \<Rightarrow> (string + nat) \<times> app_state" where
  "send_request x cl e cq st = send_hops x cl e (cl_max_redirects cl) cq st"

definition smoke_proxy ::
  "world \<Rightarrow> ext \<Rightarrow> startup_ext \<Rightarrow> client_ext \<Rightarrow> (nat \<Rightarrow> env) \<Rightarrow> string \<Rightarrow> string \<Rightarrow> string \<Rightarrow> string \<Rightarrow> u16 \<Rightarrow> command_result" where
  "smoke_proxy w x u cl e local_addr config_path request_path method expect_status =
     res_bind (start_ephemeral_proxy w x u config_path) (\<lambda>st.
       let cq = build_reqwest_request (''http://'' @ local_addr) request_path method [] None
       in case fst (send_request x cl e cq st) of
            Inr status \<Rightarrow>
              (let line = Line (''smoke-proxy: '' @ method @ '' '' @ request_path @ '' -> '' @ show_nat status
                            @ '' (expected '' @ show_word expect_status @ '')'')
               in if status = unat expect_status then Inr (0, [line, Line ''PASS'']) else Inr (1, [line, Line ''FAIL'']))
          | Inl err \<Rightarrow> Inr (1, []))"

section \<open>replay\<close>

record replay_entry =
  re_path :: string
  re_method :: string
  re_headers :: "(string, string) hashmap"
  re_body :: "string option"
  re_expect_status :: "u16 option"

definition default_replay_method :: string where
  "default_replay_method = ''GET''"

definition entry_method :: "ext \<Rightarrow> replay_entry \<Rightarrow> string" where
  "entry_method x en = upper_with (char_upper x) (re_method en)"

definition entry_request :: "ext \<Rightarrow> string \<Rightarrow> replay_entry \<Rightarrow> client_request" where
  "entry_request x url_base en =
     build_reqwest_request url_base (re_path en) (entry_method x en) (re_headers en) (re_body en)"

definition entry_ok :: "replay_entry \<Rightarrow> nat \<Rightarrow> bool" where
  "entry_ok en status = (case re_expect_status en of None \<Rightarrow> True | Some s \<Rightarrow> unat s = status)"

definition entry_line :: "ext \<Rightarrow> nat \<Rightarrow> nat \<Rightarrow> replay_entry \<Rightarrow> string + nat \<Rightarrow> printed" where
  "entry_line x i total_n en res =
     (case res of
        Inr status \<Rightarrow>
          Line (''  ['' @ show_nat (i + 1) @ ''/'' @ show_nat total_n @ ''] '' @ (if entry_ok en status then ''PASS'' else ''FAIL'')
            @ '' '' @ entry_method x en @ '' '' @ re_path en @ '' -> '' @ show_nat status
            @ (case re_expect_status en of None \<Rightarrow> [] | Some s \<Rightarrow> '' (expected '' @ show_word s @ '')''))
      | Inl e \<Rightarrow>
          Line (''  ['' @ show_nat (i + 1) @ ''/'' @ show_nat total_n @ ''] FAIL '' @ entry_method x en @ '' ''
            @ re_path en @ '' -> error: '' @ e))"

text \<open>The loop over the entries, on the state of the proxy, the numbers of passed and failed
  entries and the lines printed; \<open>es i\<close> is what the outside contributes to request
  \<open>i\<close>.\<close>

fun replay_loop ::
  "ext \<Rightarrow> client_ext \<Rightarrow> (nat \<Rightarrow> nat \<Rightarrow> env) \<Rightarrow> string \<Rightarrow> nat \<Rightarrow> nat \<Rightarrow> replay_entry list
    \<Rightarrow> app_state \<times> nat \<times> nat \<times> printed list \<Rightarrow> app_state \<times> nat \<times> nat \<times> printed list" where
  "replay_loop x cl es url_base total_n i [] acc = acc"
| "replay_loop x cl es url_base total_n i (en # ens) (st, passed, failed, out) =
     (let (res, st') = send_request x cl (es i) (entry_request x url_base en) st;
          ok = (case res of Inr status \<Rightarrow> entry_ok en status | Inl _ \<Rightarrow> False);
          out' = out @ [entry_line x i total_n en res]
      in if ok then replay_loop x cl es url_base total_n (i + 1) ens (st', passed + 1, failed, out')
         else replay_loop x cl es url_base total_n (i + 1) ens (st', passed, failed + 1, out'))"

record replay_files =
  rf_read :: "string \<Rightarrow> string + string"
  rf_json_tree :: "string \<Rightarrow> string + json"
  rf_yaml_tree :: "string \<Rightarrow> string + json"
  rf_decode_error :: "json \<Rightarrow> string"

definition replay_entry_of_json :: "replay_entry decoder" where
  "replay_entry_of_json = of_struct [''path'', ''method'', ''headers'', ''body'', ''expect_status''] (\<lambda>m. do {
     p \<leftarrow> need of_str ''path'' m;
     mt \<leftarrow> with_default of_str default_replay_method ''method'' m;
     hs \<leftarrow> with_default (of_map of_str) [] ''headers'' m;
     b \<leftarrow> optional of_str ''body'' m;
     st \<leftarrow> optional of_word ''expect_status'' m;
     Some \<lparr> re_path = p, re_method = mt, re_headers = hs, re_body = b, re_expect_status = st \<rparr> })"

definition replay_file_of_json :: "replay_entry list decoder" where
  "replay_file_of_json = of_struct [''requests''] (need (of_list replay_entry_of_json) ''requests'')"

definition rf_json :: "replay_files \<Rightarrow> string \<Rightarrow> string + replay_entry list" where
  "rf_json f raw = decode_tree (rf_decode_error f) replay_file_of_json (rf_json_tree f raw)"

definition rf_yaml :: "replay_files \<Rightarrow> string \<Rightarrow> string + replay_entry list" where
  "rf_yaml f raw = decode_tree (rf_decode_error f) replay_file_of_json (rf_yaml_tree f raw)"

definition load_replay_file :: "replay_files \<Rightarrow> string \<Rightarrow> string + replay_entry list" where
  "load_replay_file f p =
     res_bind (map_err (\<lambda>e. ''read '' @ p @ '': '' @ e) (rf_read f p)) (\<lambda>raw.
     if is_json_file p then map_err (\<lambda>e. ''parse '' @ p @ '' as JSON: '' @ e) (rf_json f raw)
     else map_err (\<lambda>e. ''parse '' @ p @ '' as YAML: '' @ e) (rf_yaml f raw))"

definition replay ::
  "world \<Rightarrow> ext \<Rightarrow> startup_ext \<Rightarrow> client_ext \<Rightarrow> replay_files \<Rightarrow> (nat \<Rightarrow> nat \<Rightarrow> env) \<Rightarrow> string \<Rightarrow> string \<Rightarrow> string \<Rightarrow> command_result" where
  "replay w x u cl f es local_addr config_path replay_file =
     res_bind (load_replay_file f replay_file) (\<lambda>requests.
     if requests = [] then Inr (0, [Line (''replay: no requests in '' @ replay_file)])
     else
       res_bind (start_ephemeral_proxy w x u config_path) (\<lambda>st0.
         let total_n = length requests;
             (st, passed, failed, out) =
               replay_loop x cl es (''http://'' @ local_addr) total_n 0 requests (st0, 0, 0, [])
         in Inr (if failed > 0 then 1 else 0,
                 out @ [Line (newline @ ''replay summary: '' @ show_nat passed @ ''/'' @ show_nat total_n @ '' passed, ''
                          @ show_nat failed @ '' failed'')])))"

section \<open>What the exit codes say\<close>

lemma map_err_Inr [simp]: "map_err f r = Inr y \<longleftrightarrow> r = Inr y"
  by (cases r) (simp_all add: map_err_def)

lemma map_err_simps [simp]: "map_err f (Inr y) = Inr y" "map_err f (Inl e) = Inl (f e)"
  by (simp_all add: map_err_def)

lemma res_bind_Inr_id [simp]: "res_bind r Inr = r"
  by (cases r) simp_all

lemma drift_loop:
  "drift_profiles_loop w x ord base bp j ps (ai, rs, out) = Inr (ai', rs', out') \<Longrightarrow>
     (ai' \<longleftrightarrow> ai \<and> (\<forall>p\<in>set ps. \<exists>cfg. load_config w x p = Inr cfg \<and> dr_identical (diff_app_configs ord base cfg bp p)))"
proof (induction ps arbitrary: ai rs out)
  case Nil
  then show ?case by simp
next
  case (Cons p ps)
  then obtain cfg where "load_config w x p = Inr cfg"
    by (auto simp: res_bind_Inr_iff load_named_def)
  with Cons show ?case
    by (auto simp: Let_def load_named_def split: if_splits)
qed

text \<open>C38. \<^verbatim>\<open>config-drift\<close> ends with exit code 0 exactly when every profile is the
  same configuration as the base (in the sense of the comparison), whatever the output
  format and the order in which sets are iterated.\<close>

theorem config_drift_exit:
  assumes "config_drift w x ord bp ps as_json = Inr (code, out)" and "order_ok ord"
  shows "code = 0 \<longleftrightarrow> (\<exists>base. load_config w x bp = Inr base \<and>
    (\<forall>p\<in>set ps. \<exists>cfg. load_config w x p = Inr cfg \<and> same_config base cfg))"
proof -
  obtain base ai rs out' where base: "load_config w x bp = Inr base"
    and loop: "drift_profiles_loop w x ord base bp as_json ps (True, [], []) = Inr (ai, rs, out')"
    and code: "code = (if ai then 0 else 1)"
    using assms(1) by (auto simp: config_drift_def res_bind_Inr_iff load_named_def split: if_splits)
  have "code = 0 \<longleftrightarrow> (\<forall>p\<in>set ps. \<exists>cfg. load_config w x p = Inr cfg \<and> dr_identical (diff_app_configs ord base cfg bp p))"
    using drift_loop [OF loop] code by simp
  also have "\<dots> \<longleftrightarrow> (\<forall>p\<in>set ps. \<exists>cfg. load_config w x p = Inr cfg \<and> same_config base cfg)"
  proof (intro ball_cong refl ex_cong conj_cong)
    fix p cfg
    assume "p \<in> set ps" "load_config w x p = Inr cfg"
    with base show "dr_identical (diff_app_configs ord base cfg bp p) \<longleftrightarrow> same_config base cfg"
      by (intro identical_same_config [OF assms(2)]) (auto dest: loaded_decoded(2))
  qed
  finally show ?thesis using base by simp
qed

text \<open>A configuration that \<^verbatim>\<open>check-config\<close> accepts can be served: under the same
  circumstances \<^verbatim>\<open>run\<close> without overrides starts with it, unless the file cannot
  be watched or the address cannot be bound; and what \<^verbatim>\<open>run\<close> serves,
  \<^verbatim>\<open>check-config\<close> accepts.\<close>

theorem check_config_predicts_run:
  assumes "\<forall>d. su_watch_error u d = None" and "\<forall>a. su_bind_error u a = None"
  shows "(\<exists>out. check_config w x (su_registry u) id_order p as_json False = Inr (0, out)) \<longleftrightarrow>
    (\<exists>s. run_server w x u p None = Serving s)"
proof -
  have "\<exists>out. check_config w x (su_registry u) id_order p as_json False = Inr (0, out)"
    if "load_config w x p = Inr cfg" "from_config x cfg = Inr snap" "build_resolver (su_registry u) cfg = Inr res"
    for cfg snap res
    by (simp add: check_config_def that Let_def)
  then have "(\<exists>out. check_config w x (su_registry u) id_order p as_json False = Inr (0, out)) \<longleftrightarrow>
      (\<exists>cfg snap res. load_config w x p = Inr cfg \<and> from_config x cfg = Inr snap \<and> build_resolver (su_registry u) cfg = Inr res)"
    by (fastforce simp: check_config_def res_bind_Inr_iff)
  moreover have "(\<exists>s. run_server w x u p None = Serving s) \<longleftrightarrow>
      (\<exists>cfg snap res. load_config w x p = Inr cfg \<and> from_config x cfg = Inr snap \<and> build_resolver (su_registry u) cfg = Inr res)"
  proof -
    have "\<exists>ps. build_plugin_chain x cs = Inr ps" for cs
      unfolding build_plugin_chain_def using load_plugins_total by blast
    then show ?thesis
      using assms by (auto simp: run_server_def load_with_overrides_def Let_def split: sum.split prod.split) (metis Inl_Inr_False surj_pair)+
  qed
  ultimately show ?thesis by blast
qed

text \<open>The proxy of \<^verbatim>\<open>smoke-proxy\<close> and \<^verbatim>\<open>replay\<close> is the one that
  \<^verbatim>\<open>run\<close> would start from the same file, if that does not change meanwhile, without
  its plugins: the states differ at most in the plugin chain, which is empty in the former.\<close>

theorem ephemeral_proxy_without_plugins:
  assumes "start_ephemeral_proxy w x u p = Inr st" and "run_server w x u p None = Serving s"
    and "su_early u = []"
  shows "st = (sv_state s)\<lparr> st_plugins := [] \<rparr>"
  using assms
  by (auto simp: start_ephemeral_proxy_def run_server_def load_with_overrides_def res_bind_Inr_iff
      app_state_new_def split: sum.splits option.splits)

text \<open>An entry has what it asks for: a response, with the expected status if it names one.\<close>

definition as_expected :: "replay_entry \<times> (string + nat) \<Rightarrow> bool" where
  "as_expected oc = (case oc of (en, res) \<Rightarrow>
     (\<exists>status. res = Inr status \<and> (\<forall>s. re_expect_status en = Some s \<longrightarrow> unat s = status)))"

text \<open>The loop sends each entry once, in order, each to the state that the one before has left.\<close>

definition sent_in_turn ::
  "ext \<Rightarrow> client_ext \<Rightarrow> (nat \<Rightarrow> nat \<Rightarrow> env) \<Rightarrow> string \<Rightarrow> nat \<Rightarrow> replay_entry list \<Rightarrow> app_state list \<Rightarrow> (string + nat) list \<Rightarrow> bool" where
  "sent_in_turn x cl es b i ens sts res =
     (length sts = Suc (length ens) \<and> length res = length ens \<and>
      (\<forall>j<length ens. send_request x cl (es (i + j)) (entry_request x b (ens ! j)) (sts ! j) = (res ! j, sts ! Suc j)))"

lemma sent_in_turn_Cons:
  "send_request x cl (es i) (entry_request x b en) st = (r, st') \<Longrightarrow> sent_in_turn x cl es b (Suc i) ens sts res \<Longrightarrow> sts ! 0 = st' \<Longrightarrow>
     sent_in_turn x cl es b i (en # ens) (st # sts) (r # res)"
  by (auto simp: sent_in_turn_def less_Suc_eq_0_disj)

lemma replay_loop_run:
  "\<exists>sts res. sts ! 0 = st \<and> sent_in_turn x cl es b i ens sts res \<and>
     replay_loop x cl es b n i ens (st, passed, failed, out) =
       (last sts, passed + length (filter as_expected (zip ens res)),
        failed + length (filter (\<lambda>oc. \<not> as_expected oc) (zip ens res)),
        out @ map (\<lambda>(j, en, r). entry_line x j n en r) (zip [i..<i + length ens] (zip ens res)))"
proof (induction ens arbitrary: i st passed failed out)
  case Nil
  show ?case
    by (intro exI [of _ "[st]"] exI [of _ "[]"]) (simp add: sent_in_turn_def)
next
  case (Cons en ens)
  obtain r st' where send: "send_request x cl (es i) (entry_request x b en) st = (r, st')" by force
  have ok: "(case r of Inr status \<Rightarrow> entry_ok en status | Inl _ \<Rightarrow> False) = as_expected (en, r)"
    by (auto simp: as_expected_def entry_ok_def split: sum.split option.split)
  let ?p = "if as_expected (en, r) then passed + 1 else passed" and ?f = "if as_expected (en, r) then failed else failed + 1"
  from Cons.IH [of st' "Suc i" ?p ?f "out @ [entry_line x i n en r]"] obtain sts res
    where rec: "sts ! 0 = st'" "sent_in_turn x cl es b (Suc i) ens sts res"
      "replay_loop x cl es b n (Suc i) ens (st', ?p, ?f, out @ [entry_line x i n en r]) =
       (last sts, ?p + length (filter as_expected (zip ens res)), ?f + length (filter (\<lambda>oc. \<not> as_expected oc) (zip ens res)),
        (out @ [entry_line x i n en r]) @ map (\<lambda>(j, en, r). entry_line x j n en r) (zip [Suc i..<Suc i + length ens] (zip ens res)))"
    by blast
  then have "sts \<noteq> []"
    by (auto simp: sent_in_turn_def)
  moreover have "[i..<i + length (en # ens)] = i # [Suc i..<Suc i + length ens]"
    by (simp add: upt_rec)
  ultimately show ?case
    using send rec ok sent_in_turn_Cons [OF send rec(2,1)]
    by (intro exI [of _ "st # sts"] exI [of _ "r # res"]) (auto simp: Let_def)
qed


section \<open>Examples\<close>

lemma same_config_default: "same_config default_app_config default_app_config"
  by (simp add: same_config_def default_app_config_def last_rule_def)

theorem config_drift_exit_witness:
  "\<exists>out. config_drift (routes_world default_app_config) example_ext as_listed ''a'' [''b''] True = Inr (0, out)"
proof -
  obtain code out where run: "config_drift (routes_world default_app_config) example_ext as_listed ''a'' [''b''] True = Inr (code, out)"
    by (simp add: config_drift_def load_named_def load_default Let_def split: if_splits)
  from config_drift_exit [OF run order_as_listed] have "code = 0"
    by (simp add: load_default same_config_default)
  with run show ?thesis by blast
qed

lemma build_resolver_default: "build_resolver rx default_app_config = Inr (resolver_new [] Priority)"
  by (simp add: build_resolver_none default_app_config_def)

theorem check_config_predicts_run_witness:
  "\<exists>s. run_server (routes_world default_app_config) example_ext example_startup ''c'' None = Serving s"
proof -
  have "\<exists>out. check_config (routes_world default_app_config) example_ext (su_registry example_startup) [] ''c'' True False = Inr (0, out)"
    by (simp add: check_config_def load_default compile_default build_resolver_default)
  then show ?thesis
    using check_config_predicts_run [where u = example_startup and w = "routes_world default_app_config"
        and x = example_ext and p = "''c''"]
    by (simp add: example_startup_def)
qed

lemma example_ephemeral:
  "start_ephemeral_proxy (routes_world default_app_config) example_ext example_startup ''c'' =
     Inr (app_state_new \<lparr> rules = [] \<rparr> (resolver_new [] Priority) default_app_config default_metrics)"
  by (simp add: start_ephemeral_proxy_def load_default compile_default build_resolver_default example_startup_def)

lemma default_plugins: "plugins (server default_app_config) = []"
  by (simp add: default_app_config_def default_server_config_def)

lemma example_run_default:
  "\<exists>s. run_server (routes_world default_app_config) example_ext example_startup ''c'' None = Serving s"
  by (simp add: run_server_def load_with_overrides_def load_default compile_default build_resolver_default
      example_startup_def Let_def build_plugin_chain_def sort_entries_def default_plugins)

theorem ephemeral_proxy_without_plugins_witness:
  "\<exists>s. run_server (routes_world default_app_config) example_ext example_startup ''c'' None = Serving s \<and>
     app_state_new \<lparr> rules = [] \<rparr> (resolver_new [] Priority) default_app_config default_metrics = (sv_state s)\<lparr> st_plugins := [] \<rparr>"
proof -
  have "su_early example_startup = []"
    by (simp add: example_startup_def)
  with example_run_default ephemeral_proxy_without_plugins [OF example_ephemeral] show ?thesis by blast
qed

definition example_replay :: json where
  "example_replay = JObj [(''requests'', JArr [JObj [(''expect_status'', JInt 200), (''method'', JStr ''get''), (''path'', JStr ''/'')]])]"

definition example_entry :: replay_entry where
  "example_entry = \<lparr> re_path = ''/'', re_method = ''get'', re_headers = [], re_body = None, re_expect_status = Some 200 \<rparr>"

definition example_client :: client_ext where
  "example_client = \<lparr> cl_deliver = (\<lambda>_. Inl ''refused''), cl_redirect = (\<lambda>_ _. None), cl_max_redirects = 10,
     cl_too_many = ''too many redirects'', cl_closed = ''closed'' \<rparr>"


end
