(* ===== verification/Doctor.thy ===== *)
theory Doctor
  imports Commands
begin

text \<open>
  \<^verbatim>\<open>doctor\<close> of \<^verbatim>\<open>main.rs\<close>: checks of the configuration file, the listen
  address and the registries, and with \<^verbatim>\<open>--probe-upstream\<close> connections to the
  registries and to the targets of the routes.  The existence of the file, URL parsing and
  the outcome of a connection within two seconds are parameters.
\<close>

section \<open>Host and port of an address\<close>

record target_url =
  tu_host :: "string option"      \<comment> \<open>\<^verbatim>\<open>host_str\<close>\<close>
  tu_port :: "u16 option"         \<comment> \<open>\<^verbatim>\<open>port_or_known_default\<close>\<close>

record doctor_ext =
  dx_exists :: "string \<Rightarrow> bool"
  dx_parse_url :: "string \<Rightarrow> string + target_url"
  dx_connects :: "string \<Rightarrow> bool"

text \<open>\<^verbatim>\<open>{:?}\<close> of a text: the ASCII escapes of Rust.\<close>

fun hex_digit :: "nat \<Rightarrow> char" where
  "hex_digit n = (if n < 10 then digit_char n else char_of (87 + n))"

definition debug_char :: "char \<Rightarrow> string" where
  "debug_char c =
     (let n = (of_char c :: nat); bs = CHR 0x5C in
      if n = 34 \<or> n = 92 then [bs, c]
      else if n = 0 then [bs, CHR ''0'']
      else if n = 9 then [bs, CHR ''t'']
      else if n = 10 then [bs, CHR ''n'']
      else if n = 13 then [bs, CHR ''r'']
      else if n < 16 then [bs, CHR ''u'', CHR 0x7B, hex_digit n, CHR 0x7D]
      else if n < 32 \<or> n = 127 then [bs, CHR ''u'', CHR 0x7B, hex_digit (n div 16), hex_digit (n mod 16), CHR 0x7D]
      else [c])"

definition debug_text :: "string \<Rightarrow> string" where
  "debug_text s = [CHR 0x22] @ concat (map debug_char s) @ [CHR 0x22]"

text \<open>\<^verbatim>\<open>str::parse::<u16>\<close> with the texts of its errors.\<close>

fun u16_digits :: "nat \<Rightarrow> string \<Rightarrow> string + u16" where
  "u16_digits n [] = Inr (of_nat n)"
| "u16_digits n (c # s) =
     (case digit_val c of
        None \<Rightarrow> Inl ''invalid digit found in string''
      | Some d \<Rightarrow> if 10 * n + d < 2 ^ 16 then u16_digits (10 * n + d) s
                  else Inl ''number too large to fit in target type'')"

definition parse_u16 :: "string \<Rightarrow> string + u16" where
  "parse_u16 s =
     (case s of
        [] \<Rightarrow> Inl ''cannot parse integer from empty string''
      | c # r \<Rightarrow> if c = CHR ''+'' \<and> r \<noteq> [] then u16_digits 0 r else u16_digits 0 s)"

definition parse_host_port_from_url :: "doctor_ext \<Rightarrow> string \<Rightarrow> string + string \<times> u16" where
  "parse_host_port_from_url d url =
     res_bind (map_err (\<lambda>e. ''invalid URL '' @ [CHR 0x27] @ url @ [CHR 0x27] @ '': '' @ e) (dx_parse_url d url)) (\<lambda>parsed.
     case tu_host parsed of
       None \<Rightarrow> Inl (''missing host in URL '' @ [CHR 0x27] @ url @ [CHR 0x27])
     | Some h \<Rightarrow>
         (case tu_port parsed of
            None \<Rightarrow> Inl (''missing port and scheme default for '' @ [CHR 0x27] @ url @ [CHR 0x27])
          | Some p \<Rightarrow> Inr (h, p)))"

definition parse_host_port_for_probe :: "doctor_ext \<Rightarrow> string \<Rightarrow> string + string \<times> u16" where
  "parse_host_port_for_probe d addr_or_url =
     (let t = trim addr_or_url in
      if contains_str t ''://'' then parse_host_port_from_url d t
      else case rsplit_once CHR '':'' t of
             None \<Rightarrow> Inl (''expected host:port, got '' @ debug_text t)
           | Some (before, after) \<Rightarrow>
               (let h = trim before in
                if h = [] then Inl (''empty host in '' @ debug_text t)
                else res_bind (map_err (\<lambda>e. ''invalid port in '' @ debug_text t @ '': '' @ e) (parse_u16 after))
                       (\<lambda>p. Inr (h, p))))"

definition probe_tcp :: "doctor_ext \<Rightarrow> string \<Rightarrow> u16 \<Rightarrow> bool" where
  "probe_tcp d h p = dx_connects d (host_port h p)"

section \<open>The probes\<close>

fun health_line :: "u32 \<times> string \<times> registry_health \<Rightarrow> printed" where
  "health_line (p, k, Healthy) = Line (''   - ['' @ show_word p @ ''] '' @ k @ '': healthy'')"
| "health_line (p, k, Degraded msg) = Line (''   - ['' @ show_word p @ ''] '' @ k @ '': degraded ('' @ msg @ '')'')"
| "health_line (p, k, Unhealthy msg) = Line (''   - ['' @ show_word p @ ''] '' @ k @ '': unhealthy ('' @ msg @ '')'')"

text \<open>Kind, priority and address of a source that is probed.\<close>

fun probe_source :: "registry_config \<Rightarrow> (string \<times> u32 \<times> string) option" where
  "probe_source (Nacos c) = Some (''Nacos'', nc_priority c, nc_server_addr c)"
| "probe_source (Eureka c) = Some (''Eureka'', ec_priority c, ec_server_url c)"
| "probe_source (Kubernetes c) = Some (''Kubernetes'', kc_priority c, kc_api_server_url c)"
| "probe_source (Mock c) = None"

text \<open>One source: whether the probe failed, its JSON entry and its line.\<close>

definition endpoint_probe :: "doctor_ext \<Rightarrow> string \<Rightarrow> u32 \<Rightarrow> string \<Rightarrow> bool \<times> json \<times> printed" where
  "endpoint_probe d k prio configured =
     (case parse_host_port_for_probe d configured of
        Inr (h, p) \<Rightarrow>
          (let reachable = probe_tcp d h p;
               head = ''   - ['' @ show_word prio @ ''] '' @ k @ '' '' @ configured @ '' ('' @ host_port h p @ '')''
           in (\<not> reachable,
               JObj ([(''configured'', JStr configured)]
                 @ (if reachable then [] else [(''failure_code'', JStr ''TCP_UNREACHABLE'')])
                 @ [(''host'', JStr h), (''kind'', JStr k), (''port'', json_word p), (''priority'', json_word prio),
                    (''reachable'', JBool reachable)]
                 @ (if reachable then []
                    else [(''reason'', JStr (''TCP connect to '' @ host_port h p @ '' failed or timed out (2s)''))])),
               Line (if reachable then head @ '': reachable'' else head @ '': unreachable (TCP_UNREACHABLE)'')))
      | Inl e \<Rightarrow>
          (True,
           JObj [(''failure_code'', JStr ''ENDPOINT_PARSE_ERROR''), (''kind'', JStr k), (''priority'', json_word prio),
             (''reachable'', JBool False), (''reason'', JStr e)],
           Line (''   - ['' @ show_word prio @ ''] '' @ k @ '' endpoint parse failed: '' @ e @ '' (ENDPOINT_PARSE_ERROR)'')))"

text \<open>The loop over the sources, on the number of failures, the entries and the lines.\<close>

type_synonym probe_acc = "nat \<times> json list \<times> printed list"

fun endpoint_loop :: "doctor_ext \<Rightarrow> registry_config list \<Rightarrow> probe_acc \<Rightarrow> probe_acc" where
  "endpoint_loop d [] acc = acc"
| "endpoint_loop d (src # srcs) (n, rows, out) =
     (case probe_source src of
        None \<Rightarrow> endpoint_loop d srcs (n, rows, out)
      | Some (k, prio, configured) \<Rightarrow>
          (let (failed, entry, line) = endpoint_probe d k prio configured
           in endpoint_loop d srcs (if failed then n + 1 else n, rows @ [entry], out @ [line])))"

definition direct_probe :: "doctor_ext \<Rightarrow> string \<Rightarrow> string \<Rightarrow> bool \<times> json \<times> printed" where
  "direct_probe d rid url =
     (case parse_host_port_from_url d url of
        Inr (h, p) \<Rightarrow>
          (let reachable = probe_tcp d h p
           in (\<not> reachable,
               JObj ((if reachable then [] else [(''failure_code'', JStr ''TCP_UNREACHABLE'')])
                 @ [(''host'', JStr h), (''port'', json_word p), (''reachable'', JBool reachable),
                    (''route_id'', JStr rid), (''target_type'', JStr ''upstream_url'')]),
               Line (''   - route '' @ rid @ '' direct '' @ host_port h p @ (if reachable then '' reachable'' else '' unreachable''))))
      | Inl e \<Rightarrow>
          (True,
           JObj [(''error'', JStr e), (''failure_code'', JStr ''ENDPOINT_PARSE_ERROR''), (''reachable'', JBool False),
             (''route_id'', JStr rid), (''target_type'', JStr ''upstream_url'')],
           Line (''   - route '' @ rid @ '' direct URL parse failed: '' @ e)))"

definition service_failure :: "string \<Rightarrow> string \<Rightarrow> string \<Rightarrow> string \<Rightarrow> json" where
  "service_failure rid svc code e =
     JObj [(''error'', JStr e), (''failure_code'', JStr code), (''reachable'', JBool False), (''route_id'', JStr rid),
       (''service_id'', JStr svc), (''target_type'', JStr ''service_id'')]"

definition service_probe ::
  "doctor_ext \<Rightarrow> multi_registry_resolver \<Rightarrow> string \<Rightarrow> string \<Rightarrow> bool \<times> json \<times> printed" where
  "service_probe d resolver rid svc =
     (let head = ''   - route '' @ rid @ '' service '' @ svc in
      case resolve_service resolver svc of
        Inr insts \<Rightarrow>
          if insts = [] then
            (True, service_failure rid svc ''no_instances'' ''resolved 0 instances'', Line (head @ '' resolved 0 instances''))
          else
            (let first_ok = find (\<lambda>i. probe_tcp d (si_host i) (si_port i)) (take 3 insts);
                 ok_any = (first_ok \<noteq> None)
             in (\<not> ok_any,
                 JObj ((if ok_any then [] else [(''failure_code'', JStr ''TCP_UNREACHABLE'')])
                   @ [(''reachable'', JBool ok_any), (''resolved_instances'', json_len insts), (''route_id'', JStr rid),
                      (''service_id'', JStr svc), (''target_type'', JStr ''service_id'')]),
                 (case first_ok of
                    Some i \<Rightarrow> Line (head @ '' instance '' @ instance_host_port i @ '' reachable'')
                  | None \<Rightarrow> Line (head @ '' unresolved reachable instances''))))
      | Inl e \<Rightarrow>
          (True, service_failure rid svc (failure_code_for_registry e) (show_registry_error e),
           Line (head @ '' resolve failed: '' @ show_registry_error e)))"

fun route_loop :: "doctor_ext \<Rightarrow> multi_registry_resolver \<Rightarrow> routing_rule list \<Rightarrow> probe_acc \<Rightarrow> probe_acc" where
  "route_loop d resolver [] acc = acc"
| "route_loop d resolver (route # rest) (n, rows, out) =
     (case (case rule_upstream_url route of
              Some url \<Rightarrow> Some (direct_probe d (rule_id route) url)
            | None \<Rightarrow> map_option (service_probe d resolver (rule_id route)) (rule_service_id route)) of
        None \<Rightarrow> route_loop d resolver rest (n, rows, out)
      | Some (failed, entry, line) \<Rightarrow>
          route_loop d resolver rest (if failed then n + 1 else n, rows @ [entry], out @ [line]))"

section \<open>The command\<close>

definition doctor_failure :: "string \<Rightarrow> string \<Rightarrow> json" where
  "doctor_failure config_path e =
     JObj [(''config_path'', JStr config_path), (''diagnostic_version'', JStr ''1.0''), (''error'', JStr e),
       (''status'', JStr ''fail'')]"

text \<open>Failures, entries of the endpoints and of the routes, and lines of the probes.\<close>

definition network_probe ::
  "doctor_ext \<Rightarrow> multi_registry_resolver \<Rightarrow> app_config \<Rightarrow> nat \<times> json list \<times> json list \<times> printed list" where
  "network_probe d resolver config =
     (let has_remote = list_ex (\<lambda>s. case s of Mock _ \<Rightarrow> False | _ \<Rightarrow> True) (sources (registries config));
          (n1, endpoints, out1) =
            (if has_remote then endpoint_loop d (sources (registries config)) (0, [], [Line '' - registry endpoint probe:''])
             else (0, [], [Line '' - registry endpoint probe: SKIP (mock registry only)'']));
          (n2, upstreams, out2) = route_loop d resolver (routes config) (n1, [], out1 @ [Line '' - upstream probe:''])
      in (n2, endpoints, upstreams,
          out2 @ [Line (if n2 > 0 then '' - network probe result: FAIL ('' @ show_nat n2
                          @ '' issue(s); registry endpoints + route upstreams)''
                        else '' - network probe result: PASS'')]))"

text \<open>The part of the command after the registries are built; \<open>out\<close> is what was printed.\<close>

definition doctor_report ::
  "doctor_ext \<Rightarrow> multi_registry_resolver \<Rightarrow> app_config \<Rightarrow> string \<Rightarrow> bool \<Rightarrow> bool \<Rightarrow> printed list \<Rightarrow> nat \<times> printed list" where
  "doctor_report d resolver config config_path probe_upstream as_json out =
     (let report = health_report resolver;
          unhealthy = list_ex (\<lambda>(_, _, h). is_unhealthy h) report;
          health_out = (if report = [] then [Line '' - registry health: SKIP (no registry configured)'']
                        else Line '' - registry health:'' # map health_line report);
          (probe_failures, endpoints, upstreams, probe_out) =
            (if probe_upstream then network_probe d resolver config else (0, [], [], []));
          has_unhealthy = (unhealthy \<or> probe_failures > 0)
      in (if has_unhealthy then 1 else 0,
          if as_json then
            [JsonOut (JObj [(''config_path'', JStr config_path), (''diagnostic_version'', JStr ''1.0''),
               (''probe_upstream_enabled'', JBool probe_upstream),
               (''registry_endpoint_probe'', JArr endpoints),
               (''registry_health'', JArr (map (\<lambda>(p, k, h). registry_health_json_row p k h) report)),
               (''status'', JStr (if has_unhealthy then ''fail'' else ''pass'')),
               (''upstream_probe'', JArr upstreams)])]
          else out @ health_out @ probe_out
                 @ [Line (if has_unhealthy then ''Doctor result: FAIL'' else ''Doctor result: PASS'')]))"

definition doctor ::
  "world \<Rightarrow> ext \<Rightarrow> startup_ext \<Rightarrow> doctor_ext \<Rightarrow> string \<Rightarrow> bool \<Rightarrow> bool \<Rightarrow> nat \<times> printed list" where
  "doctor w x u d config_path probe_upstream as_json =
     (let fail = (\<lambda>e out. (1, if as_json then [JsonOut (doctor_failure config_path e)] else out));
          out0 = [Line (''Doctor checks for '' @ config_path)] in
      if \<not> dx_exists d config_path then
        fail ''config file not found'' (out0 @ [Line '' - config file: FAIL (not found)''])
      else
        (let out1 = out0 @ [Line '' - config file: OK''] in
         case load_config w x config_path of
           Inl e \<Rightarrow> fail (''config parse failed: '' @ show_config_error e)
                      (out1 @ [Line ('' - config parse: FAIL ('' @ show_config_error e @ '')'')])
         | Inr config \<Rightarrow>
             (let out2 = out1 @ [Line '' - config parse: OK'']; addr = listen_addr (server config) in
              case su_bind_error u addr of
                Some e \<Rightarrow> fail (''listen addr unavailable: '' @ e)
                            (out2 @ [Line ('' - listen addr: FAIL ('' @ addr @ '' unavailable: '' @ e @ '')'')])
              | None \<Rightarrow>
                  (let out3 = out2 @ [Line ('' - listen addr: OK ('' @ addr @ '')'')] in
                   case build_resolver (su_registry u) config of
                     Inl e \<Rightarrow> fail (''registry init failed: '' @ show_registry_error e)
                                (out3 @ [Line ('' - registry init: FAIL ('' @ show_registry_error e @ '')''),
                                         Line ''Doctor result: FAIL''])
                   | Inr resolver \<Rightarrow>
                       doctor_report d resolver config config_path probe_upstream as_json
                         (out3 @ [Line '' - registry init: OK''])))))"

section \<open>Addresses\<close>

lemma u16_digits_spec:
  "n < 2 ^ 16 \<Longrightarrow> (u16_digits n s = Inr p \<longleftrightarrow> (\<exists>m < 2 ^ 16. parse_digits n s = Some m \<and> p = of_nat m))"
proof (induction s arbitrary: n)
  case Nil
  then show ?case by auto
next
  case (Cons c s)
  have grow: "m \<le> k" if "parse_digits m s = Some k" for m k
    using that by (induction s arbitrary: m) (fastforce split: option.splits)+
  show ?case
  proof (cases "digit_val c")
    case None
    then show ?thesis by simp
  next
    case (Some v)
    show ?thesis
    proof (cases "10 * n + v < 2 ^ 16")
      case True
      with Some Cons.IH show ?thesis by simp
    next
      case False
      with Some grow show ?thesis by fastforce
    qed
  qed
qed

lemma parse_u16_spec: "parse_u16 s = Inr p \<longleftrightarrow> parse_unsigned 16 s = Some (unat p)"
proof -
  have digits: "u16_digits 0 t = Inr p \<longleftrightarrow> (\<exists>m. parse_digits 0 t = Some m \<and> m < 2 ^ 16 \<and> m = unat p)" for t
  proof -
    have "m < 2 ^ 16 \<and> p = of_nat m \<longleftrightarrow> m < 2 ^ 16 \<and> m = unat p" for m
      by (auto simp: unsigned_of_nat take_bit_nat_eq_self)
    with u16_digits_spec [of 0 t p] show ?thesis
      by (metis zero_less_numeral zero_less_power)
  qed
  show ?thesis
  proof (cases s)
    case Nil
    then show ?thesis by (simp add: parse_u16_def parse_unsigned_def)
  next
    case (Cons c r)
    have plus: "digit_val CHR ''+'' = None"
      by code_simp
    define t where "t = (if c = CHR ''+'' \<and> r \<noteq> [] then r else s)"
    have "parse_u16 s = u16_digits 0 t"
      by (simp add: Cons parse_u16_def t_def)
    moreover have "parse_unsigned 16 s = (case parse_digits 0 t of None \<Rightarrow> None | Some n \<Rightarrow> if n < 2 ^ 16 then Some n else None)"
      using plus by (simp add: Cons parse_unsigned_def t_def)
    ultimately show ?thesis
      using digits [of t] by (auto split: option.split)
  qed
qed

lemma parse_u16_show [simp]: "parse_u16 (show_nat (unat p)) = Inr p"
proof -
  have "unat p < 2 ^ 16"
    using unsigned_less [of p] by simp
  then show ?thesis
    by (simp add: parse_u16_spec parse_unsigned_show_nat)
qed

lemma digits_end: "set (show_nat n) \<inter> {CHR '':'', CHR ''/''} = {}"
proof -
  have "c \<noteq> CHR '':'' \<and> c \<noteq> CHR ''/''" if "c \<in> set (show_nat n)" for c
  proof -
    from set_show_nat [OF that] obtain k where "k < 10" "c = digit_char k" by blast
    then have "(of_char c :: nat) = 48 + k"
      by (simp add: digit_char_def)
    with \<open>k < 10\<close> show ?thesis by auto
  qed
  then show ?thesis by blast
qed

lemma dropWhile_end: "xs \<noteq> [] \<Longrightarrow> \<not> P (last xs) \<Longrightarrow> rev (dropWhile P (rev xs)) = xs"
  by (cases xs rule: rev_cases) auto

lemma trim_host_port:
  assumes "trim h = h" and "h \<noteq> []"
  shows "trim (host_port h p) = host_port h p"
proof -
  have "\<not> is_space (hd h)"
  proof
    assume "is_space (hd h)"
    with assms(2) have "length (dropWhile is_space h) < length h"
      by (cases h) (auto simp: less_Suc_eq_le length_dropWhile_le)
    moreover have "length (trim h) \<le> length (dropWhile is_space h)"
      unfolding trim_def by (metis length_dropWhile_le length_rev)
    ultimately show False
      using assms(1) by simp
  qed
  then have "dropWhile is_space (host_port h p) = host_port h p"
    using assms(2) by (cases h) (auto simp: host_port_def)
  moreover have "\<not> is_space (last (host_port h p))"
  proof -
    have "last (host_port h p) \<in> set (show_nat (unat p))"
      by (simp add: host_port_def)
    then obtain k where "k < 10" "last (host_port h p) = digit_char k"
      using set_show_nat by blast
    then show ?thesis
      by (simp add: is_space_def digit_char_def)
  qed
  ultimately show ?thesis
    using dropWhile_end [of "host_port h p" is_space] by (simp add: trim_def host_port_def)
qed

lemma contains_scheme_host_port:
  assumes "\<not> contains_str h ''://''"
  shows "\<not> contains_str (host_port h p) ''://''"
proof
  let ?t = "CHR '':'' # show_nat (unat p)"
  assume "contains_str (host_port h p) ''://''"
  then obtain a b where "h @ ?t = (a @ ''://'') @ b"
    by (auto simp: contains_str_iff host_port_def)
  then consider us where "h = (a @ ''://'') @ us" | us where "h @ us = a @ ''://''" "?t = us @ b"
    unfolding append_eq_append_conv2 by blast
  then show False
  proof cases
    case 1
    with assms show False by (auto simp: contains_str_iff)
  next
    case (2 us)
    show False
    proof (cases us rule: rev_cases)
      case Nil
      with 2(1) have "h = a @ ''://'' @ []" by simp
      with assms show False unfolding contains_str_iff by blast
    next
      case (snoc vs c)
      with 2 have "c = CHR ''/''" "c \<in> set ?t" by (simp_all add: snoc)
      then show False
        using digits_end [of "unat p"] by auto
    qed
  qed
qed

text \<open>The address of an instance, as the server writes it into upstream URLs, is read back
  by the doctor as the same host and port.\<close>

theorem host_port_probe_roundtrip:
  assumes "trim h = h" and "h \<noteq> []" and "\<not> contains_str h ''://''"
  shows "parse_host_port_for_probe d (host_port h p) = Inr (h, p)"
proof -
  have "rsplit_once CHR '':'' (host_port h p) = Some (h, show_nat (unat p))"
    unfolding host_port_def using digits_end [of "unat p"]
    by (simp add: rsplit_once_append [where a = h and c = "CHR '':''", simplified])
  then show ?thesis
    using assms by (simp add: parse_host_port_for_probe_def trim_host_port contains_scheme_host_port Let_def)
qed

section \<open>The verdict\<close>

text \<open>What the probes of a source and of a route look for.\<close>

definition endpoint_ok :: "doctor_ext \<Rightarrow> registry_config \<Rightarrow> bool" where
  "endpoint_ok d src =
     (case probe_source src of
        None \<Rightarrow> True
      | Some (_, _, a) \<Rightarrow> \<exists>h p. parse_host_port_for_probe d a = Inr (h, p) \<and> dx_connects d (host_port h p))"

definition target_ok :: "doctor_ext \<Rightarrow> multi_registry_resolver \<Rightarrow> routing_rule \<Rightarrow> bool" where
  "target_ok d resolver route =
     (case rule_upstream_url route of
        Some url \<Rightarrow> \<exists>h p. parse_host_port_from_url d url = Inr (h, p) \<and> dx_connects d (host_port h p)
      | None \<Rightarrow>
          (case rule_service_id route of
             None \<Rightarrow> True
           | Some svc \<Rightarrow> \<exists>insts. resolve_service resolver svc = Inr insts \<and>
                                list_ex (\<lambda>i. dx_connects d (instance_host_port i)) (take 3 insts)))"

lemma endpoint_probe_failed:
  "fst (endpoint_probe d k prio a) \<longleftrightarrow>
     \<not> (\<exists>h p. parse_host_port_for_probe d a = Inr (h, p) \<and> dx_connects d (host_port h p))"
  by (auto simp: endpoint_probe_def probe_tcp_def Let_def split: sum.splits prod.splits)

lemma direct_probe_failed:
  "fst (direct_probe d rid url) \<longleftrightarrow>
     \<not> (\<exists>h p. parse_host_port_from_url d url = Inr (h, p) \<and> dx_connects d (host_port h p))"
  by (auto simp: direct_probe_def probe_tcp_def Let_def split: sum.splits prod.splits)

lemma find_list_ex: "find P xs \<noteq> None \<longleftrightarrow> list_ex P xs"
  by (auto simp: find_None_iff list_ex_iff)

lemma service_probe_failed:
  "fst (service_probe d resolver rid svc) \<longleftrightarrow>
     \<not> (\<exists>insts. resolve_service resolver svc = Inr insts \<and> list_ex (\<lambda>i. dx_connects d (instance_host_port i)) (take 3 insts))"
  by (cases "resolve_service resolver svc")
     (auto simp: service_probe_def probe_tcp_def instance_host_port_def Let_def simp flip: find_list_ex)

definition probe_of :: "doctor_ext \<Rightarrow> multi_registry_resolver \<Rightarrow> routing_rule \<Rightarrow> (bool \<times> json \<times> printed) option" where
  "probe_of d resolver route =
     (case rule_upstream_url route of
        Some url \<Rightarrow> Some (direct_probe d (rule_id route) url)
      | None \<Rightarrow> map_option (service_probe d resolver (rule_id route)) (rule_service_id route))"

lemma probe_of_failed: "(\<exists>e l. probe_of d resolver route = Some (True, e, l)) \<longleftrightarrow> \<not> target_ok d resolver route"
  using direct_probe_failed [of d "rule_id route"] service_probe_failed [of d resolver "rule_id route"]
  by (auto simp: probe_of_def target_ok_def prod_eq_iff split: option.split)

text \<open>The contract of the two loops: every probe that was made adds its entry and its line,
  and counts if it failed.\<close>

locale probing =
  fixes probe :: "'a \<Rightarrow> (bool \<times> json \<times> printed) option"
    and loop :: "'a list \<Rightarrow> probe_acc \<Rightarrow> probe_acc"
  assumes loop_Nil: "loop [] acc = acc"
    and loop_Cons: "loop (y # ys) (n, rows, out) =
      (case probe y of
         None \<Rightarrow> loop ys (n, rows, out)
       | Some (failed, entry, line) \<Rightarrow> loop ys (if failed then n + 1 else n, rows @ [entry], out @ [line]))"
begin

lemma loop_failures:
  "fst (loop ys (n, rows, out)) = n + length (filter (\<lambda>y. \<exists>entry line. probe y = Some (True, entry, line)) ys)"
proof (induction ys arbitrary: n rows out)
  case (Cons y ys)
  then show ?case by (cases "probe y") (auto simp: loop_Cons)
qed (simp add: loop_Nil)

end

definition probe_endpoint :: "doctor_ext \<Rightarrow> registry_config \<Rightarrow> (bool \<times> json \<times> printed) option" where
  "probe_endpoint d src = map_option (\<lambda>(k, prio, a). endpoint_probe d k prio a) (probe_source src)"

lemma probe_endpoint_failed: "(\<exists>e l. probe_endpoint d src = Some (True, e, l)) \<longleftrightarrow> \<not> endpoint_ok d src"
  using endpoint_probe_failed [of d]
  by (auto simp: probe_endpoint_def endpoint_ok_def prod_eq_iff split: option.split)

interpretation endpoints: probing "probe_endpoint d" "endpoint_loop d" for d
  by unfold_locales (auto simp: probe_endpoint_def split: option.split prod.split)

interpretation targets: probing "probe_of d resolver" "route_loop d resolver" for d resolver
  by unfold_locales (simp_all add: probe_of_def)

lemma network_probe_failures:
  "fst (network_probe d resolver cfg) =
     length (filter (\<lambda>s. \<not> endpoint_ok d s) (sources (registries cfg)))
       + length (filter (\<lambda>r. \<not> target_ok d resolver r) (routes cfg))"
proof -
  let ?remote = "list_ex (\<lambda>s. case s of Mock _ \<Rightarrow> False | _ \<Rightarrow> True) (sources (registries cfg))"
  define e where "e = (if ?remote then endpoint_loop d (sources (registries cfg)) (0, [], [Line '' - registry endpoint probe:''])
             else (0, [], [Line '' - registry endpoint probe: SKIP (mock registry only)'']))"
  obtain n1 rows out1 where e1: "e = (n1, rows, out1)" by (metis prod_cases3)
  have "n1 = length (filter (\<lambda>s. \<not> endpoint_ok d s) (sources (registries cfg)))"
  proof (cases ?remote)
    case True
    with e1 have "n1 = fst (endpoint_loop d (sources (registries cfg)) (0, [], [Line '' - registry endpoint probe:'']))"
      by (simp add: e_def)
    then show ?thesis by (simp add: endpoints.loop_failures probe_endpoint_failed)
  next
    case False
    then have "endpoint_ok d s" if "s \<in> set (sources (registries cfg))" for s
      using that by (cases s) (auto simp: endpoint_ok_def list_ex_iff)
    with False e1 show ?thesis by (simp add: e_def)
  qed
  moreover have "fst (network_probe d resolver cfg) = fst (route_loop d resolver (routes cfg) (n1, [], out1 @ [Line '' - upstream probe:'']))"
    by (simp add: network_probe_def e1 flip: e_def split: prod.split)
  ultimately show ?thesis
    by (simp add: targets.loop_failures probe_of_failed)
qed

lemma doctor_report_code:
  "fst (doctor_report d resolver cfg p probe as_json out) = 0 \<longleftrightarrow>
     (\<forall>reg\<in>set (map snd (res_registries resolver)). \<not> is_unhealthy (health reg)) \<and>
     (probe \<longrightarrow> (\<forall>src\<in>set (sources (registries cfg)). endpoint_ok d src) \<and>
                (\<forall>r\<in>set (routes cfg). target_ok d resolver r))"
proof -
  obtain n es us out' where n: "network_probe d resolver cfg = (n, es, us, out')" by (metis prod_cases4)
  have "n = 0 \<longleftrightarrow> (\<forall>src\<in>set (sources (registries cfg)). endpoint_ok d src) \<and> (\<forall>r\<in>set (routes cfg). target_ok d resolver r)"
    using network_probe_failures [of d resolver cfg] n by (auto simp: filter_empty_conv)
  moreover have "list_ex (\<lambda>(_, _, h). is_unhealthy h) (health_report resolver) \<longleftrightarrow>
      \<not> (\<forall>reg\<in>set (map snd (res_registries resolver)). \<not> is_unhealthy (health reg))"
    by (force simp: list_ex_iff health_report_def)
  ultimately show ?thesis
    by (auto simp: doctor_report_def n Let_def)
qed

text \<open>C27. The doctor ends with exit code 0 exactly when the file exists, the configuration
  loads, the listen address can be bound, the registries are built and none of them reports
  itself unhealthy and, if the network is probed, every registry accepts connections and every
  route has an upstream URL, or a service with one among its first three instances, that does.\<close>

theorem doctor_passes_iff:
  "fst (doctor w x u d p probe as_json) = 0 \<longleftrightarrow>
     dx_exists d p \<and>
     (\<exists>cfg resolver. load_config w x p = Inr cfg \<and> su_bind_error u (listen_addr (server cfg)) = None \<and>
        build_resolver (su_registry u) cfg = Inr resolver \<and>
        (\<forall>reg\<in>set (map snd (res_registries resolver)). \<not> is_unhealthy (health reg)) \<and>
        (probe \<longrightarrow> (\<forall>src\<in>set (sources (registries cfg)). endpoint_ok d src) \<and>
                   (\<forall>r\<in>set (routes cfg). target_ok d resolver r)))"
  unfolding doctor_def Let_def
  by (auto simp: doctor_report_code split: sum.split option.split)

text \<open>What the doctor vouches for: when it passes, even without probing the network, and the
  file can be watched, the server starts exactly if the routing rules compile, which the doctor
  does not check.\<close>

theorem doctor_pass_serves:
  assumes "doctor w x u d p probe as_json = (0, out)" and "su_watch_error u (watched_dir p) = None"
  shows "\<exists>cfg. load_config w x p = Inr cfg \<and>
     ((\<exists>s. run_server w x u p None = Serving s) \<longleftrightarrow> (\<exists>snap. from_config x cfg = Inr snap))"
proof -
  have "fst (doctor w x u d p probe as_json) = 0"
    using assms(1) by simp
  then obtain cfg resolver where ok: "load_config w x p = Inr cfg" "su_bind_error u (listen_addr (server cfg)) = None"
      "build_resolver (su_registry u) cfg = Inr resolver"
    unfolding doctor_def Let_def by (auto split: if_splits sum.splits option.splits)
  obtain chain where "build_plugin_chain x (plugins (server cfg)) = Inr chain"
    using load_plugins_total unfolding build_plugin_chain_def by blast
  with ok assms(2) show ?thesis
    by (auto simp: run_server_def load_with_overrides_def Let_def split: sum.splits prod.splits)
qed

section \<open>Examples\<close>

definition example_doctor :: doctor_ext where
  "example_doctor =
     \<lparr> dx_exists = (\<lambda>p. p = ''c''),
       dx_parse_url = (\<lambda>s. if s = ''http://h:9000/'' then Inr \<lparr> tu_host = Some ''h'', tu_port = Some 9000 \<rparr>
                         else Inl ''relative URL without a base''),
       dx_connects = (\<lambda>a. a = ''h:9000'') \<rparr>"

theorem host_port_probe_roundtrip_witness:
  "parse_host_port_for_probe example_doctor (host_port ''[::1]'' 8848) = Inr (''[::1]'', 8848)"
proof (rule host_port_probe_roundtrip)
  show "trim ''[::1]'' = ''[::1]''" by code_simp
  show "\<not> contains_str ''[::1]'' ''://''" by code_simp
qed simp

definition example_probed :: app_config where
  "example_probed = default_app_config\<lparr> routes :=
     [(example_route ''all'' ''/'' 1)\<lparr> rule_upstream_url := Some ''http://h:9000/'' \<rparr>] \<rparr>"

lemma example_probed_fields:
  "server example_probed = server default_app_config" "registries example_probed = registries default_app_config"
  "routes example_probed = [(example_route ''all'' ''/'' 1)\<lparr> rule_upstream_url := Some ''http://h:9000/'' \<rparr>]"
  by (simp_all add: example_probed_def)

lemma build_resolver_same:
  "registries cfg = registries default_app_config \<Longrightarrow> build_resolver rx cfg = Inr (resolver_new [] Priority)"
  by (simp add: build_resolver_none default_app_config_def)

lemma example_doctor_url:
  "\<exists>h p. parse_host_port_from_url example_doctor ''http://h:9000/'' = Inr (h, p) \<and> dx_connects example_doctor (host_port h p)"
proof -
  have "host_port ''h'' 9000 = ''h:9000''"
    by (simp add: host_port_def show_nat.simps digit_char_def char_of_def bit_0)
  then show ?thesis
    by (simp add: parse_host_port_from_url_def example_doctor_def)
qed

theorem doctor_passes_iff_witness:
  "fst (doctor (routes_world example_probed) example_ext example_startup example_doctor ''c'' True False) = 0"
proof -
  have "reads_back example_probed"
    by (simp add: reads_back_simps example_probed_def example_route_def)
  then have "load_config (routes_world example_probed) example_ext ''c'' = Inr example_probed"
    by (simp add: load_routes_world validate_config_def example_probed_def example_route_def)
  moreover have "build_resolver (su_registry example_startup) example_probed = Inr (resolver_new [] Priority)"
    by (simp add: build_resolver_same example_probed_fields)
  moreover have "\<forall>r\<in>set (routes example_probed). target_ok example_doctor (resolver_new [] Priority) r"
    by (simp add: example_probed_fields target_ok_def example_doctor_url)
  ultimately show ?thesis
    unfolding doctor_passes_iff
    by (auto simp: example_doctor_def example_startup_def example_probed_fields resolver_new_def sort_registries_def
        default_app_config_def)
qed

definition example_uncompiled :: app_config where
  "example_uncompiled = default_app_config\<lparr> routes :=
     [(example_route ''bad'' ''/'' 1)\<lparr> rule_response_headers := Some [(''TE'', ''x'')] \<rparr>] \<rparr>"

theorem doctor_pass_serves_witness:
  "fst (doctor (routes_world example_uncompiled) example_ext example_startup example_doctor ''c'' False False) = 0 \<and>
   (\<nexists>s. run_server (routes_world example_uncompiled) example_ext example_startup ''c'' None = Serving s)"
proof -
  have "reads_back example_uncompiled"
    by (simp add: reads_back_simps example_uncompiled_def example_route_def)
  then have load: "load_config (routes_world example_uncompiled) example_ext ''c'' = Inr example_uncompiled"
    by (simp add: load_routes_world validate_config_def example_uncompiled_def example_route_def)
  have "build_resolver (su_registry example_startup) example_uncompiled = Inr (resolver_new [] Priority)"
    by (simp add: build_resolver_same example_uncompiled_def)
  then have code: "fst (doctor (routes_world example_uncompiled) example_ext example_startup example_doctor ''c'' False False) = 0"
    by (simp add: doctor_def load doctor_report_code example_startup_def example_doctor_def resolver_new_def
        sort_registries_def)
  then obtain out where run: "doctor (routes_world example_uncompiled) example_ext example_startup example_doctor ''c'' False False = (0, out)"
    by (metis prod.collapse)
  have "case from_config example_ext example_uncompiled of Inl _ \<Rightarrow> True | Inr _ \<Rightarrow> False"
    by code_simp
  then have "\<nexists>snap. from_config example_ext example_uncompiled = Inr snap"
    by auto
  with doctor_pass_serves [OF run] code load show ?thesis
    by (auto simp: example_startup_def)
qed

end
