(* ===== verification/Program.thy ===== *)
theory Program
  imports Cli Doctor
begin

text \<open>
  The whole program, \<^verbatim>\<open>main\<close> and \<^verbatim>\<open>run\<close> of
  \<^verbatim>\<open>main.rs\<close>: the command line is parsed and its command carried out, which ends
  with an exit code or, for \<^verbatim>\<open>run\<close>, with a server that is listening.  An error
  that a command returns is printed and gives exit code 1.
\<close>

section \<open>Carrying out a command\<close>

text \<open>Everything outside the program, as the parameters of the commands.\<close>

record surroundings =
  so_world :: world
  so_ext :: ext
  so_startup :: startup_ext
  so_doctor :: doctor_ext
  so_url :: url_ext
  so_files :: file_ops
  so_samples :: sample_files
  so_replays :: replay_files
  so_client :: client_ext
  so_env :: "nat \<Rightarrow> nat \<Rightarrow> env"
  so_local_addr :: string
  so_lossy :: "string \<Rightarrow> string"
  so_map_order :: "string \<Rightarrow> string list \<Rightarrow> string list"
  so_id_order :: "string list"
  so_uuid :: string
  so_pretty :: "json \<Rightarrow> string"
  so_write_error :: "string \<Rightarrow> string option"

datatype outcome = Started server | Ended nat

definition exit_with :: "string + nat \<times> 'a \<Rightarrow> outcome" where
  "exit_with r = (case r of Inl e \<Rightarrow> Ended 1 | Inr (code, _) \<Rightarrow> Ended code)"

fun execute :: "surroundings \<Rightarrow> command \<Rightarrow> outcome" where
  "execute g (Run config_path local_override) =
     (case run_server (so_world g) (so_ext g) (so_startup g) config_path local_override of
        Failed e \<Rightarrow> Ended 1
      | Exited code \<Rightarrow> Ended code
      | Serving s \<Rightarrow> Started s)"
| "execute g (Init template output_dir) = exit_with (init_project (so_files g) template output_dir)"
| "execute g (CheckConfig config_path as_json strict) =
     exit_with (check_config (so_world g) (so_ext g) (su_registry (so_startup g)) (so_id_order g) config_path as_json strict)"
| "execute g (Doctor config_path probe_upstream as_json) =
     Ended (fst (doctor (so_world g) (so_ext g) (so_startup g) (so_doctor g) config_path probe_upstream as_json))"
| "execute g (RouteExplain config_path path method headers request_file as_json verbose) =
     exit_with (route_explain (so_world g) (so_ext g) (so_samples g) (so_lossy g) config_path path method headers
                  request_file as_json verbose)"
| "execute g (ConfigDiff left_path right_path as_json markdown) =
     exit_with (config_diff (so_world g) (so_ext g) (so_map_order g) left_path right_path as_json markdown)"
| "execute g (ConfigSnapshot config_path out_path) =
     exit_with (config_snapshot (so_world g) (so_ext g) (so_url g) (so_uuid g) (so_pretty g) (so_write_error g)
                  config_path out_path)"
| "execute g (SmokeProxy config_path request_path method expect_status) =
     exit_with (smoke_proxy (so_world g) (so_ext g) (so_startup g) (so_client g) (so_env g 0) (so_local_addr g)
                  config_path request_path method expect_status)"
| "execute g (Replay config_path replay_file) =
     exit_with (replay (so_world g) (so_ext g) (so_startup g) (so_client g) (so_replays g) (so_env g) (so_local_addr g)
                  config_path replay_file)"
| "execute g (ConfigDrift base_path profile_paths as_json) =
     exit_with (config_drift (so_world g) (so_ext g) (so_map_order g) base_path profile_paths as_json)"
| "execute g Help = Ended 0"

text \<open>\<open>None\<close>: the command line is never parsed to the end.\<close>

definition program :: "surroundings \<Rightarrow> string list \<Rightarrow> outcome option" where
  "program g args = map_option (execute g) (parse_command args)"

section \<open>Exit codes\<close>

definition is_exit_code :: "outcome \<Rightarrow> bool" where
  "is_exit_code r = (case r of Ended n \<Rightarrow> n = 0 \<or> n = 1 | Started _ \<Rightarrow> True)"

lemma is_exit_code_exit_with:
  "is_exit_code (exit_with r) \<longleftrightarrow> (\<forall>code out. r = Inr (code, out) \<longrightarrow> code = 0 \<or> code = 1)"
  by (auto simp: is_exit_code_def exit_with_def split: sum.split)

lemma run_server_exit: "run_server w x u p lo = Exited n \<Longrightarrow> n = 1"
  by (auto simp: run_server_def Let_def split: sum.splits option.splits prod.splits)

lemma replay_code: "replay w x u cl f es addr p rf = Inr (code, out) \<Longrightarrow> code = 0 \<or> code = 1"
  by (cases "load_replay_file f rf"; cases "start_ephemeral_proxy w x u p")
     (auto simp: replay_def Let_def split: if_splits prod.splits)

lemma config_diff_code: "config_diff w x ord l r j m = Inr (code, out) \<Longrightarrow> code = 0 \<or> code = 1"
  by (auto simp: config_diff_def res_bind_Inr_iff Let_def split: if_splits)

lemma config_drift_code: "config_drift w x ord b ps j = Inr (code, out) \<Longrightarrow> code = 0 \<or> code = 1"
  by (auto simp: config_drift_def res_bind_Inr_iff split: if_splits prod.splits)

lemma check_config_code: "check_config w x rx ids p j s = Inr (code, out) \<Longrightarrow> code = 0 \<or> code = 1"
  by (auto simp: check_config_def res_bind_Inr_iff Let_def split: if_splits)

lemma smoke_proxy_code: "smoke_proxy w x u cl e a p rp m s = Inr (code, out) \<Longrightarrow> code = 0 \<or> code = 1"
  by (cases "start_ephemeral_proxy w x u p") (auto simp: smoke_proxy_def Let_def split: if_splits sum.splits)

lemma route_explain_code: "route_explain w x f lo p pa m h rf j v = Inr (code, out) \<Longrightarrow> code = 0 \<or> code = 1"
  by (auto simp: route_explain_def explain_match_def explain_no_match_def res_bind_Inr_iff Let_def
      split: prod.splits option.splits)

lemma config_snapshot_code: "config_snapshot w x ux i pr we p dest = Inr (code, out) \<Longrightarrow> code = 0 \<or> code = 1"
  unfolding config_snapshot_def Let_def res_bind_Inr_iff
  by (elim exE conjE) (simp split: option.splits if_splits)

lemma init_project_code: "init_project f t d = Inr (code, out) \<Longrightarrow> code = 0 \<or> code = 1"
  unfolding init_project_def Let_def by (simp split: option.splits if_splits)

lemma doctor_code: "fst (doctor w x u d p probe j) = 0 \<or> fst (doctor w x u d p probe j) = 1"
  by (auto simp: doctor_def doctor_report_def Let_def split: sum.split option.split prod.split)

lemmas command_codes = replay_code config_diff_code config_drift_code check_config_code smoke_proxy_code
  route_explain_code config_snapshot_code init_project_code

lemma execute_code: "is_exit_code (execute g c)"
  using doctor_code
  by (cases c) (auto simp: is_exit_code_exit_with is_exit_code_def [of "Ended _"] is_exit_code_def [of "Started _"]
      dest: command_codes run_server_exit split: startup.split)

text \<open>A command line that is parsed starts a server or ends with exit code 0 or 1, whatever
  the files, the network and the registries do; and no command line but one of
  \<^verbatim>\<open>route-explain\<close> fails to be parsed.\<close>

theorem program_exit_code:
  assumes "program g args = r"
  shows "(case r of
            Some (Ended n) \<Rightarrow> n = 0 \<or> n = 1
          | Some (Started s) \<Rightarrow> \<exists>p lo. parse_command args = Some (Run p lo)
          | None \<Rightarrow> args \<noteq> [] \<and> hd args = ''route-explain'')"
proof (cases "parse_command args")
  case None
  then have "args \<noteq> [] \<and> hd args = ''route-explain''"
    by (cases args) (auto simp: parse_command_def split: if_splits)
  with None assms show ?thesis
    by (auto simp: program_def)
next
  case (Some c)
  then have r: "r = Some (execute g c)"
    using assms by (simp add: program_def)
  show ?thesis
  proof (cases "execute g c")
    case (Started s)
    then have "\<exists>p lo. c = Run p lo"
      by (cases c) (auto simp: exit_with_def split: sum.splits)
    with Some Started r show ?thesis by simp
  next
    case (Ended n)
    with r execute_code [of g c] show ?thesis by (simp add: is_exit_code_def)
  qed
qed

section \<open>Checking before running\<close>

lemma parse_strict_check:
  "\<not> is_flag p \<Longrightarrow> p \<notin> {''--json'', ''--strict''} \<Longrightarrow>
     parse_command [''check-config'', p, ''--strict''] = Some (CheckConfig p False True)"
  by (simp add: parse_command_def)

lemma parse_run: "\<not> is_flag p \<Longrightarrow> p \<noteq> ''--local-override'' \<Longrightarrow> parse_command [''run'', p] = Some (Run p None)"
  by (simp add: parse_command_def)

lemma flag_names: "is_flag ''--json''" "is_flag ''--strict''" "is_flag ''--local-override''"
  by (simp_all add: is_flag_def starts_with_def)

lemma turns_keep_config:
  "list_all (\<lambda>ev. ev = TaskTurn) es \<Longrightarrow> fst (fold (early_step x p) es (slot, seen, router)) = slot"
proof (induction es arbitrary: seen router)
  case (Cons ev es)
  then show ?case
    by (cases seen) (auto split: prod.split)
qed simp

text \<open>C18. A strict check is a gate for deployments: when
  \<^verbatim>\<open>check-config --strict\<close> ends with exit code 0 and nothing around the program
  changes, \<^verbatim>\<open>run\<close> on the same file starts a server, unless the directory cannot be
  watched or the address cannot be bound, and the strict check has no finding in the
  configuration that is served, unless the watcher replaces it while the server is being built.\<close>

theorem strict_check_gate:
  assumes "\<not> is_flag p" and "program g [''check-config'', p, ''--strict''] = Some (Ended 0)"
    and "su_watch_error (so_startup g) (watched_dir p) = None" and "\<forall>a. su_bind_error (so_startup g) a = None"
  shows "\<exists>s. program g [''run'', p] = Some (Started s) \<and>
    (list_all (\<lambda>ev. ev = TaskTurn) (su_early (so_startup g)) \<longrightarrow>
       run_strict_config_checks (so_id_order g) (st_config (sv_state s)) = [])"
proof -
  have p: "p \<notin> {''--json'', ''--strict'', ''--local-override''}"
    using assms(1) flag_names by auto
  have "parse_command [''check-config'', p, ''--strict''] = Some (CheckConfig p False True)"
    using parse_strict_check assms(1) p by blast
  with assms(2) obtain out
    where "check_config (so_world g) (so_ext g) (su_registry (so_startup g)) (so_id_order g) p False True = Inr (0, out)"
    by (auto simp: program_def exit_with_def split: sum.splits)
  then obtain cfg snap resolver where ok: "load_config (so_world g) (so_ext g) p = Inr cfg"
      "from_config (so_ext g) cfg = Inr snap" "build_resolver (su_registry (so_startup g)) cfg = Inr resolver"
      "run_strict_config_checks (so_id_order g) cfg = []"
    unfolding check_config_def res_bind_Inr_iff by (auto simp: Let_def split: if_splits)
  obtain chain where "build_plugin_chain (so_ext g) (plugins (server cfg)) = Inr chain"
    using load_plugins_total unfolding build_plugin_chain_def by blast
  with ok assms(3,4) have "\<exists>s. run_server (so_world g) (so_ext g) (so_startup g) p None = Serving s \<and>
      st_config (sv_state s) = snd (fst (fold (early_step (so_ext g) p) (su_early (so_startup g)) ((0, cfg), None, snap)))"
    by (simp add: run_server_def load_with_overrides_def app_state_new_def Let_def split: prod.split)
  with ok p assms(1) show ?thesis
    by (auto simp: program_def parse_run turns_keep_config)
qed

section \<open>Examples\<close>

definition example_surroundings :: surroundings where
  "example_surroundings =
     \<lparr> so_world = routes_world example_routes, so_ext = example_ext, so_startup = example_startup,
       so_doctor = example_doctor, so_url = example_url_ext, so_files = example_file_ops, so_samples = example_sample_files,
       so_replays = \<lparr> rf_read = (\<lambda>_. Inr []), rf_json_tree = (\<lambda>_. Inl ''bad''), rf_yaml_tree = (\<lambda>_. Inl ''bad''),
         rf_decode_error = (\<lambda>_. ''bad value'') \<rparr>,
       so_client = example_client,
       so_env = (\<lambda>_ _. example_env), so_local_addr = ''127.0.0.1:1'', so_lossy = id, so_map_order = as_listed,
       so_id_order = [''api'', ''all''], so_uuid = ''id'', so_pretty = (\<lambda>_. ''{}''), so_write_error = (\<lambda>_. None) \<rparr>"

lemma strict_example: "run_strict_config_checks [''api'', ''all''] example_routes = []"
  by code_simp

lemma build_resolver_example: "build_resolver rx example_routes = Inr (resolver_new [] Priority)"
  by (rule build_resolver_same) (simp add: example_routes_def)

lemma example_strict_check: "program example_surroundings [''check-config'', ''c'', ''--strict''] = Some (Ended 0)"
  by (simp add: program_def parse_command_def is_flag_def starts_with_def exit_with_def check_config_def
      load_example_routes example_routes_compile build_resolver_example strict_example example_surroundings_def)

theorem program_exit_code_witness:
  "program example_surroundings [''check-config'', ''c'', ''--strict''] = Some (Ended 0) \<and>
   (case Some (Ended 0) of Some (Ended n) \<Rightarrow> n = 0 \<or> n = 1 | _ \<Rightarrow> False)"
  using program_exit_code [OF example_strict_check] example_strict_check by simp

theorem strict_check_gate_witness:
  "\<exists>s. program example_surroundings [''run'', ''c''] = Some (Started s) \<and> run_strict_config_checks [''api'', ''all''] (st_config (sv_state s)) = []"
  using strict_check_gate [OF _ example_strict_check]
  by (simp add: is_flag_def starts_with_def example_surroundings_def example_startup_def)

end
