(* ===== verification/InFlight.thy ===== *)
theory InFlight
  imports Server
begin

text \<open>
  A request in flight.  The handlers of \<^verbatim>\<open>server/handlers.rs\<close> are asynchronous: between
  two accesses of a request to the shared state other requests, the watcher, the rebuild task
  and the health checker run.  Here the proxy handler is cut into steps (\<open>phase\<close>,
  \<open>phase_step\<close>): the plugins, the routing by the current router, the count of the route, the
  answer of the resolver, the choice of an instance, the question to the breaker, the reading of
  the number of retries, each exchange with the upstream, each report to the breaker, the count
  of a failure, and the plugins on the response.  A step is not always a single access: the
  resolver asks several registries, whose answers are those of one moment here, and the choice of
  an instance reads the selection mode, then the health of one instance after the other, and
  then advances a counter, which are one step here.  So runs in which a health entry or the mode changes in
  the middle of a choice are not among the interleavings.  The lemmas: a
  request that is left alone does exactly what the handler of theory \<open>Handlers\<close> does;
  whatever happens to the shared state between its steps, it ends after a bounded number of
  them; and what a step adds to the counters, which rule a phase carries and what a step
  leaves alone, for the theory \<open>Concurrent\<close> of many requests.
\<close>

section \<open>One request\<close>

text \<open>Where a request stands: the request as the plugins left it, the rule it was routed by,
  the base URL of its upstream, the number of the attempt and of the attempts left after it.\<close>

datatype phase =
    Arrived
  | Plugged request
  | Matched request compiled_rule
  | Counted request compiled_rule
  | Resolved request compiled_rule string "service_instance list"
  | Based request compiled_rule string
  | Admitted request compiled_rule string
  | Upgrading request compiled_rule string
  | Once request compiled_rule string
  | Trying request compiled_rule string nat nat
  | Heard request compiled_rule string nat nat "proxy_error + response"
  | Failing string proxy_error
  | Replied response
  | Finished "(proxy_error + response) option"

definition settled :: "proxy_error + response \<Rightarrow> phase" where
  "settled res = (case res of Inl err \<Rightarrow> Failing (failure_code_for_proxy err) err | Inr r \<Rightarrow> Replied r)"

definition choose_upstream :: "request \<Rightarrow> compiled_rule \<Rightarrow> string \<Rightarrow> app_state \<Rightarrow> phase" where
  "choose_upstream req rule path st =
     (case cr_upstream_url rule of
        Some url \<Rightarrow> Based req rule url
      | None \<Rightarrow>
          (case cr_service_id rule of
             None \<Rightarrow> Failing ''no_instances'' (NoInstances path)
           | Some svc_id \<Rightarrow>
               (case resolve_service (st_resolver st) svc_id of
                  Inl err \<Rightarrow> Failing (failure_code_for_registry err) (Registry err)
                | Inr instances \<Rightarrow>
                    if instances = [] then Failing ''no_instances'' (NoInstances svc_id)
                    else Resolved req rule svc_id instances)))"

definition start_exchange :: "ext \<Rightarrow> request \<Rightarrow> compiled_rule \<Rightarrow> string \<Rightarrow> app_state \<Rightarrow> phase" where
  "start_exchange x req rule base st =
     (if is_websocket_upgrade x req then Upgrading req rule base
      else (let retries = max_retries (server (st_config st)) in
            if retries = 0 then Once req rule base
            else case req_body req of
                   Inl err \<Rightarrow> settled (Inl (BodyRead err))
                 | Inr body \<Rightarrow> Trying (req\<lparr> req_body := Inr body \<rparr>) rule base 0 (unat retries)))"

text \<open>One step of the handler.  All of them but the choice of an instance (\<open>Resolved\<close>) access
  the shared state at most once, the answer of the resolver taken as one access.\<close>

fun phase_step :: "ext \<Rightarrow> env \<Rightarrow> request \<Rightarrow> phase \<Rightarrow> app_state \<Rightarrow> phase \<times> app_state" where
  "phase_step x e req0 Arrived st =
     (case (if st_plugins st \<noteq> [] then run_on_request (st_plugins st) req0 else Inr (Continue req0)) of
        Inl err \<Rightarrow> (Finished (Some (Inl (PluginError err))), st)
      | Inr (Respond resp) \<Rightarrow> (Finished (Some (Inr resp)), st)
      | Inr (Continue req) \<Rightarrow> (Plugged req, st))"
| "phase_step x e req0 (Plugged req) st =
     (case resolve x (st_router st) (req_path req0) (req_method req0) (req_headers req) of
        None \<Rightarrow> (Failing ''no_matching_route'' (NoInstances (req_path req0)), st)
      | Some rule \<Rightarrow> (Matched req rule, st))"
| "phase_step x e req0 (Matched req rule) st = (Counted req rule, count_hit (cr_id rule) st)"
| "phase_step x e req0 (Counted req rule) st = (choose_upstream req rule (req_path req0) st, st)"
| "phase_step x e req0 (Resolved req rule svc_id instances) st =
     (let (inst, rr) = select_service_instance (env_hash e) instances svc_id
            (instance_selection (server (st_config st))) (st_rr st) (st_health st)
      in (case inst of None \<Rightarrow> Finished None | Some i \<Rightarrow> Based req rule (base_url i), st\<lparr> st_rr := rr \<rparr>))"
| "phase_step x e req0 (Based req rule base) st =
     (let (ok, cb) = allow (env_now e) (st_breaker st) base
      in (if ok then Admitted req rule base
          else Failing ''circuit_breaker_open'' (UpstreamConnection (''circuit breaker open for '' @ base)),
          st\<lparr> st_breaker := cb \<rparr>))"
| "phase_step x e req0 (Admitted req rule base) st = (start_exchange x req rule base st, st)"
| "phase_step x e req0 (Upgrading req rule base) st =
     (settled (proxy_websocket (env_ws_connect e) req base (rewrite_path rule (req_path req0))), st)"
| "phase_step x e req0 (Once req rule base) st =
     (Heard req rule base 0 0 (proxy_http (env_send e 0) req base (rewrite_path rule (req_path req0))
        (cr_response_headers rule) (request_id_of x e req0)), st)"
| "phase_step x e req0 (Trying req rule base attempt left) st =
     (case env_rebuild_error e attempt of
        Some err \<Rightarrow> settled (Inl (UpstreamConnection err))
      | None \<Rightarrow> Heard req rule base attempt left (proxy_http (env_send e attempt) req base
          (rewrite_path rule (req_path req0)) (cr_response_headers rule) (request_id_of x e req0)), st)"
| "phase_step x e req0 (Heard req rule base attempt left res) st =
     (case res of
        Inr resp \<Rightarrow> (Replied resp, st\<lparr> st_breaker := Breaker.record_success (st_breaker st) base \<rparr>)
      | Inl err \<Rightarrow>
          (if left = 0 then settled (Inl err) else Trying req rule base (attempt + 1) (left - 1),
           st\<lparr> st_breaker := Breaker.record_failure (env_clock e attempt) (st_breaker st) base \<rparr>))"
| "phase_step x e req0 (Failing code err) st = (Finished (Some (Inl err)), count_failure code st)"
| "phase_step x e req0 (Replied resp) st =
     (Finished (Some (finish_response x (request_id_of x e req0) (st_plugins st) resp)), st)"
| "phase_step x e req0 (Finished res) st = (Finished res, st)"

section \<open>A request that is left alone\<close>

definition alone :: "ext \<Rightarrow> env \<Rightarrow> request \<Rightarrow> nat \<Rightarrow> phase \<times> app_state \<Rightarrow> phase \<times> app_state" where
  "alone x e req0 n = (\<lambda>(p, st). phase_step x e req0 p st) ^^ n"

lemma alone_simps [simp]:
  "alone x e req0 0 a = a"
  "alone x e req0 (Suc n) a = alone x e req0 n (phase_step x e req0 (fst a) (snd a))"
  by (simp_all add: alone_def funpow_swap1 split_beta)

lemma alone_add: "alone x e req0 (m + n) a = alone x e req0 n (alone x e req0 m a)"
  by (induction m arbitrary: a) simp_all

definition reaches :: "ext \<Rightarrow> env \<Rightarrow> request \<Rightarrow> nat \<Rightarrow> phase \<times> app_state \<Rightarrow> phase \<times> app_state \<Rightarrow> bool" where
  "reaches x e req0 k a b = (\<exists>n\<le>k. alone x e req0 n a = b)"

lemma reaches_refl: "reaches x e req0 k a a"
  unfolding reaches_def by (intro exI [of _ 0]) simp

lemma reaches_step:
  assumes "reaches x e req0 k (phase_step x e req0 p st) b"
  shows "reaches x e req0 (Suc k) (p, st) b"
proof -
  obtain n where "n \<le> k" "alone x e req0 n (phase_step x e req0 p st) = b"
    using assms unfolding reaches_def by blast
  then show ?thesis
    unfolding reaches_def by (intro exI [of _ "Suc n"]) simp
qed

lemma reaches_trans: "reaches x e req0 j a b \<Longrightarrow> reaches x e req0 k b c \<Longrightarrow> reaches x e req0 (j + k) a c"
  unfolding reaches_def by (metis add_mono alone_add)

lemma reaches_mono: "reaches x e req0 j a b \<Longrightarrow> j \<le> k \<Longrightarrow> reaches x e req0 k a b"
  unfolding reaches_def using le_trans by blast

text \<open>The attempts are the retry loop.\<close>

lemma trying_is_loop:
  assumes "retry_loop e req base (rewrite_path rule (req_path req0)) (cr_response_headers rule)
      (request_id_of x e req0) attempt (Suc left) last_err (st_breaker st) = (Some res, cb)"
  shows "reaches x e req0 (2 * Suc left) (Trying req rule base attempt left, st) (settled res, st\<lparr> st_breaker := cb \<rparr>)"
  using assms
proof (induction left arbitrary: attempt last_err st)
  case 0
  show ?case
  proof (cases "env_rebuild_error e attempt")
    case (Some err)
    with 0 show ?thesis
      by (auto intro!: reaches_step reaches_refl simp: numeral_2_eq_2)
  next
    case None
    with 0 show ?thesis
      by (auto intro!: reaches_step reaches_refl simp: numeral_2_eq_2 settled_def split: sum.splits)
  qed
next
  case (Suc left)
  let ?out = "proxy_http (env_send e attempt) req base (rewrite_path rule (req_path req0))
      (cr_response_headers rule) (request_id_of x e req0)"
  show ?case
  proof (cases "env_rebuild_error e attempt")
    case (Some err)
    with Suc.prems show ?thesis
      by (auto intro!: reaches_step reaches_refl)
  next
    case None
    show ?thesis
    proof (cases ?out)
      case (Inr resp)
      with None Suc.prems have "res = Inr resp" "cb = Breaker.record_success (st_breaker st) base"
        by simp_all
      with None Inr show ?thesis
        by (auto intro!: reaches_step reaches_refl simp: settled_def)
    next
      case (Inl err)
      let ?st = "st\<lparr> st_breaker := Breaker.record_failure (env_clock e attempt) (st_breaker st) base \<rparr>"
      have "reaches x e req0 (2 * Suc left) (Trying req rule base (attempt + 1) left, ?st) (settled res, ?st\<lparr> st_breaker := cb \<rparr>)"
        using Suc.prems None Inl by (intro Suc.IH) simp
      with None Inl show ?thesis
        by (auto intro!: reaches_step)
    qed
  qed
qed


lemma start_is_retry:
  assumes "proxy_with_retry e req base (rewrite_path rule (req_path req0)) (cr_response_headers rule)
      (request_id_of x e req0) (max_retries (server (st_config st))) (st_breaker st) = (Some res, cb)"
    and "\<not> is_websocket_upgrade x req"
  shows "reaches x e req0 (2 * unat (max_retries (server (st_config st))) + 3) (Admitted req rule base, st)
    (settled res, st\<lparr> st_breaker := cb \<rparr>)"
proof (cases "max_retries (server (st_config st)) = 0")
  case True
  with assms show ?thesis
    by (auto intro!: reaches_step reaches_refl simp: start_exchange_def proxy_with_retry_def settled_def numeral_3_eq_3
        split: sum.splits)
next
  case False
  show ?thesis
  proof (cases "req_body req")
    case (Inl err)
    with False assms show ?thesis
      by (auto intro!: reaches_step reaches_refl simp: start_exchange_def proxy_with_retry_def numeral_3_eq_3)
  next
    case (Inr body)
    let ?n = "unat (max_retries (server (st_config st)))"
    have "retry_loop e (req\<lparr> req_body := Inr body \<rparr>) base (rewrite_path rule (req_path req0)) (cr_response_headers rule)
        (request_id_of x e req0) 0 (Suc ?n) None (st_breaker st) = (Some res, cb)"
      using False Inr assms(1) by (simp add: proxy_with_retry_def del: retry_loop.simps)
    from trying_is_loop [OF this] have "reaches x e req0 (2 * ?n + 2)
        (Trying (req\<lparr> req_body := Inr body \<rparr>) rule base 0 ?n, st) (settled res, st\<lparr> st_breaker := cb \<rparr>)"
      by simp
    moreover have "2 * ?n + 3 = Suc (2 * ?n + 2)" by simp
    ultimately show ?thesis
      using False Inr assms(2) by (simp only: ) (rule reaches_step, simp add: start_exchange_def Let_def)
  qed
qed

lemma fields_after_breaker:
  "count_failure c (st\<lparr> st_breaker := cb \<rparr>) = (count_failure c st)\<lparr> st_breaker := cb \<rparr>"
  by (simp add: count_failure_def)

text \<open>From the choice of the upstream to the end.\<close>

lemma based_is_forward:
  assumes "forward x e rule req (request_id_of x e req0) (req_path req0) base st = (res, st')"
  shows "reaches x e req0 (2 * unat (max_retries (server (st_config st))) + 5) (Based req rule base, st)
    (Finished (case res of Some (Inr r) \<Rightarrow> Some (finish_response x (request_id_of x e req0) (st_plugins st') r) | _ \<Rightarrow> res), st')"
proof -
  obtain ok cb where a: "allow (env_now e) (st_breaker st) base = (ok, cb)" by force
  let ?st1 = "st\<lparr> st_breaker := cb \<rparr>"
  let ?n = "unat (max_retries (server (st_config st)))"
  have settle: "reaches x e req0 1 (settled out, st2)
      (Finished (case out of Inr r \<Rightarrow> Some (finish_response x (request_id_of x e req0) (st_plugins st2) r) | Inl err \<Rightarrow> Some (Inl err)),
       case out of Inr r \<Rightarrow> st2 | Inl err \<Rightarrow> count_failure (failure_code_for_proxy err) st2)" for out st2
    by (cases out) (auto intro!: reaches_step reaches_refl simp: settled_def One_nat_def)
  show ?thesis
  proof (cases ok)
    case False
    with assms a show ?thesis
      by (auto intro!: reaches_step reaches_refl simp: forward_def numeral_eq_Suc)
  next
    case True
    obtain out st2 where go: "reaches x e req0 (2 * ?n + 3) (Admitted req rule base, ?st1) (settled out, st2)"
      and out: "res = Some out" "st' = (case out of Inr r \<Rightarrow> st2 | Inl err \<Rightarrow> count_failure (failure_code_for_proxy err) st2)"
    proof (cases "is_websocket_upgrade x req")
      case ws: True
      show ?thesis
        by (rule that [of "proxy_websocket (env_ws_connect e) req base (rewrite_path rule (req_path req0))" ?st1])
           (use True ws a assms in \<open>auto intro!: reaches_step reaches_refl
              simp: start_exchange_def forward_def Let_def numeral_3_eq_3 split: sum.splits\<close>)
    next
      case http: False
      obtain r cb' where w: "proxy_with_retry e req base (rewrite_path rule (req_path req0)) (cr_response_headers rule)
          (request_id_of x e req0) (max_retries (server (st_config st))) cb = (r, cb')" by force
      with proxy_with_retry_cases [OF w] obtain o' where r: "r = Some o'" by (cases r) auto
      have "reaches x e req0 (2 * ?n + 3) (Admitted req rule base, ?st1) (settled o', ?st1\<lparr> st_breaker := cb' \<rparr>)"
        using start_is_retry [of e req base rule req0 x ?st1 o' cb'] w r http by simp
      then show ?thesis
        by (rule that) (use True http a w r assms in \<open>auto simp: forward_def Let_def split: sum.splits\<close>)
    qed
    have "reaches x e req0 (Suc (2 * ?n + 3)) (Based req rule base, st) (settled out, st2)"
      by (rule reaches_step) (use True a go in simp)
    from reaches_trans [OF this settle [of out st2]] show ?thesis
      unfolding out by (cases out) (simp_all add: numeral_eq_Suc)
  qed
qed

lemma choice_is_upstream_base:
  assumes "upstream_base_of e rule (req_path req0) st = (b, st')"
  shows "reaches x e req0 2 (Counted req rule, st)
    (case b of None \<Rightarrow> Finished None | Some (Inl err) \<Rightarrow> Finished (Some (Inl err)) | Some (Inr u) \<Rightarrow> Based req rule u, st')"
proof -
  have failing: "reaches x e req0 1 (Failing c err, st2) (Finished (Some (Inl err)), count_failure c st2)" for c err st2
    by (auto intro!: reaches_step reaches_refl simp: One_nat_def)
  consider (url) u where "cr_upstream_url rule = Some u" | (none) "cr_upstream_url rule = None" "cr_service_id rule = None"
    | (service) svc where "cr_upstream_url rule = None" "cr_service_id rule = Some svc"
    by (cases "cr_upstream_url rule"; cases "cr_service_id rule") auto
  then show ?thesis
  proof cases
    case (service svc)
    show ?thesis
    proof (cases "\<exists>is. resolve_service (st_resolver st) svc = Inr is \<and> is \<noteq> []")
      case True
      then obtain "is" where r: "resolve_service (st_resolver st) svc = Inr is" "is \<noteq> []" by blast
      obtain i rr where s: "select_service_instance (env_hash e) is svc (instance_selection (server (st_config st)))
          (st_rr st) (st_health st) = (i, rr)" by force
      have "b = (case i of None \<Rightarrow> None | Some j \<Rightarrow> Some (Inr (base_url j)))" "st' = st\<lparr> st_rr := rr \<rparr>"
        using assms service r s by (auto simp: upstream_base_of_def Let_def split: option.splits)
      with service r s show ?thesis
        by (auto intro!: reaches_step reaches_refl simp: choose_upstream_def numeral_2_eq_2 split: option.split)
    next
      case False
      then obtain c err where "b = Some (Inl err)" "st' = count_failure c st" "choose_upstream req rule (req_path req0) st = Failing c err"
        using assms service by (auto simp: upstream_base_of_def choose_upstream_def split: sum.splits)
      with failing [of c err st] show ?thesis
        by (auto intro!: reaches_step simp: numeral_2_eq_2)
    qed
  qed (use assms failing in \<open>auto intro!: reaches_step reaches_refl simp: upstream_base_of_def choose_upstream_def numeral_2_eq_2\<close>)
qed

lemma matched_is_handler:
  assumes "upstream_base_of e rule (req_path req0) (count_hit (cr_id rule) st) = (b, st2)"
    and "\<forall>u. b = Some (Inr u) \<longrightarrow> forward x e rule req (request_id_of x e req0) (req_path req0) u st2 = (res, st3)"
  shows "reaches x e req0 (2 * unat (max_retries (server (st_config st))) + 8) (Matched req rule, st)
    (case b of None \<Rightarrow> (Finished None, st2) | Some (Inl err) \<Rightarrow> (Finished (Some (Inl err)), st2)
     | Some (Inr u) \<Rightarrow> (Finished (case res of Some (Inr r) \<Rightarrow> Some (finish_response x (request_id_of x e req0) (st_plugins st3) r) | _ \<Rightarrow> res), st3))"
proof -
  let ?n = "unat (max_retries (server (st_config st)))"
  have "installed st2 = installed st"
    using installed_upstream_base_of [of e rule "req_path req0" "count_hit (cr_id rule) st"] assms(1) by simp
  then have cfg: "st_config st2 = st_config st"
    by (simp add: installed_eq)
  note start = reaches_step [where p = "Matched req rule" and st = st and k = 2, simplified, OF choice_is_upstream_base [OF assms(1)]]
  show ?thesis
  proof (cases "\<exists>u. b = Some (Inr u)")
    case True
    then obtain u where u: "b = Some (Inr u)" by blast
    have "reaches x e req0 (2 * ?n + 5) (Based req rule u, st2)
        (Finished (case res of Some (Inr r) \<Rightarrow> Some (finish_response x (request_id_of x e req0) (st_plugins st3) r) | _ \<Rightarrow> res), st3)"
      using based_is_forward [of x e rule req req0 u st2 res st3] assms(2) u by (simp add: cfg)
    with start u show ?thesis
      using reaches_trans [of x e req0 3 "(Matched req rule, st)" "(Based req rule u, st2)" "2 * ?n + 5"]
      by (simp add: add.commute)
  next
    case False
    then have "reaches x e req0 3 (Matched req rule, st)
        (case b of None \<Rightarrow> (Finished None, st2) | Some (Inl err) \<Rightarrow> (Finished (Some (Inl err)), st2) | Some (Inr u) \<Rightarrow> (Matched req rule, st))"
      using start by (auto split: option.split sum.split)
    from reaches_mono [OF this, of "2 * ?n + 8"] False show ?thesis
      by (auto split: option.splits sum.splits)
  qed
qed

text \<open>A request that no other activity interrupts does exactly what the handler does: it
  ends with the handler's answer and leaves the handler's state, after at most
  \<open>2 * max_retries + 10\<close> steps.  So the handler's theorems speak of the executions in which
  requests are served one after the other.\<close>

lemma request_alone:
  "\<exists>n \<le> 2 * unat (max_retries (server (st_config st))) + 10.
     alone x e req n (Arrived, st) = (Finished (fst (proxy_handler x e st req)), snd (proxy_handler x e st req))"
proof -
  let ?N = "2 * unat (max_retries (server (st_config st))) + 8"
  have "reaches x e req (Suc (Suc ?N)) (Arrived, st) (Finished (fst (proxy_handler x e st req)), snd (proxy_handler x e st req))"
  proof (cases "\<exists>req'. (if st_plugins st \<noteq> [] then run_on_request (st_plugins st) req else Inr (Continue req)) = Inr (Continue req')")
    case False
    then show ?thesis
      by (intro reaches_step)
         (auto intro!: reaches_refl simp: proxy_handler_def Let_def split: sum.splits request_action.splits)
  next
    case True
    then obtain req' where p: "(if st_plugins st \<noteq> [] then run_on_request (st_plugins st) req else Inr (Continue req)) = Inr (Continue req')"
      by blast
    show ?thesis
    proof (cases "resolve x (st_router st) (req_path req) (req_method req) (req_headers req')")
      case None
      have "reaches x e req (Suc ?N) (Plugged req', st) (Finished (Some (Inl (NoInstances (req_path req)))), count_failure ''no_matching_route'' st)"
        using None by (auto intro!: reaches_step reaches_refl simp: numeral_eq_Suc)
      with None p show ?thesis
        by (intro reaches_step) (simp add: proxy_handler_def Let_def)
    next
      case (Some rule)
      obtain b st2 where base: "upstream_base_of e rule (req_path req) (count_hit (cr_id rule) st) = (b, st2)" by force
      define res st3 where "res = fst (forward x e rule req' (request_id_of x e req) (req_path req) (projr (the b)) st2)"
        and "st3 = snd (forward x e rule req' (request_id_of x e req) (req_path req) (projr (the b)) st2)"
      then have fwd: "\<forall>u. b = Some (Inr u) \<longrightarrow> forward x e rule req' (request_id_of x e req) (req_path req) u st2 = (res, st3)"
        by auto
      have "(Finished (fst (proxy_handler x e st req)), snd (proxy_handler x e st req)) =
          (case b of None \<Rightarrow> (Finished None, st2) | Some (Inl err) \<Rightarrow> (Finished (Some (Inl err)), st2)
           | Some (Inr u) \<Rightarrow> (Finished (case res of Some (Inr r) \<Rightarrow> Some (finish_response x (request_id_of x e req) (st_plugins st3) r) | _ \<Rightarrow> res), st3))"
        using p Some base fwd by (auto simp: proxy_handler_def Let_def split: option.split sum.split)
      with matched_is_handler [OF base fwd] have "reaches x e req ?N (Matched req' rule, st)
          (Finished (fst (proxy_handler x e st req)), snd (proxy_handler x e st req))" by simp
      moreover have "phase_step x e req Arrived st = (Plugged req', st)"
        using p by simp
      moreover have "phase_step x e req (Plugged req') st = (Matched req' rule, st)"
        using Some by simp
      ultimately show ?thesis
        by (intro reaches_step) (simp only:, intro reaches_step, simp only:)
    qed
  qed
  then show ?thesis
    unfolding reaches_def by (simp add: add.commute)
qed

section \<open>A request among others\<close>

text \<open>How many steps are left at most: after \<open>Heard\<close> and \<open>Trying\<close> two for every attempt
  left, at most \<open>2 ^ 32 - 1\<close> retries before.\<close>

fun steps_left :: "phase \<Rightarrow> nat" where
  "steps_left Arrived = 2 ^ 33 + 8"
| "steps_left (Plugged _) = 2 ^ 33 + 7"
| "steps_left (Matched _ _) = 2 ^ 33 + 6"
| "steps_left (Counted _ _) = 2 ^ 33 + 5"
| "steps_left (Resolved _ _ _ _) = 2 ^ 33 + 4"
| "steps_left (Based _ _ _) = 2 ^ 33 + 3"
| "steps_left (Admitted _ _ _) = 2 ^ 33 + 2"
| "steps_left (Upgrading _ _ _) = 2"
| "steps_left (Once _ _ _) = 3"
| "steps_left (Trying _ _ _ _ left) = 2 * left + 3"
| "steps_left (Heard _ _ _ _ left _) = 2 * left + 2"
| "steps_left (Failing _ _) = 1"
| "steps_left (Replied _) = 1"
| "steps_left (Finished _) = 0"

lemma steps_left_settled: "steps_left (settled res) = 1"
  by (simp add: settled_def split: sum.split)

lemma steps_left_decreases:
  assumes "steps_left p \<noteq> 0"
  shows "steps_left (fst (phase_step x e req p st)) < steps_left p"
proof (cases p)
  case Arrived
  then show ?thesis by (simp split: sum.split request_action.split)
next
  case (Counted r rule)
  then show ?thesis
    by (simp add: choose_upstream_def split: option.split sum.split)
next
  case (Admitted r rule base)
  have "unat (max_retries (server (st_config st))) < 2 ^ 32"
    using unsigned_less [of "max_retries (server (st_config st))"] by simp
  with Admitted show ?thesis
    by (simp add: start_exchange_def Let_def steps_left_settled split: sum.split)
next
  case (Heard r rule base attempt left res)
  then show ?thesis
    by (cases left) (simp_all add: steps_left_settled split: sum.split)
qed (use assms in \<open>simp_all add: steps_left_settled Let_def split: option.split sum.split prod.split\<close>)

text \<open>The phases of a request when the others and the rest of the program have brought the
  shared state to \<open>\<sigma> n\<close> before its step \<open>n\<close>.\<close>

primrec phase_after :: "ext \<Rightarrow> env \<Rightarrow> request \<Rightarrow> (nat \<Rightarrow> app_state) \<Rightarrow> nat \<Rightarrow> phase" where
  "phase_after x e req \<sigma> 0 = Arrived"
| "phase_after x e req \<sigma> (Suc n) = fst (phase_step x e req (phase_after x e req \<sigma> n) (\<sigma> n))"

lemma finished_iff: "steps_left p = 0 \<longleftrightarrow> (\<exists>res. p = Finished res)"
  by (cases p) simp_all

text \<open>C25. No request runs forever: whatever other requests, reloads and health rounds do to the
  shared state between its steps, it ends after at most \<open>2 ^ 33 + 8\<close> steps of its own.\<close>

theorem request_always_ends:
  "\<exists>n \<le> 2 ^ 33 + 8. \<exists>res. phase_after x e req \<sigma> n = Finished res"
proof (rule ccontr)
  assume never: "\<not> ?thesis"
  have "steps_left (phase_after x e req \<sigma> n) + n \<le> 2 ^ 33 + 8" if "n \<le> 2 ^ 33 + 9" for n
    using that
  proof (induction n)
    case (Suc n)
    then have "steps_left (phase_after x e req \<sigma> n) \<noteq> 0"
      using never by (auto simp: finished_iff)
    from steps_left_decreases [OF this, of x e req "\<sigma> n"] Suc show ?case
      by simp
  qed simp
  from this [of "2 ^ 33 + 9"] show False by simp
qed

section \<open>What a step counts\<close>

text \<open>What the step of a request in a phase adds to the counters.\<close>

fun code_counted :: "phase \<Rightarrow> string option" where
  "code_counted (Failing code err) = Some code"
| "code_counted _ = None"

fun hit_counted :: "phase \<Rightarrow> string option" where
  "hit_counted (Matched req rule) = Some (cr_id rule)"
| "hit_counted _ = None"

lemma metrics_step:
  "failures_with (st_metrics (snd (phase_step x e req p st))) c =
     failures_with (st_metrics st) c + (if code_counted p = Some c then 1 else 0)"
  "hits_of (st_metrics (snd (phase_step x e req p st))) h =
     hits_of (st_metrics st) h + (if hit_counted p = Some h then 1 else 0)"
  by (cases p; auto simp: failures_with_def hits_of_def counters.count_bump count_failure_def count_hit_def
      record_failure_reason_def record_route_hit_def Let_def split: sum.split option.split request_action.split prod.split)+

text \<open>A request to be refused with a code that says why, and the error of an exchange, are not
  failures of plugins.\<close>

definition refusal :: "string \<Rightarrow> proxy_error \<Rightarrow> bool" where
  "refusal code err = (code \<in> {failure_code_for_proxy err, ''no_matching_route'', ''circuit_breaker_open''} \<and>
     \<not> plugin_failure err)"

fun phase_ok :: "phase \<Rightarrow> bool" where
  "phase_ok (Failing code err) = refusal code err"
| "phase_ok (Heard _ _ _ _ _ res) = (case res of Inl err \<Rightarrow> \<not> plugin_failure err | Inr _ \<Rightarrow> True)"
| "phase_ok _ = True"

lemma phase_ok_settled: "phase_ok (settled res) \<longleftrightarrow> (case res of Inl err \<Rightarrow> \<not> plugin_failure err | Inr _ \<Rightarrow> True)"
  by (simp add: settled_def refusal_def split: sum.split)

lemma phase_ok_step: "phase_ok p \<Longrightarrow> phase_ok (fst (phase_step x e req p st))"
proof (cases p)
  case (Upgrading r rule base)
  then show ?thesis
    by (simp add: phase_ok_settled proxy_websocket_def split: option.split sum.split)
qed (auto simp: phase_ok_settled refusal_def choose_upstream_def start_exchange_def Let_def proxy_http_errors
    split: sum.split option.split request_action.split prod.split)

text \<open>The code and the route that a request in a phase has been counted under.\<close>

fun answered :: "phase \<Rightarrow> string option \<Rightarrow> bool" where
  "answered (Finished (Some (Inl err))) code =
     (if plugin_failure err then code = None else \<exists>c. code = Some c \<and> refusal c err)"
| "answered _ code = (code = None)"

fun routed :: "phase \<Rightarrow> string option \<Rightarrow> bool" where
  "routed Arrived hit = (hit = None)"
| "routed (Plugged _) hit = (hit = None)"
| "routed (Matched _ _) hit = (hit = None)"
| "routed (Counted _ rule) hit = (hit = Some (cr_id rule))"
| "routed (Resolved _ rule _ _) hit = (hit = Some (cr_id rule))"
| "routed (Based _ rule _) hit = (hit = Some (cr_id rule))"
| "routed (Admitted _ rule _) hit = (hit = Some (cr_id rule))"
| "routed (Upgrading _ rule _) hit = (hit = Some (cr_id rule))"
| "routed (Once _ rule _) hit = (hit = Some (cr_id rule))"
| "routed (Trying _ rule _ _ _) hit = (hit = Some (cr_id rule))"
| "routed (Heard _ rule _ _ _ _) hit = (hit = Some (cr_id rule))"
| "routed (Failing code _) hit = (hit = None \<longleftrightarrow> code = ''no_matching_route'')"
| "routed (Replied _) hit = (hit \<noteq> None)"
| "routed (Finished None) hit = (hit \<noteq> None)"
| "routed (Finished (Some _)) hit = True"

text \<open>A request that is counted as a failure has been counted for a route unless it found none.\<close>

definition marks_agree :: "string option \<Rightarrow> string option \<Rightarrow> bool" where
  "marks_agree code hit = (code = None \<or> (hit = None \<longleftrightarrow> code = Some ''no_matching_route''))"

text \<open>The value after a step: the new code or route if one is counted, the old one otherwise.\<close>

lemma failure_code_routed:
  "failure_code_for_registry e \<noteq> ''no_matching_route''"
  "failure_code_for_proxy err \<noteq> ''no_matching_route''"
proof -
  show registry: "failure_code_for_registry e \<noteq> ''no_matching_route''" for e
    by (cases e) simp_all
  show "failure_code_for_proxy err \<noteq> ''no_matching_route''"
    by (cases err) (simp_all add: registry)
qed

lemma routed_settled [simp]: "hit \<noteq> None \<Longrightarrow> routed (settled res) hit"
  by (simp add: settled_def failure_code_routed split: sum.split)

lemma answered_settled [simp]: "answered (settled res) code = (code = None)"
  by (simp add: settled_def split: sum.split)

lemma routed_step:
  assumes "routed p hit"
  shows "routed (fst (phase_step x e req p st)) (case hit_counted p of Some h \<Rightarrow> Some h | None \<Rightarrow> hit)"
    and "hit_counted p \<noteq> None \<Longrightarrow> hit = None"
proof -
  show "routed (fst (phase_step x e req p st)) (case hit_counted p of Some h \<Rightarrow> Some h | None \<Rightarrow> hit)"
  proof (cases p)
    case (Counted r rule)
    with assms show ?thesis
      by (simp add: choose_upstream_def failure_code_routed split: option.split sum.split)
  next
    case (Admitted r rule base)
    with assms show ?thesis
      by (simp add: start_exchange_def Let_def failure_code_routed split: option.split sum.split)
  next
    case (Failing code err)
    with assms show ?thesis by simp
  qed (use assms in \<open>simp_all add: Let_def split: sum.split option.split request_action.split prod.split\<close>)
  show "hit_counted p \<noteq> None \<Longrightarrow> hit = None"
    using assms by (cases p) simp_all
qed

lemma marks_agree_step:
  assumes "answered p code" and "routed p hit" and "marks_agree code hit"
  shows "marks_agree (case code_counted p of Some c \<Rightarrow> Some c | None \<Rightarrow> code)
    (case hit_counted p of Some h \<Rightarrow> Some h | None \<Rightarrow> hit)"
  using assms by (cases p) (auto simp: marks_agree_def)

lemma answered_step:
  assumes "answered p code" and "phase_ok p"
  shows "answered (fst (phase_step x e req p st)) (case code_counted p of Some c \<Rightarrow> Some c | None \<Rightarrow> code)"
    and "code_counted p \<noteq> None \<Longrightarrow> code = None"
proof -
  show "answered (fst (phase_step x e req p st)) (case code_counted p of Some c \<Rightarrow> Some c | None \<Rightarrow> code)"
  proof (cases p)
    case (Replied resp)
    with assms show ?thesis
      using finish_response_failure [of x "request_id_of x e req" "st_plugins st" resp]
      by (cases "finish_response x (request_id_of x e req) (st_plugins st) resp") auto
  next
    case (Failing c err)
    with assms show ?thesis by (auto simp: refusal_def)
  qed (use assms in \<open>auto simp: choose_upstream_def start_exchange_def Let_def
      split: sum.split option.split request_action.split prod.split\<close>)
  show "code_counted p \<noteq> None \<Longrightarrow> code = None"
    using assms by (cases p) auto
qed

section \<open>What a step tells the breaker\<close>

fun recorded :: "env \<Rightarrow> phase \<Rightarrow> cb_event list" where
  "recorded e (Based _ _ base) = [Asked (env_now e) base]"
| "recorded e (Heard _ _ base attempt _ res) =
     [case res of Inr _ \<Rightarrow> Succeeded base | Inl _ \<Rightarrow> cb_event.Failed (env_clock e attempt) base]"
| "recorded _ _ = []"

lemma breaker_step:
  "st_breaker (snd (phase_step x e req p st)) = fold cb_event_step (recorded e p) (st_breaker st)"
  by (cases p; simp add: Let_def count_failure_def count_hit_def
      split: sum.split option.split request_action.split prod.split)

section \<open>The rule a request carries\<close>

fun carried :: "phase \<Rightarrow> (request \<times> compiled_rule) option" where
  "carried (Matched req rule) = Some (req, rule)"
| "carried (Counted req rule) = Some (req, rule)"
| "carried (Resolved req rule _ _) = Some (req, rule)"
| "carried (Based req rule _) = Some (req, rule)"
| "carried (Admitted req rule _) = Some (req, rule)"
| "carried (Upgrading req rule _) = Some (req, rule)"
| "carried (Once req rule _) = Some (req, rule)"
| "carried (Trying req rule _ _ _) = Some (req, rule)"
| "carried (Heard req rule _ _ _ _) = Some (req, rule)"
| "carried _ = None"

lemma carried_settled [simp]: "carried (settled res) = None"
  by (simp add: settled_def split: sum.split)

lemma carried_step:
  assumes "carried (fst (phase_step x e req0 p st)) = Some (req, rule)"
  shows "(\<exists>req'. carried p = Some (req', rule) \<and> req_headers req' = req_headers req) \<or>
    resolve x (st_router st) (req_path req0) (req_method req0) (req_headers req) = Some rule"
  using assms
  by (cases p; auto simp: choose_upstream_def start_exchange_def Let_def
      split: sum.splits option.splits request_action.splits prod.splits if_splits)

text \<open>A request that has been routed by a rule: it carries this one, or it is past its exchanges and
  only about to be answered; it is never before the routing again, and never without a route.\<close>

definition under_rule :: "compiled_rule \<Rightarrow> phase \<Rightarrow> bool" where
  "under_rule rule p = (case carried p of
       Some (req, r) \<Rightarrow> r = rule
     | None \<Rightarrow> (case p of Failing code err \<Rightarrow> code \<noteq> ''no_matching_route'' | Replied resp \<Rightarrow> True | Finished res \<Rightarrow> True | _ \<Rightarrow> False))"

lemma under_rule_settled: "under_rule rule (settled res)"
  by (simp add: under_rule_def settled_def failure_code_routed split: sum.split)

lemma under_rule_step: "under_rule rule p \<Longrightarrow> under_rule rule (fst (phase_step x e req0 p st))"
  by (cases p; auto simp: choose_upstream_def start_exchange_def Let_def under_rule_settled failure_code_routed
      split: sum.split option.split prod.split) (auto simp: under_rule_def failure_code_routed)

lemma installed_phase_step: "installed (snd (phase_step x e req0 p st)) = installed st"
  by (cases p; simp add: Let_def split: sum.split option.split request_action.split prod.split)

end
