(* ===== verification/Interleaving.thy ===== *)
theory Interleaving
  imports InFlight
begin

text \<open>
  Requests among others.  The server runs any number of requests in flight (theory
  \<open>InFlight\<close>), the watcher, the rebuild task and the health checker in any interleaving
  (\<open>conc_step\<close>), while the servers of the registries change their answers.  An invariant of
  the interleaving server is an interpretation of the locale \<open>run_invariant\<close>, whose assumptions
  are that an arriving request, a step of a request and an event of the background keep it.
  Most invariants say something of the shared state and, for every request, something that its
  steps keep while the shared state is good: these interpret \<open>task_invariant\<close>.
  A part of the state that every step changes by what it notes, such as the circuit breaker,
  interprets \<open>logged\<close>: at the end of a run it is what the log of the run makes of it.
\<close>

section \<open>Many requests\<close>

record task =
  tk_env :: env
  tk_req :: request
  tk_phase :: phase

definition new_task :: "env \<Rightarrow> request \<Rightarrow> task" where
  "new_task e req = \<lparr> tk_env = e, tk_req = req, tk_phase = Arrived \<rparr>"

definition advance_task :: "ext \<Rightarrow> nat \<Rightarrow> task list \<times> server \<Rightarrow> task list \<times> server" where
  "advance_task x i cs =
     (case cs of (ts, s) \<Rightarrow>
        let t = ts ! i; (p, st) = phase_step x (tk_env t) (tk_req t) (tk_phase t) (sv_state s)
        in (ts[i := t\<lparr> tk_phase := p \<rparr>], s\<lparr> sv_state := st \<rparr>))"

text \<open>The events that the interleaving server takes in several steps.\<close>

fun is_whole :: "server_event \<Rightarrow> bool" where
  "is_whole (Request _ _ _ _) = True"
| "is_whole (ProbeRound _) = True"
| "is_whole _ = False"

text \<open>A request arrives, one of those under way takes a step, or the watcher, the rebuild task
  or the health checker runs, or the outside world changes.\<close>

inductive conc_step :: "ext \<Rightarrow> task list \<times> server \<Rightarrow> task list \<times> server \<Rightarrow> bool" for x where
  arrive: "conc_step x (ts, s) (ts @ [new_task e req], s)"
| advance: "i < length ts \<Longrightarrow> conc_step x (ts, s) (advance_task x i (ts, s))"
| background: "server_step x s ev s' \<Longrightarrow> \<not> is_whole ev \<Longrightarrow> conc_step x (ts, s) (ts, s')"

abbreviation conc_run :: "ext \<Rightarrow> task list \<times> server \<Rightarrow> task list \<times> server \<Rightarrow> bool" where
  "conc_run x \<equiv> (conc_step x)\<^sup>*\<^sup>*"

lemma advance_task_eq:
  "advance_task x i (ts, s) =
     (ts[i := (ts ! i)\<lparr> tk_phase := fst (phase_step x (tk_env (ts ! i)) (tk_req (ts ! i)) (tk_phase (ts ! i)) (sv_state s)) \<rparr>],
      s\<lparr> sv_state := snd (phase_step x (tk_env (ts ! i)) (tk_req (ts ! i)) (tk_phase (ts ! i)) (sv_state s)) \<rparr>)"
  by (simp add: advance_task_def Let_def split_beta)

lemma advance_task_simps:
  "fst (advance_task x i (ts, s)) =
     ts[i := (ts ! i)\<lparr> tk_phase := fst (phase_step x (tk_env (ts ! i)) (tk_req (ts ! i)) (tk_phase (ts ! i)) (sv_state s)) \<rparr>]"
  "sv_state (snd (advance_task x i (ts, s))) =
     snd (phase_step x (tk_env (ts ! i)) (tk_req (ts ! i)) (tk_phase (ts ! i)) (sv_state s))"
  "sv_path (snd (advance_task x i (ts, s))) = sv_path s"
  by (simp_all add: advance_task_eq)

section \<open>Runs with their events\<close>

text \<open>A run with the events of the background in their order.\<close>

inductive conc_trace :: "ext \<Rightarrow> task list \<times> server \<Rightarrow> server_event list \<Rightarrow> task list \<times> server \<Rightarrow> bool" for x where
  rest: "conc_trace x cs [] cs"
| arrived: "conc_trace x (ts @ [new_task e req], s) evs cs \<Longrightarrow> conc_trace x (ts, s) evs cs"
| advanced: "i < length ts \<Longrightarrow> conc_trace x (advance_task x i (ts, s)) evs cs \<Longrightarrow> conc_trace x (ts, s) evs cs"
| ran: "server_step x s ev s' \<Longrightarrow> \<not> is_whole ev \<Longrightarrow> conc_trace x (ts, s') evs cs \<Longrightarrow> conc_trace x (ts, s) (ev # evs) cs"

lemma conc_trace_run: "conc_trace x cs evs cs' \<Longrightarrow> conc_run x cs cs'"
  by (induction rule: conc_trace.induct) (blast intro: converse_rtranclp_into_rtranclp conc_step.intros)+

lemma conc_run_trace: "conc_run x cs cs' \<Longrightarrow> \<exists>evs. conc_trace x cs evs cs'"
proof (induction rule: converse_rtranclp_induct)
  case base
  then show ?case by (blast intro: rest)
next
  case (step cs cs1)
  from step.IH obtain evs where "conc_trace x cs1 evs cs'" ..
  with step.hyps(1) show ?case
    by (cases rule: conc_step.cases) (blast intro: conc_trace.intros)+
qed

text \<open>A run of the background alone.\<close>

lemma background_trace:
  "server_run x s evs s' \<Longrightarrow> list_all (\<lambda>ev. \<not> is_whole ev) evs \<Longrightarrow> conc_trace x (ts, s) evs (ts, s')"
  by (induction rule: server_run.induct) (auto intro: conc_trace.intros)

section \<open>Runs with a log\<close>

text \<open>What the steps of requests and the events of the background note, in their order.  A
  component of the state that every step changes by what it notes is at the end of a run what
  the log makes of it.\<close>

inductive conc_log ::
  "ext \<Rightarrow> (task \<Rightarrow> 'a list) \<Rightarrow> (server \<Rightarrow> server_event \<Rightarrow> 'a list) \<Rightarrow>
     task list \<times> server \<Rightarrow> 'a list \<Rightarrow> task list \<times> server \<Rightarrow> bool" for x f g where
  still: "conc_log x f g cs [] cs"
| came: "conc_log x f g (ts @ [new_task e req], s) log cs \<Longrightarrow> conc_log x f g (ts, s) log cs"
| moved: "i < length ts \<Longrightarrow> conc_log x f g (advance_task x i (ts, s)) log cs \<Longrightarrow>
    conc_log x f g (ts, s) (f (ts ! i) @ log) cs"
| passed: "server_step x s ev s' \<Longrightarrow> \<not> is_whole ev \<Longrightarrow> conc_log x f g (ts, s') log cs \<Longrightarrow>
    conc_log x f g (ts, s) (g s ev @ log) cs"

lemma conc_log_if_run: "conc_run x cs cs' \<Longrightarrow> \<exists>log. conc_log x f g cs log cs'"
proof (induction rule: converse_rtranclp_induct)
  case base
  then show ?case by (blast intro: still)
next
  case (step cs cs1)
  from step.IH obtain log where "conc_log x f g cs1 log cs'" ..
  with step.hyps(1) show ?case
    by (cases rule: conc_step.cases) (blast intro: conc_log.intros)+
qed

lemma run_if_conc_log: "conc_log x f g cs log cs' \<Longrightarrow> conc_run x cs cs'"
  by (induction rule: conc_log.induct) (blast intro: converse_rtranclp_into_rtranclp conc_step.intros)+

lemma conc_run_iff_log: "conc_run x cs cs' \<longleftrightarrow> (\<exists>log. conc_log x f g cs log cs')"
  by (blast intro: conc_log_if_run run_if_conc_log)

lemma conc_log_append:
  "conc_log x f g cs us cs1 \<Longrightarrow> conc_log x f g cs1 vs cs2 \<Longrightarrow> conc_log x f g cs (us @ vs) cs2"
  by (induction rule: conc_log.induct) (auto intro: conc_log.intros)

locale logged =
  fixes x :: ext and f :: "task \<Rightarrow> 'a list" and g :: "server \<Rightarrow> server_event \<Rightarrow> 'a list"
    and part :: "server \<Rightarrow> 'b" and note_step :: "'a \<Rightarrow> 'b \<Rightarrow> 'b"
  assumes task_noted: "part (s\<lparr> sv_state := snd (phase_step x (tk_env t) (tk_req t) (tk_phase t) (sv_state s)) \<rparr>) =
      fold note_step (f t) (part s)"
    and event_noted: "server_step x s ev s' \<Longrightarrow> \<not> is_whole ev \<Longrightarrow> part s' = fold note_step (g s ev) (part s)"
begin

lemma part_run: "conc_log x f g cs log cs' \<Longrightarrow> part (snd cs') = fold note_step log (part (snd cs))"
proof (induction rule: conc_log.induct)
  case (moved i ts s log cs)
  then show ?case by (simp add: advance_task_eq task_noted)
next
  case (passed s ev s' ts log cs)
  then show ?case by (simp add: event_noted)
qed simp_all

end

section \<open>Invariants of every interleaving\<close>

text \<open>What an invariant owes: the three kinds of steps keep it, as far as the events of the
  background satisfy \<open>E\<close>.  Then it holds in every state that a run with such events reaches.\<close>

locale run_invariant =
  fixes x :: ext and E :: "server_event \<Rightarrow> bool" and I :: "task list \<times> server \<Rightarrow> bool"
  assumes kept_arrive: "I (ts, s) \<Longrightarrow> I (ts @ [new_task e req], s)"
    and kept_advance: "I (ts, s) \<Longrightarrow> i < length ts \<Longrightarrow> I (advance_task x i (ts, s))"
    and kept_background: "I (ts, s) \<Longrightarrow> server_step x s ev s' \<Longrightarrow> \<not> is_whole ev \<Longrightarrow> E ev \<Longrightarrow> I (ts, s')"
begin

lemma kept_trace: "conc_trace x cs evs cs' \<Longrightarrow> list_all E evs \<Longrightarrow> I cs \<Longrightarrow> I cs'"
  by (induction rule: conc_trace.induct) (auto intro: kept_arrive kept_advance kept_background)

lemma kept_run: "conc_run x cs cs' \<Longrightarrow> (\<And>ev. E ev) \<Longrightarrow> I cs \<Longrightarrow> I cs'"
  by (auto dest!: conc_run_trace intro: kept_trace simp: list_all_iff)

end

text \<open>The shared state satisfies \<open>S\<close> and every request \<open>P\<close>.\<close>

locale task_invariant =
  fixes x :: ext and E :: "server_event \<Rightarrow> bool" and S :: "server \<Rightarrow> bool" and P :: "task \<Rightarrow> bool"
  assumes new: "P (new_task e req)"
    and moved: "S s \<Longrightarrow> P t \<Longrightarrow>
      P (t\<lparr> tk_phase := fst (phase_step x (tk_env t) (tk_req t) (tk_phase t) (sv_state s)) \<rparr>)"
    and shared: "S s \<Longrightarrow> S (s\<lparr> sv_state := snd (phase_step x e req p (sv_state s)) \<rparr>)"
    and background: "S s \<Longrightarrow> server_step x s ev s' \<Longrightarrow> \<not> is_whole ev \<Longrightarrow> E ev \<Longrightarrow> S s'"
begin

definition holds :: "task list \<times> server \<Rightarrow> bool" where
  "holds cs = (S (snd cs) \<and> (\<forall>t\<in>set (fst cs). P t))"

lemma holds_task: "holds (ts, s) \<Longrightarrow> i < length ts \<Longrightarrow> P (ts ! i)"
  by (simp add: holds_def)

lemma holds_shared: "holds (ts, s) \<Longrightarrow> S s"
  by (simp add: holds_def)

lemma holds_start: "S s \<Longrightarrow> holds ([], s)"
  by (simp add: holds_def)

end

sublocale task_invariant \<subseteq> run_invariant x E holds
proof
  fix ts s e req
  assume "holds (ts, s)"
  then show "holds (ts @ [new_task e req], s)"
    by (simp add: holds_def new)
next
  fix ts s i
  assume all: "holds (ts, s)" and i: "i < length ts"
  let ?t = "(ts ! i)\<lparr> tk_phase := fst (phase_step x (tk_env (ts ! i)) (tk_req (ts ! i)) (tk_phase (ts ! i)) (sv_state s)) \<rparr>"
  have "P ?t"
    using holds_task [OF all i] holds_shared [OF all] by (rule moved [rotated])
  with all show "holds (advance_task x i (ts, s))"
    using set_update_subset_insert [of ts i ?t] by (auto simp: holds_def advance_task_eq shared)
next
  fix ts s ev s'
  assume "holds (ts, s)" "server_step x s ev s'" "\<not> is_whole ev" "E ev"
  then show "holds (ts, s')"
    by (auto simp: holds_def intro: background)
qed

lemma advances_trace:
  "\<forall>i\<in>set is. i < length ts \<Longrightarrow> conc_trace x (ts, s) [] (fold (advance_task x) is (ts, s))"
proof (induction "is" arbitrary: ts s)
  case Nil
  then show ?case by (simp add: rest)
next
  case (Cons i "is")
  obtain ts' s' where a: "advance_task x i (ts, s) = (ts', s')" by force
  with advance_task_simps(1) [of x i ts s] have "length ts' = length ts" by simp
  with Cons a show ?case by (auto intro: advanced)
qed

lemma advances_run:
  "\<forall>i\<in>set is. i < length ts \<Longrightarrow> conc_run x (ts, s) (fold (advance_task x) is (ts, s))"
  by (rule conc_trace_run [OF advances_trace])

end
