(* ===== verification/Concurrent.thy ===== *)
theory Concurrent
  imports Interleaving
begin

text \<open>
  What holds in every interleaving of requests with reloads, ticks, health rounds and changes of
  the registries: the counters are exact, every rule in use stems from one configuration that was
  loaded in the run and is kept until the answer is settled, and what only a restart changes
  stays as it was at the start.  Beside these invariants: whole
  requests one after the other are one of the interleavings, a reload reaches every later
  request, concurrent selections are fair, the breaker refuses what the settings it was built
  with and the exchanges so far say, and a half-open breaker lets every waiting request through.
\<close>

section \<open>Accounting\<close>

definition tally :: "nat \<Rightarrow> (nat \<Rightarrow> string option) \<Rightarrow> string \<Rightarrow> nat" where
  "tally n f c = card {i. i < n \<and> f i = Some c}"

lemma tally_new: "tally (Suc n) (f(n := None)) c = tally n f c"
  unfolding tally_def by (rule arg_cong [where f = card]) (auto simp: less_Suc_eq)

lemma tally_update:
  assumes "i < n" and "v \<noteq> None \<Longrightarrow> f i = None"
  shows "tally n (f(i := (case v of Some k \<Rightarrow> Some k | None \<Rightarrow> f i))) c = tally n f c + (if v = Some c then 1 else 0)"
proof (cases "v = Some c")
  case True
  have "{j. j < n \<and> (f(i := v)) j = Some c} = insert i {j. j < n \<and> f j = Some c}"
    using True assms(1) by auto
  with True assms show ?thesis
    by (simp add: tally_def)
next
  case False
  then have "{j. j < n \<and> (f(i := (case v of Some k \<Rightarrow> Some k | None \<Rightarrow> f i))) j = Some c} = {j. j < n \<and> f j = Some c}"
    using assms by (cases v) auto
  with False show ?thesis by (simp add: tally_def)
qed

definition balanced :: "proxy_metrics \<Rightarrow> task list \<times> server \<Rightarrow> (nat \<Rightarrow> string option) \<Rightarrow> (nat \<Rightarrow> string option) \<Rightarrow> bool" where
  "balanced m0 cs codes hits =
     (case cs of (ts, s) \<Rightarrow>
        (\<forall>c. failures_with (st_metrics (sv_state s)) c = failures_with m0 c + of_nat (tally (length ts) codes c)) \<and>
        (\<forall>h. hits_of (st_metrics (sv_state s)) h = hits_of m0 h + of_nat (tally (length ts) hits h)) \<and>
        (\<forall>i<length ts. phase_ok (tk_phase (ts ! i)) \<and> answered (tk_phase (ts ! i)) (codes i) \<and> routed (tk_phase (ts ! i)) (hits i) \<and>
           marks_agree (codes i) (hits i)))"

lemma background_metrics: "server_step x s ev s' \<Longrightarrow> \<not> is_whole ev \<Longrightarrow> st_metrics (sv_state s') = st_metrics (sv_state s)"
  by (cases rule: server_step.cases)
     (auto simp: file_message_def rebuild_task_def split: prod.split option.split)

lemma balanced_arrive:
  assumes "balanced m0 (ts, s) codes hits"
  shows "balanced m0 (ts @ [new_task e req], s) (codes(length ts := None)) (hits(length ts := None))"
  using assms by (auto simp: balanced_def tally_new nth_append new_task_def less_Suc_eq marks_agree_def)

lemma balanced_advance:
  assumes "balanced m0 (ts, s) codes hits" and "i < length ts"
  shows "balanced m0 (advance_task x i (ts, s))
    (codes(i := (case code_counted (tk_phase (ts ! i)) of Some k \<Rightarrow> Some k | None \<Rightarrow> codes i)))
    (hits(i := (case hit_counted (tk_phase (ts ! i)) of Some k \<Rightarrow> Some k | None \<Rightarrow> hits i)))"
proof -
  let ?p = "tk_phase (ts ! i)"
  have ok: "phase_ok ?p" "answered ?p (codes i)" "routed ?p (hits i)" "marks_agree (codes i) (hits i)"
    using assms by (auto simp: balanced_def)
  obtain ts' s' where a: "advance_task x i (ts, s) = (ts', s')" by force
  have ts': "ts' = ts[i := (ts ! i)\<lparr> tk_phase := fst (phase_step x (tk_env (ts ! i)) (tk_req (ts ! i)) ?p (sv_state s)) \<rparr>]"
    and st': "sv_state s' = snd (phase_step x (tk_env (ts ! i)) (tk_req (ts ! i)) ?p (sv_state s))"
    using advance_task_simps [of x i ts s] by (simp_all add: a)
  show ?thesis
    unfolding a balanced_def prod.case ts' length_list_update st' metrics_step
    using assms ok phase_ok_step [OF ok(1)] routed_step(1) [OF ok(3)] answered_step(1) [OF ok(2,1)]
      marks_agree_step [OF ok(2-4)]
    by (simp add: balanced_def tally_update [where f = codes, OF assms(2) answered_step(2) [OF ok(2,1)]]
        tally_update [where f = hits, OF assms(2) routed_step(2) [OF ok(3)]] nth_list_update)
qed

interpretation counted: run_invariant x "\<lambda>_. True" "\<lambda>cs. \<exists>codes hits. balanced m0 cs codes hits" for x m0
proof
  fix ts s s' ev
  assume "\<exists>codes hits. balanced m0 (ts, s) codes hits" "server_step x s ev s'" "\<not> is_whole ev"
  then show "\<exists>codes hits. balanced m0 (ts, s') codes hits"
    using background_metrics [of x s ev s'] unfolding balanced_def by simp
qed (use balanced_arrive balanced_advance in blast)+

text \<open>C4. The counters are exact in every interleaving of requests, reloads and health rounds.
  The requests can be marked so that each failure counter has grown by the number of requests
  marked with its code and each route counter by the number marked with its route, where a
  request carries one mark of a code if and only if it has ended with an error that is not a
  plugin's (the code being the error's own, or that of no route or of an open breaker),
  carries the mark of the route it has been matched to from then until it is answered, and of
  those marked with a code exactly the ones of ''no_matching_route'' have no route mark.\<close>

theorem interleaved_counts:
  assumes "conc_run x ([], s0) (ts, s)"
  shows "\<exists>codes hits.
    (\<forall>c. failures_with (st_metrics (sv_state s)) c =
       failures_with (st_metrics (sv_state s0)) c + of_nat (card {i. i < length ts \<and> codes i = Some c})) \<and>
    (\<forall>h. hits_of (st_metrics (sv_state s)) h =
       hits_of (st_metrics (sv_state s0)) h + of_nat (card {i. i < length ts \<and> hits i = Some h})) \<and>
    (\<forall>i<length ts. answered (tk_phase (ts ! i)) (codes i) \<and> routed (tk_phase (ts ! i)) (hits i) \<and>
       marks_agree (codes i) (hits i))"
proof -
  have "balanced (st_metrics (sv_state s0)) ([], s0) (\<lambda>_. None) (\<lambda>_. None)"
    by (simp add: balanced_def tally_def)
  with assms have "\<exists>codes hits. balanced (st_metrics (sv_state s0)) (ts, s) codes hits"
    by (blast intro: counted.kept_run)
  then show ?thesis
    unfolding balanced_def tally_def by (simp only: prod.case) blast
qed

section \<open>Requests served one after the other\<close>

lemma alone_run:
  "conc_run x (ts @ [\<lparr> tk_env = e, tk_req = req, tk_phase = p \<rparr>], s)
     (ts @ [\<lparr> tk_env = e, tk_req = req, tk_phase = fst (alone x e req n (p, sv_state s)) \<rparr>],
      s\<lparr> sv_state := snd (alone x e req n (p, sv_state s)) \<rparr>)"
proof (induction n arbitrary: p s)
  case 0
  then show ?case by simp
next
  case (Suc n)
  obtain p' st' where a: "phase_step x e req p (sv_state s) = (p', st')" by force
  have "conc_step x (ts @ [\<lparr> tk_env = e, tk_req = req, tk_phase = p \<rparr>], s)
      (advance_task x (length ts) (ts @ [\<lparr> tk_env = e, tk_req = req, tk_phase = p \<rparr>], s))"
    by (rule advance) simp
  then have "conc_step x (ts @ [\<lparr> tk_env = e, tk_req = req, tk_phase = p \<rparr>], s)
      (ts @ [\<lparr> tk_env = e, tk_req = req, tk_phase = p' \<rparr>], s\<lparr> sv_state := st' \<rparr>)"
    by (simp add: advance_task_def a)
  from converse_rtranclp_into_rtranclp [of "conc_step x", OF this Suc.IH [of p' "s\<lparr> sv_state := st' \<rparr>"]] show ?case
    by (simp add: a)
qed

lemma request_run:
  "\<exists>t. conc_run x (ts, s) (ts @ [t], s\<lparr> sv_state := snd (proxy_handler x e (sv_state s) req) \<rparr>)"
proof -
  obtain n where n: "alone x e req n (Arrived, sv_state s) =
      (Finished (fst (proxy_handler x e (sv_state s) req)), snd (proxy_handler x e (sv_state s) req))"
    using request_alone [where x = x and e = e and req = req and st = "sv_state s"] by blast
  have "conc_step x (ts, s) (ts @ [new_task e req], s)"
    by (rule arrive)
  with alone_run [of x ts e req Arrived s n] show ?thesis
    unfolding n new_task_def by (metis converse_rtranclp_into_rtranclp snd_conv)
qed

lemma serve_state:
  "snd (serve x ks fs e req st) = st \<or> snd (serve x ks fs e req st) = snd (proxy_handler x e st req)"
  by (simp add: serve_def Let_def split: endpoint.split prod.split)

text \<open>A round of the health checker that nothing interrupts.\<close>

lemma checker_run:
  assumes "sv_health_check s = Some hc"
    and "(checker_step hc get_ok (st_resolver (sv_state s)) (st_config (sv_state s)) ^^ n)
      (sv_checker s, st_health (sv_state s)) = (p, h)"
  shows "conc_run x (ts, s) (ts, s\<lparr> sv_checker := p, sv_state := (sv_state s)\<lparr> st_health := h \<rparr> \<rparr>)"
  using assms(2)
proof (induction n arbitrary: p h)
  case 0
  then have "s\<lparr> sv_checker := p, sv_state := (sv_state s)\<lparr> st_health := h \<rparr> \<rparr> = s" by auto
  then show ?case by simp
next
  case (Suc n)
  let ?f = "checker_step hc get_ok (st_resolver (sv_state s)) (st_config (sv_state s))"
  obtain q g where q: "(?f ^^ n) (sv_checker s, st_health (sv_state s)) = (q, g)" by force
  let ?s = "s\<lparr> sv_checker := q, sv_state := (sv_state s)\<lparr> st_health := g \<rparr> \<rparr>"
  have "?f (q, g) = (p, h)" using Suc.prems q by simp
  then have "health_task hc get_ok ?s = s\<lparr> sv_checker := p, sv_state := (sv_state s)\<lparr> st_health := h \<rparr> \<rparr>"
    by (simp add: health_task_eq Let_def)
  moreover have "server_step x ?s (HealthStep get_ok) (health_task hc get_ok ?s)"
    using assms(1) by (simp add: server_step.check)
  ultimately have "conc_step x (ts, ?s) (ts, s\<lparr> sv_checker := p, sv_state := (sv_state s)\<lparr> st_health := h \<rparr> \<rparr>)"
    by (metis conc_step.background is_whole.simps)
  with Suc.IH [OF q] show ?case by (rule rtranclp.rtrancl_into_rtrancl)
qed

lemma round_run:
  assumes "sv_health_check s = Some hc" and "sv_checker s = Resting"
  shows "conc_run x (ts, s) (ts, s\<lparr> sv_state := health_round hc get_ok (sv_state s) \<rparr>)"
proof -
  obtain n where "(checker_step hc get_ok (st_resolver (sv_state s)) (st_config (sv_state s)) ^^ n)
      (Resting, st_health (sv_state s)) = (Resting, probe_all hc get_ok (st_resolver (sv_state s))
         (st_config (sv_state s)) (st_health (sv_state s)))"
    using checker_round by blast
  from checker_run [OF assms(1) this [folded assms(2)]]
  have "conc_run x (ts, s) (ts, s\<lparr> sv_checker := sv_checker s, sv_state := health_round hc get_ok (sv_state s) \<rparr>)"
    unfolding health_round_def .
  moreover have "s\<lparr> sv_checker := sv_checker s, sv_state := st \<rparr> = s\<lparr> sv_state := st \<rparr>" for st
    by (cases s) simp
  ultimately show ?thesis by simp
qed

text \<open>The server that serves each request at one stroke is one way of running the server
  that interleaves them: every state that a sequence of whole requests, file messages, ticks
  and whole health rounds can reach is reached by an interleaving.\<close>

theorem atomic_server_embeds:
  assumes "server_run x s evs s'"
  shows "\<exists>ts'. conc_run x (ts, s) (ts', s')"
  using assms
proof (induction arbitrary: ts rule: server_run.induct)
  case (stop s)
  then show ?case by blast
next
  case (more s ev s' evs s'')
  have "\<exists>ts'. conc_run x (ts, s) (ts', s')"
  proof (cases "is_whole ev")
    case False
    with more.hyps(1) show ?thesis by (meson background r_into_rtranclp)
  next
    case True
    with more.hyps(1) show ?thesis
    proof (cases rule: server_step.cases)
      case (probe hc get_ok)
      with round_run show ?thesis by blast
    next
      case (request ks fs e req)
      then show ?thesis
        using serve_state [of x ks fs e req "sv_state s"] request_run [of x ts s e req]
        by (auto intro: exI [of _ ts])
    qed simp_all
  qed
  with more.IH show ?case by (meson rtranclp_trans)
qed

section \<open>The rule of a request in flight\<close>

text \<open>What holds of the server and of every request in every run whose events are in \<open>M\<close>.\<close>

definition shared_loaded :: "ext \<Rightarrow> string \<Rightarrow> app_config \<Rightarrow> server_event set \<Rightarrow> server \<Rightarrow> bool" where
  "shared_loaded x path cfg0 M s = (sv_path s = path \<and> slots_loaded x path cfg0 M (slots_of s))"

definition rule_loaded :: "ext \<Rightarrow> string \<Rightarrow> app_config \<Rightarrow> server_event set \<Rightarrow> task \<Rightarrow> bool" where
  "rule_loaded x path cfg0 M t =
     (\<forall>req rule. carried (tk_phase t) = Some (req, rule) \<longrightarrow>
        (\<exists>cfg snap. loaded_by x path cfg0 M cfg \<and> from_config x cfg = Inr snap \<and>
           resolve x snap (req_path (tk_req t)) (req_method (tk_req t)) (req_headers req) = Some rule))"

lemma shared_loaded_router:
  "shared_loaded x path cfg0 M s \<Longrightarrow> \<exists>cfg. loaded_by x path cfg0 M cfg \<and> from_config x cfg = Inr (st_router (sv_state s))"
  by (auto simp: shared_loaded_def slots_loaded_def slots_of_def config_slot_of_def)

interpretation loaded: task_invariant x "\<lambda>ev. ev \<in> M" "shared_loaded x path cfg0 M" "rule_loaded x path cfg0 M"
  for x path cfg0 M
proof
  fix e req
  show "rule_loaded x path cfg0 M (new_task e req)"
    by (simp add: rule_loaded_def new_task_def)
next
  fix s t
  assume "shared_loaded x path cfg0 M s" "rule_loaded x path cfg0 M t"
  then show "rule_loaded x path cfg0 M
      (t\<lparr> tk_phase := fst (phase_step x (tk_env t) (tk_req t) (tk_phase t) (sv_state s)) \<rparr>)"
    using carried_step [of x "tk_env t" "tk_req t" "tk_phase t" "sv_state s"] shared_loaded_router [of x path cfg0 M s]
    unfolding rule_loaded_def by (simp; metis)
next
  fix s e req p
  assume "shared_loaded x path cfg0 M s"
  then show "shared_loaded x path cfg0 M (s\<lparr> sv_state := snd (phase_step x e req p (sv_state s)) \<rparr>)"
    using installed_phase_step [of x e req p "sv_state s"]
    by (simp add: shared_loaded_def slots_of_def config_slot_of_def installed_eq)
next
  fix s ev s'
  assume "shared_loaded x path cfg0 M s" "server_step x s ev s'" "ev \<in> M"
  then show "shared_loaded x path cfg0 M s'"
    using step_loaded [of x s ev s' M cfg0] by (auto simp: shared_loaded_def)
qed

lemma run_rule_loaded:
  assumes "run_server w x u path lo = Serving s0" and "conc_trace x ([], s0) evs (ts, s)"
    and "i < length ts" and "carried (tk_phase (ts ! i)) = Some (req, rule)"
  shows "\<exists>cfg0 cfg snap. load_with_overrides w x path lo = Inr cfg0 \<and> loaded_by x path cfg0 (events_since_start u evs) cfg \<and>
    from_config x cfg = Inr snap \<and>
    resolve x snap (req_path (tk_req (ts ! i))) (req_method (tk_req (ts ! i))) (req_headers req) = Some rule"
proof -
  let ?M = "events_since_start u evs"
  obtain cfg0 where cfg0: "load_with_overrides w x path lo = Inr cfg0" "slots_loaded x path cfg0 ?M (slots_of s0)"
    using run_server_loaded [OF assms(1)] by blast
  then have "shared_loaded x path cfg0 ?M s0"
    using run_server_path [OF assms(1)] by (simp add: shared_loaded_def)
  moreover have "list_all (\<lambda>ev. ev \<in> ?M) evs"
    by (simp add: events_since_start_def list_all_iff)
  ultimately have "loaded.holds x path cfg0 ?M (ts, s)"
    using loaded.kept_trace [OF assms(2)] loaded.holds_start by blast
  from loaded.holds_task [OF this assms(3)] assms(4) cfg0(1) show ?thesis
    unfolding rule_loaded_def by blast
qed

text \<open>A request that has been routed stays under its rule.\<close>

interpretation kept: run_invariant x "\<lambda>_. True"
  "\<lambda>(ts, s). i < length ts \<and> tk_req (ts ! i) = req0 \<and> under_rule rule (tk_phase (ts ! i))" for x i req0 rule
proof
  fix ts :: "task list" and s :: server and j
  assume "case (ts, s) of (ts, s) \<Rightarrow> i < length ts \<and> tk_req (ts ! i) = req0 \<and> under_rule rule (tk_phase (ts ! i))"
  then show "case advance_task x j (ts, s) of (ts, s) \<Rightarrow> i < length ts \<and> tk_req (ts ! i) = req0 \<and> under_rule rule (tk_phase (ts ! i))"
    by (cases "i = j") (simp_all add: advance_task_eq under_rule_step)
qed (auto simp: nth_append)

text \<open>C7. A request under way keeps the rule it was routed by while the routes are exchanged.  In
  every interleaving, the rule that a request carries is the one that the compiled form of
  a single configuration, that of the start (overrides included) or one that was loaded for
  a message of the watcher in this run, resolves the request to; and whatever happens from
  then on, the request goes on with this very rule until its answer is settled, and is neither routed
  again nor answered for want of a route.\<close>

theorem in_flight_rule_kept:
  assumes "run_server w x u path lo = Serving s0" and "conc_trace x ([], s0) evs (ts, s)"
    and "i < length ts" and "carried (tk_phase (ts ! i)) = Some (req, rule)"
    and "conc_trace x (ts, s) later (ts', s')"
  shows "(\<exists>cfg0 cfg snap. load_with_overrides w x path lo = Inr cfg0 \<and>
      (cfg = cfg0 \<or> (\<exists>w' k paths fresh. FileMessage w' (WatchEvent k paths) fresh \<in> set (map as_event (su_early u) @ evs) \<and>
         relevant_event k paths path \<and> load_config w' x path = Inr cfg)) \<and>
      from_config x cfg = Inr snap \<and>
      resolve x snap (req_path (tk_req (ts ! i))) (req_method (tk_req (ts ! i))) (req_headers req) = Some rule)
    \<and> i < length ts' \<and> tk_req (ts' ! i) = tk_req (ts ! i)
    \<and> (case carried (tk_phase (ts' ! i)) of
         Some (req', rule') \<Rightarrow> rule' = rule
       | None \<Rightarrow> (\<exists>code err. tk_phase (ts' ! i) = Failing code err \<and> code \<noteq> ''no_matching_route'') \<or>
           (\<exists>resp. tk_phase (ts' ! i) = Replied resp) \<or> (\<exists>res. tk_phase (ts' ! i) = Finished res))"
proof -
  have "under_rule rule (tk_phase (ts ! i))"
    using assms(4) by (simp add: under_rule_def)
  with kept.kept_trace [OF assms(5), of i "tk_req (ts ! i)" rule] assms(3)
  have "i < length ts'" "tk_req (ts' ! i) = tk_req (ts ! i)" "under_rule rule (tk_phase (ts' ! i))"
    by (simp_all add: list_all_iff)
  moreover from this(3) have "case carried (tk_phase (ts' ! i)) of
         Some (req', rule') \<Rightarrow> rule' = rule
       | None \<Rightarrow> (\<exists>code err. tk_phase (ts' ! i) = Failing code err \<and> code \<noteq> ''no_matching_route'') \<or>
           (\<exists>resp. tk_phase (ts' ! i) = Replied resp) \<or> (\<exists>res. tk_phase (ts' ! i) = Finished res)"
    by (auto simp: under_rule_def split: option.splits phase.splits)
  ultimately show ?thesis
    using run_rule_loaded [OF assms(1-4)] unfolding loaded_by_def events_since_start_def by blast
qed

section \<open>What only a restart changes\<close>

interpretation started: task_invariant x "event_in W" "started_from u x cfg W" "\<lambda>_. True" for x u cfg W
proof
  fix s e req p
  assume "started_from u x cfg W s"
  then show "started_from u x cfg W (s\<lparr> sv_state := snd (phase_step x e req p (sv_state s)) \<rparr>)"
    using installed_phase_step [of x e req p "sv_state s"] by (simp add: started_from_def installed_eq)
qed (auto intro: started_from_step)

text \<open>Reloading exchanges routes and server settings only.  In every interleaving the registries,
  the plugin chain and the settings of the health checker are those of the configuration of
  the start, whatever the file says later, although the guide promises that changes are picked
  up without a restart and the design of the plugins that they are initialised again.\<close>

theorem restart_only_settings:
  assumes "run_server w x u path lo = Serving s0" and "conc_run x ([], s0) (ts, s)"
    and "load_with_overrides w x path lo = Inr cfg"
  shows "(\<exists>cs. build_clients (su_registry u) cfg = Inr cs \<and> same_clients cs (sv_clients s)) \<and>
    build_plugin_chain x (plugins (server cfg)) = Inr (st_plugins (sv_state s)) \<and>
    sv_health_check s = health_check (server cfg)"
proof -
  have "started_from u x cfg UNIV s0"
    using run_server_started [OF assms(1,3)] by simp
  from started.kept_run [OF assms(2) event_in_UNIV started.holds_start [OF this]]
  have "started_from u x cfg UNIV s" by (rule started.holds_shared)
  then show ?thesis by (auto simp: started_from_def)
qed

section \<open>Reloading under load\<close>

lemma advance_task_server:
  "sv_ptr (snd (advance_task x i (ts, s))) = sv_ptr s" "sv_last_ptr (snd (advance_task x i (ts, s))) = sv_last_ptr s"
  "st_router (sv_state (snd (advance_task x i (ts, s)))) = st_router (sv_state s)"
  "st_config (sv_state (snd (advance_task x i (ts, s)))) = st_config (sv_state s)"
  using installed_phase_step [of x "tk_env (ts ! i)" "tk_req (ts ! i)" "tk_phase (ts ! i)" "sv_state s"]
  by (simp_all add: advance_task_def Let_def split_beta installed_eq)

lemma ready_trace:
  "conc_trace x cs evs cs' \<Longrightarrow> apart pending evs \<Longrightarrow> ready_to_store x pending (snd cs) \<Longrightarrow>
     ready_to_store x (fold (\<lambda>ev p. pending_after p ev) evs pending) (snd cs')"
proof (induction arbitrary: pending rule: conc_trace.induct)
  case (advanced i ts s evs cs)
  then have "ready_to_store x pending (snd (advance_task x i (ts, s)))"
    by (simp add: ready_to_store_def synced_def advance_task_server)
  with advanced show ?case by simp
next
  case (ran s ev s' ts evs cs)
  then show ?case
    using ready_step [of x s ev s' pending evs] apart_pending [of pending ev evs] by simp
qed simp_all

lemma apart_tick: "apart pending evs \<Longrightarrow> apart pending (evs @ [RebuildTick])"
  by (induction pending evs rule: apart.induct) simp_all

text \<open>C5. Reloading takes effect under load.  In every interleaving of requests in flight with
  file messages, ticks and health rounds in which, from the start of the watcher on, the rebuild
  task is polled before the first message of the watcher and ticks at least once between two: after a tick the routes in use are those of the current
  configuration, provided that they compile, and every request that is routed then, however
  long it has been under way, is routed by them.\<close>

theorem reload_reaches_requests:
  assumes "run_server w x u path lo = Serving s0"
    and "conc_trace x ([], s0) (evs @ [RebuildTick]) (ts, s)" and "apart True (map as_event (su_early u) @ evs)"
    and "from_config x (st_config (sv_state s)) = Inr snap"
  shows "st_router (sv_state s) = snap \<and>
    (\<forall>i<length ts. \<forall>req. tk_phase (ts ! i) = Plugged req \<longrightarrow>
       tk_phase (fst (advance_task x i (ts, s)) ! i) =
         (case resolve x snap (req_path (tk_req (ts ! i))) (req_method (tk_req (ts ! i))) (req_headers req) of
            None \<Rightarrow> Failing ''no_matching_route'' (NoInstances (req_path (tk_req (ts ! i))))
          | Some rule \<Rightarrow> Matched req rule))"
proof -
  obtain pending where "apart pending evs" "ready_to_store x pending s0"
    using run_server_ready [OF assms(1,3)] by blast
  then have "ready_to_store x False s"
    using ready_trace [OF assms(2) apart_tick] by fastforce
  with assms(4) have "st_router (sv_state s) = snap"
    by (simp add: ready_to_store_def synced_def)
  then show ?thesis
    by (simp add: advance_task_simps split: option.split)
qed

section \<open>Fair selection under load\<close>

text \<open>The upstream a request has come to.\<close>

definition upstream_of :: "task \<Rightarrow> string option" where
  "upstream_of t = (case tk_phase t of Based req rule base \<Rightarrow> Some base | _ \<Rightarrow> None)"

definition selecting :: "string \<Rightarrow> service_instance list \<Rightarrow> task \<Rightarrow> bool" where
  "selecting svc instances t = (\<exists>req rule. tk_phase t = Resolved req rule svc instances)"

text \<open>Requests for one service that take their turns one after the other.\<close>

lemma turns_taken:
  assumes "distinct is" and "\<forall>i\<in>set is. i < length ts \<and> selecting svc instances (ts ! i)"
    and "instances \<noteq> []" and "sel = RoundRobin \<or> sel = WeightedRoundRobin"
    and "instance_selection (server (st_config (sv_state s))) = sel"
    and "fold (advance_task x) is (ts, s) = (ts', s')"
  shows "map (\<lambda>i. upstream_of (ts' ! i)) is =
      map (map_option base_url) (select_many (length is) instances svc sel (st_rr (sv_state s)) (st_health (sv_state s)))
    \<and> length ts' = length ts \<and> (\<forall>j. j \<notin> set is \<longrightarrow> ts' ! j = ts ! j)"
  using assms(1,2,5,6)
proof (induction "is" arbitrary: ts s)
  case Nil
  then show ?case by simp
next
  case (Cons i "is")
  obtain req rule where i: "i < length ts" "tk_phase (ts ! i) = Resolved req rule svc instances"
    using Cons.prems(2) by (auto simp: selecting_def)
  obtain j rr where sel: "select_service_instance 0 instances svc sel (st_rr (sv_state s)) (st_health (sv_state s)) = (j, rr)"
    by force
  let ?ts = "ts[i := (ts ! i)\<lparr> tk_phase := (case j of None \<Rightarrow> Finished None | Some k \<Rightarrow> Based req rule (base_url k)) \<rparr>]"
  let ?s = "s\<lparr> sv_state := (sv_state s)\<lparr> st_rr := rr \<rparr> \<rparr>"
  have "advance_task x i (ts, s) = (?ts, ?s)"
    using i Cons.prems(3) sel select_hash [where hash = "env_hash (tk_env (ts ! i))", OF assms(4,3)]
    by (simp add: advance_task_def Let_def)
  with Cons.prems(4) have rest: "fold (advance_task x) is (?ts, ?s) = (ts', s')"
    by simp
  have "map (\<lambda>i. upstream_of (ts' ! i)) is =
      map (map_option base_url) (select_many (length is) instances svc sel rr (st_health (sv_state s)))
    \<and> length ts' = length ?ts \<and> (\<forall>j. j \<notin> set is \<longrightarrow> ts' ! j = ?ts ! j)"
    using Cons.IH [OF _ _ _ rest] Cons.prems(1,2,3) by (auto simp: nth_list_update)
  moreover have "upstream_of (?ts ! i) = map_option base_url j"
    using i(1) by (simp add: upstream_of_def split: option.split)
  ultimately show ?case
    using Cons.prems(1) sel by (auto simp: nth_list_update)
qed

lemma image_mset_replicates:
  "image_mset f (\<Sum>i\<leftarrow>p. replicate_mset (n i) (g i)) = (\<Sum>i\<leftarrow>p. replicate_mset (n i) (f (g i)))"
  by (induction p) simp_all

text \<open>C9. Round robin stays fair under load.  When as many requests for a service as there are
  usable instances (or as the sum of their weights) are about to choose theirs, then in
  whatever order they take their turns, each usable instance is chosen once, in weighted mode
  as often as its weight.\<close>

theorem interleaved_round_robin_fair:
  assumes "\<forall>t\<in>set ts. selecting svc instances t" and "instances \<noteq> []"
    and "sel = RoundRobin \<or> sel = WeightedRoundRobin"
    and "instance_selection (server (st_config (sv_state s))) = sel"
    and "length ts = length (schedule sel (pool (st_health (sv_state s)) instances))"
    and "unat (rr_value (st_rr (sv_state s)) svc) + length ts < 2 ^ 64"
    and "mset turns = mset [0..<length ts]"
  shows "conc_run x (ts, s) (fold (advance_task x) turns (ts, s)) \<and>
    image_mset upstream_of (mset (fst (fold (advance_task x) turns (ts, s)))) =
      (\<Sum>i\<leftarrow>pool (st_health (sv_state s)) instances.
         replicate_mset (if sel = RoundRobin then 1 else unat (weight_of i)) (Some (base_url i)))"
proof -
  obtain ts' s' where run: "fold (advance_task x) turns (ts, s) = (ts', s')" by force
  have turns: "distinct turns" "set turns = {0..<length ts}" "length turns = length ts"
    using assms(7) by (metis distinct_upt mset_eq_imp_distinct_iff, metis set_mset_mset set_upt, metis mset_eq_length length_upt minus_nat.diff_0)
  then have all: "\<forall>i\<in>set turns. i < length ts \<and> selecting svc instances (ts ! i)"
    using assms(1) by simp
  note done' = turns_taken [OF turns(1) all assms(2,3,4) run]
  have "image_mset upstream_of (mset ts') = image_mset (\<lambda>i. upstream_of (ts' ! i)) (mset [0..<length ts])"
  proof -
    have "mset ts' = image_mset (\<lambda>i. ts' ! i) (mset [0..<length ts])"
      using done' by (metis map_nth mset_map)
    then show ?thesis
      by (simp add: image_mset.compositionality comp_def)
  qed
  also have "\<dots> = mset (map (\<lambda>i. upstream_of (ts' ! i)) turns)"
    by (simp add: assms(7))
  also have "\<dots> = image_mset (map_option base_url) (mset (select_many (length ts) instances svc sel
      (st_rr (sv_state s)) (st_health (sv_state s))))"
    using done' by (simp add: turns(3))
  also have "\<dots> = (\<Sum>i\<leftarrow>pool (st_health (sv_state s)) instances.
         replicate_mset (if sel = RoundRobin then 1 else unat (weight_of i)) (Some (base_url i)))"
  proof -
    have "mset (select_many (length ts) instances svc sel (st_rr (sv_state s)) (st_health (sv_state s))) =
        (\<Sum>i\<leftarrow>pool (st_health (sv_state s)) instances. replicate_mset (if sel = RoundRobin then 1 else unat (weight_of i)) (Some i))"
      by (rule select_period [OF assms(2,3,5), THEN conjunct2]) (use assms(6) in simp_all)
    then show ?thesis
      by (simp only: image_mset_replicates option.map)
  qed
  finally show ?thesis
    using advances_run [of turns ts x s] all by (simp add: run)
qed

section \<open>The breaker under load\<close>

lemma as_event_message:
  "FileMessage w msg fresh \<in> set (map as_event es @ []) \<longleftrightarrow> FileSeen w msg fresh \<in> set es"
proof -
  have "FileMessage w msg fresh = as_event ev \<longleftrightarrow> ev = FileSeen w msg fresh" for ev
    by (cases ev) auto
  then show ?thesis by (simp add: image_iff)
qed

definition breaker_notes :: "task \<Rightarrow> cb_event list" where
  "breaker_notes t = recorded (tk_env t) (tk_phase t)"

definition silent :: "server \<Rightarrow> server_event \<Rightarrow> 'a list" where
  "silent s ev = []"

lemma background_breaker: "server_step x s ev s' \<Longrightarrow> \<not> is_whole ev \<Longrightarrow> st_breaker (sv_state s') = st_breaker (sv_state s)"
  by (cases rule: server_step.cases)
     (auto simp: file_message_def rebuild_task_def split: prod.split option.split)

interpretation breaking: logged x breaker_notes silent "\<lambda>s. st_breaker (sv_state s)" cb_event_step for x
  by unfold_locales (simp_all add: breaker_notes_def silent_def breaker_step background_breaker)

text \<open>C6. The circuit breaker keeps its contract under load.  Whatever requests, reloads, ticks and
  steps of the health checker have been interleaved since the start (with fewer than
  \<open>2 ^ 32\<close> questions to and reports for the breaker), an upstream is refused iff the
  configuration that the shared state was built from enables the breaker and
  at least its threshold of exchanges with this upstream have failed since the last one that
  succeeded, the last of them less than its recovery time ago.  Other upstreams, the order of
  unrelated steps and the configurations loaded after the shared state was built have no
  influence; that configuration is the one in the slot at that moment, that of the start or one loaded for a
  message of the watcher since the watcher was started.\<close>

theorem breaker_under_load:
  assumes "run_server w x u path lo = Serving s0" and "st_config (sv_state s0) = cfg"
    and "conc_log x breaker_notes silent ([], s0) log (ts, s)" and "length log < 2 ^ 32"
  shows "(load_with_overrides w x path lo = Inr cfg \<or>
      (\<exists>w' k paths fresh. FileSeen w' (WatchEvent k paths) fresh \<in> set (su_early u) \<and>
         relevant_event k paths path \<and> load_config w' x path = Inr cfg)) \<and>
    (\<not> fst (allow now (st_breaker (sv_state s)) up) \<longleftrightarrow>
      circuit_breaker_threshold (server cfg) \<noteq> 0 \<and>
      unat (circuit_breaker_threshold (server cfg)) \<le> length (failures_since_success up log) \<and>
      saturating_sub now (last (failures_since_success up log)) < circuit_breaker_recovery_secs (server cfg))"
proof -
  obtain cfg0 where cfg0: "load_with_overrides w x path lo = Inr cfg0"
    "slots_loaded x path cfg0 (events_since_start u []) (slots_of s0)"
    using run_server_loaded [OF assms(1)] by blast
  then have "loaded_by x path cfg0 (events_since_start u []) cfg"
    using assms(2) by (auto simp: slots_loaded_def slots_of_def config_slot_of_def)
  then have loaded: "load_with_overrides w x path lo = Inr cfg \<or>
      (\<exists>w' k paths fresh. FileSeen w' (WatchEvent k paths) fresh \<in> set (su_early u) \<and>
         relevant_event k paths path \<and> load_config w' x path = Inr cfg)"
    unfolding loaded_by_def events_since_start_def as_event_message using cfg0(1) by blast
  have "st_breaker (sv_state s0) =
      circuit_breaker_new (circuit_breaker_threshold (server cfg)) (circuit_breaker_recovery_secs (server cfg))"
    using run_server_serving(4) [OF assms(1)] assms(2) by simp
  with breaking.part_run [OF assms(3)] have "st_breaker (sv_state s) = fold cb_event_step log
      (circuit_breaker_new (circuit_breaker_threshold (server cfg)) (circuit_breaker_recovery_secs (server cfg)))"
    by simp
  with loaded breaker_rejects_iff [OF assms(4)] show ?thesis by simp
qed

section \<open>A half-open breaker\<close>

text \<open>Asking the breaker changes nothing that a later question depends on.\<close>

lemma allow_unchanged:
  assumes "allow t cb u = (ok, cb')"
  shows "opened_of cb' v = opened_of cb v" and "cb_recovery_secs cb' = cb_recovery_secs cb"
  using assms by (auto simp: allow_def Let_def opened_of_def break_entry_def put_entry_def split: if_splits option.splits)

lemma admit_one:
  assumes "i < length ts" and "tk_phase (ts ! i) = Based req rule u"
    and "cb_recovery_secs (st_breaker (sv_state s)) \<le> saturating_sub (env_now (tk_env (ts ! i))) (opened_of (st_breaker (sv_state s)) u)"
  shows "\<exists>s'. conc_step x (ts, s) (ts[i := (ts ! i)\<lparr> tk_phase := Admitted req rule u \<rparr>], s') \<and>
    opened_of (st_breaker (sv_state s')) u = opened_of (st_breaker (sv_state s)) u \<and>
    cb_recovery_secs (st_breaker (sv_state s')) = cb_recovery_secs (st_breaker (sv_state s))"
proof -
  obtain ok cb where a: "allow (env_now (tk_env (ts ! i))) (st_breaker (sv_state s)) u = (ok, cb)" by force
  then have ok using assms(3) fst_allow by (metis fst_conv)
  moreover note advance [OF assms(1), of x s] allow_unchanged [OF a]
  ultimately show ?thesis
    using assms(2) a by (intro exI [of _ "s\<lparr> sv_state := (sv_state s)\<lparr> st_breaker := cb \<rparr> \<rparr>"]) (simp add: advance_task_def)
qed

text \<open>C26. The documentation of the breaker says that after the recovery time one probe request
  is let through.  In fact every request that asks before the first of them has ended is let
  through: any number of requests to an upstream whose recovery time is over can be under way
  to it at once.\<close>

theorem half_open_stampede:
  assumes "\<forall>t\<in>set ts. (\<exists>req rule. tk_phase t = Based req rule u) \<and>
    cb_recovery_secs (st_breaker (sv_state s)) \<le> saturating_sub (env_now (tk_env t)) (opened_of (st_breaker (sv_state s)) u)"
  shows "\<exists>ts' s'. conc_run x (ts, s) (ts', s') \<and> length ts' = length ts \<and>
    (\<forall>t\<in>set ts'. \<exists>req rule. tk_phase t = Admitted req rule u)"
proof -
  let ?since = "opened_of (st_breaker (sv_state s)) u" and ?rec = "cb_recovery_secs (st_breaker (sv_state s))"
  have "\<exists>ts' s'. conc_run x (ts, s) (ts', s') \<and> length ts' = length ts \<and>
      opened_of (st_breaker (sv_state s')) u = ?since \<and> cb_recovery_secs (st_breaker (sv_state s')) = ?rec \<and>
      (\<forall>i<k. \<exists>req rule. tk_phase (ts' ! i) = Admitted req rule u) \<and> (\<forall>i. k \<le> i \<and> i < length ts \<longrightarrow> ts' ! i = ts ! i)"
    if "k \<le> length ts" for k
    using that
  proof (induction k)
    case 0
    then show ?case by blast
  next
    case (Suc k)
    then obtain ts' s' where run: "conc_run x (ts, s) (ts', s')" and len: "length ts' = length ts"
      and same: "opened_of (st_breaker (sv_state s')) u = ?since" "cb_recovery_secs (st_breaker (sv_state s')) = ?rec"
      and done': "\<forall>i<k. \<exists>req rule. tk_phase (ts' ! i) = Admitted req rule u"
      and rest: "\<forall>i. k \<le> i \<and> i < length ts \<longrightarrow> ts' ! i = ts ! i"
      by auto
    have k: "k < length ts'" "ts' ! k = ts ! k" "ts ! k \<in> set ts"
      using Suc.prems len rest by auto
    with assms obtain req rule where "tk_phase (ts' ! k) = Based req rule u"
      "?rec \<le> saturating_sub (env_now (tk_env (ts' ! k))) ?since" by metis
    from admit_one [OF k(1) this(1), of s' x] this(2) same obtain s'' where
      st: "conc_step x (ts', s') (ts'[k := (ts' ! k)\<lparr> tk_phase := Admitted req rule u \<rparr>], s'')"
      and same': "opened_of (st_breaker (sv_state s'')) u = ?since" "cb_recovery_secs (st_breaker (sv_state s'')) = ?rec"
      by auto
    show ?case
      by (rule exI, rule exI, rule conjI, rule rtranclp.rtrancl_into_rtrancl [OF run st])
         (use len same' done' rest k(1) in \<open>auto simp: nth_list_update less_Suc_eq\<close>)
  qed
  from this [of "length ts"] show ?thesis
    by (metis in_set_conv_nth order_refl)
qed

section \<open>Examples\<close>

lemma arrivals_run: "conc_run x (ts, s) (ts @ map (new_task e) reqs, s)"
proof (induction reqs arbitrary: ts)
  case (Cons r reqs)
  from converse_rtranclp_into_rtranclp [where r = "conc_step x", OF arrive Cons [of "ts @ [new_task e r]"]] show ?case by simp
qed simp

text \<open>Two requests, one step of each in turn until their routes are counted.\<close>

definition example_interleaving :: "task list \<times> server" where
  "example_interleaving = fold (advance_task example_ext) [0, 1, 0, 1, 0, 1]
     ([new_task example_env example_request, new_task example_env example_request], example_server)"

lemma example_interleaving_run: "conc_run example_ext ([], example_server) example_interleaving"
proof -
  have "conc_run example_ext ([], example_server) ([new_task example_env example_request, new_task example_env example_request], example_server)"
    using arrivals_run [of example_ext "[]" example_server example_env "[example_request, example_request]"] by simp
  moreover have "conc_run example_ext ([new_task example_env example_request, new_task example_env example_request], example_server)
      example_interleaving"
    unfolding example_interleaving_def by (rule advances_run) simp
  ultimately show ?thesis by (rule rtranclp_trans)
qed

lemma example_interleaving_counts:
  "hits_of (st_metrics (sv_state (snd example_interleaving))) ''all'' = 2"
  "hits_of (st_metrics (sv_state example_server)) ''all'' = 0" "length (fst example_interleaving) = 2"
  by code_simp+

theorem interleaved_counts_witness:
  "\<exists>hits :: nat \<Rightarrow> string option. (of_nat (card {i. i < 2 \<and> hits i = Some ''all''}) :: u64) = 2"
proof -
  obtain ts s where e: "example_interleaving = (ts, s)" by force
  from interleaved_counts [OF example_interleaving_run [unfolded e]] example_interleaving_counts [unfolded e]
  show ?thesis by force
qed

theorem atomic_server_embeds_witness:
  "\<exists>ts. conc_run example_ext ([], example_server) (ts, rebuild_task example_ext
     (file_message example_ext (routes_world default_app_config) modified 1 (first_poll example_server)))"
  by (rule atomic_server_embeds [OF example_reload_run])

lemma example_interleaving_carried:
  "map_option (cr_id \<circ> snd) (carried (tk_phase (fst example_interleaving ! 0))) = Some ''all''"
  by code_simp

text \<open>The first of two requests, when its route is counted and when both have ended.\<close>

definition example_ending :: "task list \<times> server" where
  "example_ending = fold (advance_task example_ext) [0, 1, 0, 1, 0, 0, 0, 0, 0, 0, 0] example_interleaving"

lemma example_ending_finished: "case tk_phase (fst example_ending ! 0) of Finished _ \<Rightarrow> True | _ \<Rightarrow> False"
  by code_simp

theorem in_flight_rule_kept_witness:
  "\<exists>cfg snap rule. from_config example_ext cfg = Inr snap \<and> rule \<in> set (rules snap) \<and> cr_id rule = ''all'' \<and>
     (case carried (tk_phase (fst example_ending ! 0)) of Some (req', rule') \<Rightarrow> rule' = rule | None \<Rightarrow> True)"
proof -
  obtain ts s where e: "example_interleaving = (ts, s)" by force
  obtain ts' s' where e': "example_ending = (ts', s')" by force
  obtain req rule where c: "carried (tk_phase (ts ! 0)) = Some (req, rule)" "cr_id rule = ''all''"
    using example_interleaving_carried by (auto simp: e)
  have len: "length ts = 2"
    using example_interleaving_counts(3) by (simp add: e)
  obtain evs where run: "conc_trace example_ext ([], example_server) evs (ts, s)"
    using conc_run_trace [OF example_interleaving_run] by (auto simp: e)
  have later: "conc_trace example_ext (ts, s) [] (ts', s')"
    unfolding e' [symmetric] example_ending_def e by (rule advances_trace) (simp add: len)
  have "0 < length ts"
    by (simp add: len)
  from in_flight_rule_kept [OF example_run_server run this c(1) later] obtain cfg snap where
    "from_config example_ext cfg = Inr snap" "resolve example_ext snap (req_path (tk_req (ts ! 0)))
       (req_method (tk_req (ts ! 0))) (req_headers req) = Some rule"
    "case carried (tk_phase (ts' ! 0)) of Some (req', rule') \<Rightarrow> rule' = rule | None \<Rightarrow> True"
    by (auto split: option.splits)
  with c(2) resolve_member show ?thesis
    unfolding e' by fastforce
qed

theorem restart_only_settings_witness:
  "st_plugins (sv_state (snd example_interleaving)) = []"
proof -
  obtain ts s where e: "example_interleaving = (ts, s)" by force
  from restart_only_settings [OF example_run_server example_interleaving_run [unfolded e] example_load] show ?thesis
    by (simp add: e example_overridden_fields build_plugin_chain_def sort_entries_def)
qed

text \<open>What a schedule of requests notes.\<close>

primrec notes_of :: "(task \<Rightarrow> 'a list) \<Rightarrow> ext \<Rightarrow> nat list \<Rightarrow> task list \<times> server \<Rightarrow> 'a list" where
  "notes_of f x [] cs = []"
| "notes_of f x (i # is) cs = f (fst cs ! i) @ notes_of f x is (advance_task x i cs)"

lemma schedule_logged:
  assumes "\<forall>i\<in>set is. i < length (fst cs)"
  shows "conc_log x f g cs (notes_of f x is cs) (fold (advance_task x) is cs)"
  using assms
proof (induction "is" arbitrary: cs)
  case Nil
  then show ?case by (simp add: still)
next
  case (Cons i "is")
  obtain ts s where cs: "cs = (ts, s)" by force
  have "\<forall>j\<in>set is. j < length (fst (advance_task x i cs))"
    using Cons.prems by (simp add: cs advance_task_simps)
  with Cons.IH Cons.prems show ?case
    by (simp add: cs moved)
qed

definition tripping_routes :: app_config where
  "tripping_routes = example_routes\<lparr> server := default_server_config\<lparr> circuit_breaker_threshold := 1 \<rparr> \<rparr>"

definition tripping_overridden :: app_config where
  "tripping_overridden = example_overridden\<lparr> server := default_server_config\<lparr> circuit_breaker_threshold := 1 \<rparr> \<rparr>"

definition tripping_server :: server where
  "tripping_server = example_server\<lparr> sv_state := app_state_new (st_router (sv_state example_server))
     (resolver_new [] Priority) tripping_overridden default_metrics \<rparr>"

lemma tripping_reads_back: "reads_back tripping_routes"
  by (simp add: reads_back_simps tripping_routes_def example_routes_def example_route_def)

lemma tripping_load: "load_with_overrides (routes_world tripping_routes) x ''c'' (Some ''o'') = Inr tripping_overridden"
proof -
  have "load_config (routes_world tripping_routes) x ''c'' = Inr tripping_routes"
    unfolding load_routes_world [OF tripping_reads_back]
    by (simp add: validate_config_def tripping_routes_def example_routes_def example_route_def)
  then show ?thesis
    by (simp add: load_with_overrides_def example_overrides tripping_overridden_def tripping_routes_def
        example_overridden_def apply_local_overrides_def)
qed

lemma tripping_run_server:
  "run_server (routes_world tripping_routes) example_ext example_startup ''c'' (Some ''o'') = Serving tripping_server"
proof -
  have "from_config example_ext tripping_overridden = Inr (st_router (sv_state example_server))"
    by code_simp
  moreover have "registries tripping_overridden = \<lparr> query_mode = Priority, sources = [] \<rparr>"
    "server tripping_overridden = default_server_config\<lparr> circuit_breaker_threshold := 1 \<rparr>"
    by (simp_all add: tripping_overridden_def example_overridden_fields)
  ultimately show ?thesis
    unfolding run_server_def tripping_load sum.case
    by (simp add: build_resolver_none clients_of_none build_plugin_chain_def sort_entries_def default_server_config_def
        example_startup_def tripping_server_def example_server_def app_state_new_def)
qed

lemma tripping_notes:
  "notes_of breaker_notes example_ext (replicate 8 0) ([new_task example_env example_request], tripping_server) =
     [Asked 0 ''http://localhost'', cb_event.Failed 0 ''http://localhost'']"
  by code_simp

text \<open>One request whose only exchange fails, up to the answer: the breaker is open for 30 seconds.\<close>

theorem breaker_under_load_witness:
  "\<not> fst (allow 29 (st_breaker (sv_state (snd (fold (advance_task example_ext) (replicate 8 0)
     ([new_task example_env example_request], tripping_server))))) ''http://localhost'')"
proof -
  let ?start = "([new_task example_env example_request], tripping_server)"
  obtain ts s where e: "fold (advance_task example_ext) (replicate 8 0) ?start = (ts, s)" by force
  have "conc_log example_ext breaker_notes silent ?start
      (notes_of breaker_notes example_ext (replicate 8 0) ?start) (ts, s)"
    unfolding e [symmetric] by (rule schedule_logged) simp
  then have log: "conc_log example_ext breaker_notes silent ([], tripping_server)
      [Asked 0 ''http://localhost'', cb_event.Failed 0 ''http://localhost''] (ts, s)"
    unfolding tripping_notes by (intro came [where ts = "[]" and e = example_env and req = example_request]) simp
  have "circuit_breaker_threshold (server tripping_overridden) = 1"
    "circuit_breaker_recovery_secs (server tripping_overridden) = 30"
    by (simp_all add: tripping_overridden_def default_server_config_def)
  then show ?thesis
    using breaker_under_load [OF tripping_run_server _ log, of tripping_overridden 29 "''http://localhost''"]
    unfolding e by (simp add: failures_since_success_def saturating_sub_def tripping_server_def app_state_new_def)
qed

definition half_open_server :: server where
  "half_open_server = example_server\<lparr> sv_state := (sv_state example_server)\<lparr> st_breaker :=
     Breaker.record_failure 0 (circuit_breaker_new 1 30) ''http://u'' \<rparr> \<rparr>"

theorem half_open_stampede_witness:
  "\<exists>ts' s'. length ts' = 1000 \<and> (\<forall>t\<in>set ts'. \<exists>req rule. tk_phase t = Admitted req rule ''http://u'')
     \<and> conc_run example_ext (replicate 1000 \<lparr> tk_env = example_env\<lparr> env_now := 30 \<rparr>, tk_req = example_request,
          tk_phase = Based example_request example_rule ''http://u'' \<rparr>, half_open_server) (ts', s')"
proof -
  have "cb_recovery_secs (st_breaker (sv_state half_open_server)) \<le>
      saturating_sub 30 (opened_of (st_breaker (sv_state half_open_server)) ''http://u'')"
    by code_simp
  then show ?thesis
    using half_open_stampede [where x = example_ext and s = half_open_server and u = "''http://u''" and
        ts = "replicate 1000 \<lparr> tk_env = example_env\<lparr> env_now := 30 \<rparr>, tk_req = example_request,
          tk_phase = Based example_request example_rule ''http://u'' \<rparr>"]
    by force
qed

text \<open>A request that has passed the plugins when the file is changed to one without routes.\<close>

lemma example_plugged:
  "conc_trace example_ext ([], example_server) [TaskStart, FileMessage (routes_world default_app_config) modified 1, RebuildTick]
     ([(new_task example_env example_request)\<lparr> tk_phase := Plugged example_request \<rparr>],
      rebuild_task example_ext (file_message example_ext (routes_world default_app_config) modified 1 (first_poll example_server)))"
proof -
  have "phase_step example_ext example_env example_request Arrived (sv_state example_server)
      = (Plugged example_request, sv_state example_server)"
    by (simp add: example_server_def app_state_new_def)
  then have a: "advance_task example_ext 0 ([new_task example_env example_request], example_server) =
      ([(new_task example_env example_request)\<lparr> tk_phase := Plugged example_request \<rparr>], example_server)"
    by (simp add: advance_task_def new_task_def)
  from background_trace [OF example_reload_run]
  have "conc_trace example_ext (advance_task example_ext 0 ([new_task example_env example_request], example_server))
      [TaskStart, FileMessage (routes_world default_app_config) modified 1, RebuildTick]
      ([(new_task example_env example_request)\<lparr> tk_phase := Plugged example_request \<rparr>], rebuild_task example_ext
         (file_message example_ext (routes_world default_app_config) modified 1 (first_poll example_server)))"
    unfolding a by simp
  then show ?thesis
    by (intro conc_trace.arrived [of _ "[]"]) (auto intro: conc_trace.advanced [of 0])
qed

theorem reload_reaches_requests_witness:
  "\<exists>s :: server. st_router (sv_state s) = \<lparr> rules = [] \<rparr> \<and>
     tk_phase (fst (advance_task example_ext 0 ([(new_task example_env example_request)\<lparr> tk_phase := Plugged example_request \<rparr>], s)) ! 0)
       = Failing ''no_matching_route'' (NoInstances ''/'')"
proof -
  let ?s = "rebuild_task example_ext (file_message example_ext (routes_world default_app_config) modified 1 (first_poll example_server))"
  have "from_config example_ext (st_config (sv_state ?s)) = Inr \<lparr> rules = [] \<rparr>"
    by (simp add: file_message_store modified_def relevant_modified load_default compile_default example_server_def)
  moreover have "resolve example_ext \<lparr> rules = [] \<rparr> p m hs = None" for p m hs
    by (simp add: resolve_def)
  moreover have "req_path example_request = ''/''"
    by (simp add: example_request_def)
  ultimately show ?thesis
    using reload_reaches_requests [OF example_run_server, of "[TaskStart, FileMessage (routes_world default_app_config) modified 1]"
        "[(new_task example_env example_request)\<lparr> tk_phase := Plugged example_request \<rparr>]" ?s "\<lparr> rules = [] \<rparr>"] example_plugged
    by (intro exI [of _ ?s]) (simp add: new_task_def example_startup_def)
qed

definition round_robin_server :: server where
  "round_robin_server = example_server\<lparr> sv_state := (sv_state example_server)\<lparr> st_config :=
     default_app_config\<lparr> server := default_server_config\<lparr> instance_selection := RoundRobin \<rparr> \<rparr>, st_rr := Map.empty,
     st_health := health_status_new \<rparr> \<rparr>"

theorem interleaved_round_robin_fair_witness:
  "\<exists>ts :: task list. image_mset upstream_of (mset ts) =
     {# Some (base_url (example_instance ''a'' ''1'')), Some (base_url (example_instance ''b'' ''1'')) #}"
proof -
  let ?is = "[example_instance ''a'' ''1'', example_instance ''b'' ''1'']"
  let ?ts = "replicate 2 ((new_task example_env example_request)\<lparr> tk_phase := Resolved example_request example_rule ''svc'' ?is \<rparr>)"
  have state: "st_health (sv_state round_robin_server) = health_status_new" "st_rr (sv_state round_robin_server) = Map.empty"
    "instance_selection (server (st_config (sv_state round_robin_server))) = RoundRobin"
    by (simp_all add: round_robin_server_def)
  have "pool health_status_new ?is = ?is"
    by (simp add: pool_def is_healthy_def health_status_new_def)
  moreover have "mset [1, 0] = mset [0..<length ?ts]"
    by (simp add: numeral_2_eq_2)
  moreover have "\<forall>t\<in>set ?ts. selecting ''svc'' ?is t"
    by (auto simp: selecting_def)
  ultimately have "image_mset upstream_of (mset (fst (fold (advance_task example_ext) [1, 0] (?ts, round_robin_server)))) =
      (\<Sum>i\<leftarrow>?is. replicate_mset 1 (Some (base_url i)))"
    using interleaved_round_robin_fair [of ?ts "''svc''" ?is RoundRobin round_robin_server "[1, 0]" example_ext]
    by (simp add: state rr_value_def)
  then show ?thesis
    by (intro exI) (simp add: add_mset_commute)
qed

end
