(* ===== verification/Upstreams.thy ===== *)
theory Upstreams
  imports Concurrent
begin

text \<open>
  Where requests go.  In every interleaving, a request that has an upstream holds the address
  written in its rule or the address of an instance of the rule's service that the backend of a
  configured registry listed as usable, in one of the states of the outside world that the
  server has seen.  This ties the registries (\<open>Factory\<close>), the choice of an instance
  (\<open>Selection\<close>) and the requests in flight (\<open>InFlight\<close>) together; it is one more
  interpretation of \<open>task_invariant\<close>.
\<close>

section \<open>Usable instances\<close>

text \<open>The registries that the configuration of the start names, with whatever tokens, in the
  worlds \<open>W\<close>.\<close>

definition usable :: "startup_ext \<Rightarrow> app_config \<Rightarrow> registry_ext set \<Rightarrow> string \<Rightarrow> service_instance \<Rightarrow> bool" where
  "usable u cfg W svc i =
     (\<exists>source\<in>set (sources (registries cfg)). \<exists>c c'.
        build_client (su_registry u) (upstream_timeout_secs (server cfg)) source = Inr c \<and>
        same_settings c c' \<and> (\<exists>rx\<in>W. client_lists rx c' svc i))"

definition upstream_ok :: "(string \<Rightarrow> service_instance \<Rightarrow> bool) \<Rightarrow> compiled_rule \<Rightarrow> string \<Rightarrow> bool" where
  "upstream_ok ok rule base =
     (cr_upstream_url rule = Some base \<or>
      cr_upstream_url rule = None \<and>
        (\<exists>svc i. cr_service_id rule = Some svc \<and> ok svc i \<and> base = base_url i))"

lemma same_clients_member:
  assumes "same_clients cs cs'" and "(p, c') \<in> set cs'"
  shows "\<exists>c. (p, c) \<in> set cs \<and> same_settings c c'"
  using assms unfolding same_clients_def by (induction rule: list_all2_induct) auto

lemma resolved_usable:
  assumes "started_from u x cfg W s" and "resolve_service (st_resolver (sv_state s)) svc = Inr insts"
    and "i \<in> set insts"
  shows "usable u cfg W svc i"
proof -
  obtain cs rx where cs: "build_clients (su_registry u) cfg = Inr cs" "same_clients cs (sv_clients s)"
    and rx: "rx \<in> W" "st_resolver (sv_state s) = resolver_at rx (query_mode (registries cfg)) (sv_clients s)"
    using assms(1) unfolding started_from_def by blast
  obtain p c' where c': "(p, c') \<in> set (sv_clients s)" "client_lists rx c' svc i"
    using resolver_at_sound [OF assms(2) [unfolded rx(2)] assms(3)] by blast
  then obtain c where c: "(p, c) \<in> set cs" "same_settings c c'"
    using same_clients_member [OF cs(2)] by blast
  with built_client_source [OF cs(1) c(1)] c'(2) rx(1) show ?thesis
    unfolding usable_def by blast
qed

section \<open>The upstream of a phase\<close>

fun target :: "phase \<Rightarrow> (compiled_rule \<times> string) option" where
  "target (Based req rule base) = Some (rule, base)"
| "target (Admitted req rule base) = Some (rule, base)"
| "target (Upgrading req rule base) = Some (rule, base)"
| "target (Once req rule base) = Some (rule, base)"
| "target (Trying req rule base attempt left) = Some (rule, base)"
| "target (Heard req rule base attempt left res) = Some (rule, base)"
| "target _ = None"

text \<open>Before the choice: the instances the resolver answered.\<close>

fun candidates :: "phase \<Rightarrow> (compiled_rule \<times> string \<times> service_instance list) option" where
  "candidates (Resolved req rule svc insts) = Some (rule, svc, insts)"
| "candidates _ = None"

definition on_target :: "(string \<Rightarrow> service_instance \<Rightarrow> bool) \<Rightarrow> phase \<Rightarrow> bool" where
  "on_target ok p =
     ((\<forall>rule base. target p = Some (rule, base) \<longrightarrow> upstream_ok ok rule base) \<and>
      (\<forall>rule svc insts. candidates p = Some (rule, svc, insts) \<longrightarrow>
         cr_upstream_url rule = None \<and> cr_service_id rule = Some svc \<and> insts \<noteq> [] \<and> (\<forall>i\<in>set insts. ok svc i)))"

lemma target_settled [simp]: "target (settled res) = None" "candidates (settled res) = None"
  by (simp_all add: settled_def split: sum.split)

lemma target_start [simp]:
  "target (start_exchange x req rule base st) \<in> {None, Some (rule, base)}"
  "candidates (start_exchange x req rule base st) = None"
  by (auto simp: start_exchange_def Let_def split: sum.split)

lemma on_target_choose:
  assumes "\<And>svc insts i. resolve_service (st_resolver st) svc = Inr insts \<Longrightarrow> i \<in> set insts \<Longrightarrow> ok svc i"
  shows "on_target ok (choose_upstream req rule path st)"
  using assms by (auto simp: choose_upstream_def on_target_def upstream_ok_def split: option.split sum.split)

lemma on_target_step:
  assumes "on_target ok p"
    and "\<And>svc insts i. resolve_service (st_resolver st) svc = Inr insts \<Longrightarrow> i \<in> set insts \<Longrightarrow> ok svc i"
  shows "on_target ok (fst (phase_step x e req0 p st))"
proof (cases p)
  case (Counted req rule)
  then show ?thesis using on_target_choose [OF assms(2)] by simp
next
  case (Resolved req rule svc insts)
  with assms(1) show ?thesis
    using selected_in [of insts "env_hash e" svc "instance_selection (server (st_config st))" "st_rr st" "st_health st"]
    by (auto simp: on_target_def upstream_ok_def split: prod.split option.split)
next
  case (Admitted req rule base)
  with assms(1) show ?thesis
    using target_start(1) [of x req rule base st] by (auto simp: on_target_def)
qed (use assms(1) in \<open>auto simp: on_target_def Let_def
    split: sum.split option.split request_action.split prod.split\<close>)

interpretation aimed: task_invariant x "event_in W" "started_from u x cfg W"
  "\<lambda>t. on_target (usable u cfg W) (tk_phase t)" for x u cfg W
proof
  fix s t
  assume "started_from u x cfg W s" "on_target (usable u cfg W) (tk_phase t)"
  then show "on_target (usable u cfg W)
      (tk_phase (t\<lparr> tk_phase := fst (phase_step x (tk_env t) (tk_req t) (tk_phase t) (sv_state s)) \<rparr>))"
    using on_target_step resolved_usable by simp
qed (auto intro: started.shared started.background simp: new_task_def on_target_def)

text \<open>C12. No request is sent anywhere else.  At any point of any interleaving of requests,
  reloads, health rounds and changes of the registries, the base URL that a request holds is
  the \<^verbatim>\<open>upstream_url\<close> of its rule or, when the rule has none, the address of an
  instance of the rule's service which the backend of a registry of the configuration of the
  start listed as usable in a state of the outside world that the server has seen: a healthy
  Nacos host, an \<^verbatim>\<open>UP\<close> Eureka instance, a ready and allowed Kubernetes address and
  port, or a mock entry.\<close>

theorem upstreams_legitimate:
  assumes "run_server w x u path lo = Serving s0" and "load_with_overrides w x path lo = Inr cfg"
    and "conc_trace x ([], s0) evs (ts, s)" and "i < length ts"
    and "target (tk_phase (ts ! i)) = Some (rule, base)"
  shows "upstream_ok (usable u cfg (worlds_seen u evs)) rule base"
proof -
  let ?W = "worlds_seen u evs"
  have "aimed.holds u x cfg ?W ([], s0)"
    using run_server_started [OF assms(1,2) start_world] by (rule aimed.holds_start)
  from aimed.kept_trace [OF assms(3) events_in_worlds this] assms(4)
  have "on_target (usable u cfg ?W) (tk_phase (ts ! i))" by (rule aimed.holds_task)
  with assms(5) show ?thesis by (simp add: on_target_def)
qed

section \<open>Example\<close>

text \<open>One route to a service of a mock registry.\<close>

definition mocked_routes :: app_config where
  "mocked_routes = default_app_config\<lparr> registries := \<lparr> query_mode = Merge, sources = [Model.Mock example_mock] \<rparr>,
     routes := [(example_route ''all'' ''/'' 20)\<lparr> rule_service_id := Some ''svc'', rule_upstream_url := None \<rparr>] \<rparr>"

definition mocked_server :: server where
  "mocked_server = \<lparr> sv_path = ''c'', sv_ptr = 0, sv_last_ptr = None, sv_health_check = None, sv_checker = Resting,
     sv_clients = [(1, MockClient example_mock)],
     sv_state = app_state_new
       \<lparr> rules = [(example_compiled ''all'' ''/'' 20)\<lparr> cr_service_id := Some ''svc'', cr_upstream_url := None \<rparr>] \<rparr>
       (resolver_new [(1, mock_registry example_mock)] Merge) mocked_routes default_metrics \<rparr>"

lemma mocked_reads_back: "reads_back mocked_routes"
  by (simp add: reads_back_simps norm_instance_def mocked_routes_def example_route_def example_mock_def)

lemma mocked_load: "load_with_overrides (routes_world mocked_routes) x ''c'' None = Inr mocked_routes"
  by (simp add: load_with_overrides_def load_routes_world [OF mocked_reads_back])
     (simp add: validate_config_def mocked_routes_def example_route_def)

lemma mocked_clients: "build_clients rx mocked_routes = Inr [(1, MockClient example_mock)]"
  by (simp add: build_clients_def mocked_routes_def example_mock_def)

lemma mocked_run_server:
  "run_server (routes_world mocked_routes) example_ext example_startup ''c'' None = Serving mocked_server"
proof -
  have "from_config example_ext mocked_routes = Inr (st_router (sv_state mocked_server))"
    by code_simp
  then show ?thesis
    unfolding run_server_def mocked_load sum.case build_resolver_def clients_of_def mocked_clients
    by (simp add: resolver_at_def build_plugin_chain_def sort_entries_def example_startup_def mocked_server_def
        app_state_new_def mocked_routes_def default_app_config_def default_server_config_def)
qed

definition mocked_run :: "task list \<times> server" where
  "mocked_run = fold (advance_task example_ext) [0, 0, 0, 0, 0] ([new_task example_env example_request], mocked_server)"

lemma mocked_run_target:
  "map_option snd (target (tk_phase (fst mocked_run ! 0))) = Some ''http://h:80''"
  "map_option (cr_upstream_url \<circ> fst) (target (tk_phase (fst mocked_run ! 0))) = Some None"
  "map_option (cr_service_id \<circ> fst) (target (tk_phase (fst mocked_run ! 0))) = Some (Some ''svc'')"
  "length (fst mocked_run) = 1"
  by code_simp+

text \<open>The outside world changes between the start and the request.\<close>

lemma mocked_trace:
  "conc_trace example_ext ([], mocked_server) [Backends rx [(1, MockClient example_mock)]] mocked_run"
proof -
  have same: "new_view rx [(1, MockClient example_mock)] mocked_server = mocked_server"
    by (simp add: new_view_def mocked_server_def resolver_at_def app_state_new_def resolver_new_def)
  have "server_step example_ext mocked_server (Backends rx [(1, MockClient example_mock)])
      (new_view rx [(1, MockClient example_mock)] mocked_server)"
    by (rule server_step.backends) (simp add: clients_move_def mocked_server_def)
  moreover have "conc_trace example_ext ([new_task example_env example_request], mocked_server) [] mocked_run"
    unfolding mocked_run_def by (rule advances_trace) simp
  ultimately show ?thesis
    unfolding same by (intro ran arrived [where ts = "[]" and e = example_env and req = example_request]) simp_all
qed

theorem upstreams_legitimate_witness:
  "\<exists>i. usable example_startup mocked_routes (worlds_seen example_startup
      [Backends example_registry_ext [(1, MockClient example_mock)]]) ''svc'' i \<and> base_url i = ''http://h:80''"
proof -
  obtain ts s where e: "mocked_run = (ts, s)" by force
  obtain rule where t: "target (tk_phase (ts ! 0)) = Some (rule, ''http://h:80'')"
    "cr_upstream_url rule = None" "cr_service_id rule = Some ''svc''"
    using mocked_run_target by (auto simp: e)
  have "0 < length ts"
    using mocked_run_target(4) by (simp add: e)
  from upstreams_legitimate [OF mocked_run_server mocked_load mocked_trace [unfolded e] this t(1)] t(2,3)
  show ?thesis unfolding upstream_ok_def by auto metis
qed

end
