(* ===== verification/Probes.thy ===== *)
theory Probes
  imports Upstreams
begin

text \<open>
  The health checker among requests.  The probing task takes its steps
  (\<open>Health.checker_step\<close>) between those of requests, of the watcher and of the
  rebuild task; every outcome it records is noted in the log of the run.  The hysteresis that
  theory \<open>Health\<close> shows for the status alone then holds of the running server, and the
  choice of an instance (\<open>Selection\<close>) is one by the probes of the run.
\<close>

section \<open>The log of the probes\<close>

fun health_notes :: "server \<Rightarrow> server_event \<Rightarrow> (string \<times> bool) list" where
  "health_notes s (HealthStep get_ok) =
     (case sv_health_check s of None \<Rightarrow> [] | Some hc \<Rightarrow> probed hc get_ok (sv_checker s))"
| "health_notes s _ = []"

definition quiet :: "task \<Rightarrow> 'a list" where
  "quiet t = []"

text \<open>The settings of the checker and the status that it keeps.\<close>

definition health_part :: "server \<Rightarrow> health_check_config option \<times> health_status" where
  "health_part s = (sv_health_check s, st_health (sv_state s))"

definition note_probe ::
  "string \<times> bool \<Rightarrow> health_check_config option \<times> health_status \<Rightarrow> health_check_config option \<times> health_status" where
  "note_probe e = (\<lambda>(hc, st). (hc, case hc of None \<Rightarrow> st | Some c \<Rightarrow> record_probe c e st))"

lemma note_probes: "fold note_probe es (Some c, st) = (Some c, fold (record_probe c) es st)"
  by (induction es arbitrary: st) (simp_all add: note_probe_def)

lemma unprobed: "fold note_probe es (None, st) = (None, st)"
  by (induction es) (simp_all add: note_probe_def)

lemma health_phase_step [simp]: "st_health (snd (phase_step x e req p st)) = st_health st"
  by (cases p; simp add: Let_def count_failure_def count_hit_def
      split: sum.split option.split request_action.split prod.split)

interpretation probing: logged x quiet health_notes health_part note_probe for x
proof
  fix s t
  show "health_part (s\<lparr> sv_state := snd (phase_step x (tk_env t) (tk_req t) (tk_phase t) (sv_state s)) \<rparr>) =
      fold note_probe (quiet t) (health_part s)"
    by (simp add: health_part_def quiet_def)
next
  fix s ev s'
  assume "server_step x s ev s'" "\<not> is_whole ev"
  then show "health_part s' = fold note_probe (health_notes s ev) (health_part s)"
  proof (cases rule: server_step.cases)
    case (check hc get_ok)
    then show ?thesis
      by (simp add: health_part_def health_task_eq Let_def note_probes checker_records)
  qed (auto simp: health_part_def file_message_def rebuild_task_def new_view_def split: prod.split option.split)
qed

text \<open>What the probes of a run say of a host; without a health checker every host is up.\<close>

definition host_up :: "health_check_config option \<Rightarrow> (string \<times> bool) list \<Rightarrow> string \<Rightarrow> bool" where
  "host_up hc probes key =
     (case hc of
        None \<Rightarrow> True
      | Some c \<Rightarrow> \<not> down (unat (hc_unhealthy_threshold c)) (unat (hc_healthy_threshold c)) (history key probes))"

lemma logged_health:
  assumes "run_server w x u path lo = Serving s0" and "load_with_overrides w x path lo = Inr cfg"
    and "conc_log x quiet health_notes ([], s0) probes (ts, s)" and "length probes < 2 ^ 32"
  shows "is_healthy (st_health (sv_state s)) key \<longleftrightarrow> host_up (health_check (server cfg)) probes key"
proof -
  have start: "health_part s0 = (health_check (server cfg), health_status_new)"
    using run_server_serving [OF assms(1)] assms(2) by (auto simp: health_part_def)
  note fin = probing.part_run [OF assms(3), unfolded snd_conv start]
  show ?thesis
  proof (cases "health_check (server cfg)")
    case None
    with fin have "st_health (sv_state s) = health_status_new"
      by (simp add: unprobed) (simp add: health_part_def)
    with None show ?thesis by (simp add: host_up_def is_healthy_def health_status_new_def)
  next
    case (Some c)
    with fin have "st_health (sv_state s) = fold (record_probe c) probes health_status_new"
      by (simp add: note_probes) (simp add: health_part_def)
    with Some health_hysteresis [OF assms(4), of c key] show ?thesis
      by (simp add: host_up_def down_def)
  qed
qed

text \<open>C23. The health status is a hysteresis on the probe history of each host in every interleaving
  of requests, reloads, changes of the registries and steps of the health checker since the
  start: a host counts as unhealthy exactly if at some point
  \<^verbatim>\<open>unhealthy_threshold\<close> probes of it in a row had failed and at no point since then
  had \<^verbatim>\<open>healthy_threshold\<close> probes in a row succeeded, the thresholds being those of
  the configuration of the start (zero acts as one; fewer than \<open>2 ^ 32\<close> probes, the
  range of the counters).\<close>

theorem health_under_load:
  assumes "run_server w x u path lo = Serving s0" and "load_with_overrides w x path lo = Inr cfg"
    and "health_check (server cfg) = Some c"
    and "conc_log x quiet health_notes ([], s0) probes (ts, s)" and "length probes < 2 ^ 32"
  shows "is_healthy (st_health (sv_state s)) key \<longleftrightarrow>
    \<not> (\<exists>a b. history key probes = a @ b
         \<and> max 1 (unat (hc_unhealthy_threshold c)) \<le> trailing False a
         \<and> (\<forall>r. prefix r b \<longrightarrow> trailing True (a @ r) < max 1 (unat (hc_healthy_threshold c))))"
  using logged_health [OF assms(1,2,4,5), of key] by (simp add: host_up_def down_def assms(3))

section \<open>The choice of an instance\<close>

lemma run_candidates:
  assumes "run_server w x u path lo = Serving s0" and "load_with_overrides w x path lo = Inr cfg"
    and "conc_run x ([], s0) (ts, s)" and "i < length ts"
    and "tk_phase (ts ! i) = Resolved req rule svc insts"
  shows "insts \<noteq> []"
proof -
  have "aimed.holds u x cfg UNIV ([], s0)"
    using run_server_started [OF assms(1,2) UNIV_I] by (rule aimed.holds_start)
  from aimed.kept_run [OF assms(3) event_in_UNIV this] assms(4)
  have "on_target (usable u cfg UNIV) (tk_phase (ts ! i))" by (rule aimed.holds_task)
  with assms(5) show ?thesis by (simp add: on_target_def)
qed

text \<open>C8. A request for a service goes to an instance that the resolver answered, and to one whose
  probes so far do not say that it is down whenever there is one; with none all of them are
  used.  This holds in every interleaving with reloads, other requests and the health checker.
  Choosing never panics, except in weighted mode when the sum of the weights wraps to zero.\<close>

theorem choice_under_load:
  assumes "run_server w x u path lo = Serving s0" and "load_with_overrides w x path lo = Inr cfg"
    and "conc_log x quiet health_notes ([], s0) probes (ts, s)" and "length probes < 2 ^ 32"
    and "i < length ts" and "tk_phase (ts ! i) = Resolved req rule svc insts"
  shows "case tk_phase (fst (advance_task x i (ts, s)) ! i) of
      Based req' rule' base \<Rightarrow> req' = req \<and> rule' = rule \<and>
        (\<exists>inst\<in>set insts. base = base_url inst \<and>
           (host_up (health_check (server cfg)) probes (instance_host_port inst) \<or>
            (\<forall>j\<in>set insts. \<not> host_up (health_check (server cfg)) probes (instance_host_port j))))
    | Finished res \<Rightarrow> res = None \<and>
        instance_selection (server (st_config (sv_state s))) = WeightedRoundRobin \<and>
        sum_list (map weight_of (pool (st_health (sv_state s)) insts)) = 0
    | _ \<Rightarrow> False"
proof -
  have "insts \<noteq> []"
    using run_candidates [OF assms(1,2) run_if_conc_log [OF assms(3)] assms(5,6)] .
  note choice = select_member [OF this, where hash = "env_hash (tk_env (ts ! i))" and svc = svc and
    sel = "instance_selection (server (st_config (sv_state s)))" and rr = "st_rr (sv_state s)" and st = "st_health (sv_state s)"]
  show ?thesis
    using choice assms(5) by (auto simp: advance_task_simps assms(6) logged_health [OF assms(1-4)] split: option.splits prod.splits)
qed

section \<open>Example\<close>

text \<open>A request waits while two rounds find that the first of two instances does not answer.\<close>

definition pair_mock :: mock_registry_config where
  "pair_mock = example_mock\<lparr> mc_services := [(''svc'',
     [\<lparr> mi_host = ''a'', mi_port = 80, mi_metadata = [] \<rparr>, \<lparr> mi_host = ''b'', mi_port = 80, mi_metadata = [] \<rparr>])] \<rparr>"

definition checked_routes :: app_config where
  "checked_routes = mocked_routes\<lparr> registries := \<lparr> query_mode = Merge, sources = [Model.Mock pair_mock] \<rparr>,
     server := default_server_config\<lparr> health_check := Some example_health_config \<rparr> \<rparr>"

definition checked_server :: server where
  "checked_server = mocked_server\<lparr> sv_health_check := Some example_health_config,
     sv_clients := [(1, MockClient pair_mock)],
     sv_state := app_state_new (st_router (sv_state mocked_server)) (resolver_new [(1, mock_registry pair_mock)] Merge)
       checked_routes default_metrics \<rparr>"

lemma checked_reads_back: "reads_back checked_routes"
  by (simp add: reads_back_simps norm_instance_def checked_routes_def mocked_routes_def example_route_def
      pair_mock_def example_mock_def)

lemma checked_load: "load_with_overrides (routes_world checked_routes) x ''c'' None = Inr checked_routes"
  by (simp add: load_with_overrides_def load_routes_world [OF checked_reads_back])
     (simp add: validate_config_def checked_routes_def mocked_routes_def example_route_def)

lemma checked_clients: "build_clients rx checked_routes = Inr [(1, MockClient pair_mock)]"
  by (simp add: build_clients_def checked_routes_def pair_mock_def example_mock_def)

lemma checked_run_server:
  "run_server (routes_world checked_routes) example_ext example_startup ''c'' None = Serving checked_server"
proof -
  have "from_config example_ext checked_routes = Inr (st_router (sv_state mocked_server))"
    by code_simp
  then show ?thesis
    unfolding run_server_def checked_load sum.case build_resolver_def clients_of_def checked_clients
    by (simp add: resolver_at_def build_plugin_chain_def sort_entries_def example_startup_def checked_server_def
        mocked_server_def app_state_new_def checked_routes_def mocked_routes_def default_app_config_def default_server_config_def)
qed

primrec checks_notes :: "health_check_config \<Rightarrow> (string \<Rightarrow> bool) \<Rightarrow> nat \<Rightarrow> server \<Rightarrow> (string \<times> bool) list" where
  "checks_notes c get_ok 0 s = []"
| "checks_notes c get_ok (Suc n) s = probed c get_ok (sv_checker s) @ checks_notes c get_ok n (health_task c get_ok s)"

lemma checks_logged:
  "sv_health_check s = Some c \<Longrightarrow>
     conc_log x quiet health_notes (ts, s) (checks_notes c get_ok n s) (ts, (health_task c get_ok ^^ n) s)"
proof (induction n arbitrary: s)
  case 0
  then show ?case by (simp add: still)
next
  case (Suc n)
  from Suc.prems have "server_step x s (HealthStep get_ok) (health_task c get_ok s)"
    by (rule server_step.check)
  from passed [OF this _ Suc.IH] Suc.prems show ?case
    by (simp add: funpow_swap1)
qed

definition only_b :: "string \<Rightarrow> bool" where
  "only_b url = (url = ''http://b:80/health'')"

definition waiting :: "task list \<times> server" where
  "waiting = fold (advance_task example_ext) [0, 0, 0, 0] ([new_task example_env example_request], checked_server)"

definition probed_server :: server where
  "probed_server = (health_task example_health_config only_b ^^ 10) (snd waiting)"

abbreviation two_rounds :: "(string \<times> bool) list" where
  "two_rounds \<equiv> [(''a:80'', False), (''b:80'', True), (''a:80'', False), (''b:80'', True)]"

lemma waiting_notes: "checks_notes example_health_config only_b 10 (snd waiting) = two_rounds"
  by code_simp

lemma waiting_phase:
  "map_option (\<lambda>(rule, svc, insts). map instance_host_port insts) (candidates (tk_phase (fst waiting ! 0))) = Some [''a:80'', ''b:80'']"
  "map_option (\<lambda>(rule, svc, insts). map base_url insts) (candidates (tk_phase (fst waiting ! 0))) = Some [''http://a:80'', ''http://b:80'']"
  "instance_selection (server (st_config (sv_state (snd waiting)))) = First" "length (fst waiting) = 1"
  by code_simp+

lemma waiting_log: "conc_log example_ext quiet health_notes ([], checked_server) two_rounds (fst waiting, probed_server)"
proof -
  have "sv_health_check (snd (fold (advance_task example_ext) is (ts, s))) = sv_health_check s" for "is" ts s
    by (induction "is" arbitrary: ts s) (simp_all add: advance_task_eq)
  then have "sv_health_check (snd waiting) = Some example_health_config"
    by (simp only: waiting_def) (simp add: checked_server_def)
  from checks_logged [OF this, of example_ext "fst waiting" only_b 10]
  have checks: "conc_log example_ext quiet health_notes waiting two_rounds (fst waiting, probed_server)"
    by (simp only: waiting_notes probed_server_def prod.collapse)
  have "conc_log example_ext quiet health_notes ([new_task example_env example_request], checked_server)
      (notes_of quiet example_ext [0, 0, 0, 0] ([new_task example_env example_request], checked_server)) waiting"
    unfolding waiting_def by (rule schedule_logged) simp
  then have "conc_log example_ext quiet health_notes ([], checked_server) [] waiting"
    by (intro came [where ts = "[]" and e = example_env and req = example_request]) (simp add: quiet_def)
  from conc_log_append [OF this checks] show ?thesis by simp
qed

lemma probed_config: "st_config (sv_state probed_server) = st_config (sv_state (snd waiting))"
proof -
  have "st_config (sv_state ((health_task c get_ok ^^ n) s)) = st_config (sv_state s)" for c get_ok n s
    by (induction n) simp_all
  then show ?thesis by (simp only: probed_server_def)
qed

lemma checked_setting: "health_check (server checked_routes) = Some example_health_config"
  by (simp add: checked_routes_def)

theorem health_under_load_witness: "\<not> is_healthy (st_health (sv_state probed_server)) ''a:80''"
proof -
  have "history ''a:80'' two_rounds = [False, False] @ []"
    "max 1 (unat (hc_unhealthy_threshold example_health_config)) = 2"
    "max 1 (unat (hc_healthy_threshold example_health_config)) = 2"
    by (simp_all add: history_def example_health_config_def)
  moreover have "2 \<le> trailing False [False, False] \<and> (\<forall>r. prefix r [] \<longrightarrow> trailing True ([False, False] @ r) < 2)"
    by (simp add: trailing_def)
  moreover have "length two_rounds < 2 ^ 32" by simp
  ultimately show ?thesis
    using health_under_load [OF checked_run_server checked_load checked_setting waiting_log, of "''a:80''"] by metis
qed

lemma two_rounds_hosts:
  "\<not> host_up (Some example_health_config) two_rounds ''a:80''" "host_up (Some example_health_config) two_rounds ''b:80''"
proof -
  have "history ''a:80'' two_rounds = [False] @ [False]" "history ''b:80'' two_rounds = [] @ [True] @ [True]"
    by (simp_all add: history_def)
  then show "\<not> host_up (Some example_health_config) two_rounds ''a:80''" "host_up (Some example_health_config) two_rounds ''b:80''"
    unfolding host_up_def option.case append_assoc [symmetric]
    by (simp_all only: down_snoc) (simp_all add: trailing_def example_health_config_def)
qed

theorem choice_under_load_witness:
  "map_option snd (target (tk_phase (fst (advance_task example_ext 0 (fst waiting, probed_server)) ! 0))) = Some ''http://b:80''"
proof -
  let ?ts = "fst waiting"
  obtain req rule svc insts where r: "tk_phase (?ts ! 0) = Resolved req rule svc insts"
    using waiting_phase(1) by (cases "tk_phase (?ts ! 0)") auto
  then have keys: "map instance_host_port insts = [''a:80'', ''b:80'']" "map base_url insts = [''http://a:80'', ''http://b:80'']"
    using waiting_phase(1,2) by simp_all
  then obtain i j where insts: "insts = [i, j]" "instance_host_port i = ''a:80''" "instance_host_port j = ''b:80''"
    "base_url j = ''http://b:80''" by (auto simp: map_eq_Cons_conv)
  have small: "0 < length ?ts" "length two_rounds < 2 ^ 32"
    using waiting_phase(4) by simp_all
  from choice_under_load [OF checked_run_server checked_load waiting_log small(2,1) r]
  show ?thesis
    using waiting_phase(3) two_rounds_hosts unfolding checked_setting
    by (simp add: insts probed_config split: phase.splits)
qed

end
