(* ===== verification/Spec2Isabelle.thy ===== *)
theory Spec2Isabelle
  imports StrictCheck Factory Program Probes UnitTests
begin

text \<open>
  A model of service-router, an HTTP reverse proxy that routes requests by rules to fixed
  upstreams or to instances found through service registries (Nacos, Eureka, Kubernetes or a
  mock), with plugins, retries, circuit breakers, active health checks, hot reload of its
  configuration and a set of diagnostic commands.

  \<^bold>\<open>How the program works.\<close>  \<^verbatim>\<open>main\<close> parses the command line and
  carries out one command.  \<^verbatim>\<open>run\<close> loads a YAML file in which environment
  variables are expanded, applies local overrides, builds the registries and their resolver,
  compiles the routing rules, starts the file watcher and the task that rebuilds the routes,
  builds the plugin chain and, from the shared slots as they are by then, the state of the
  handlers, and listens.  A request passes the plugins; the router finds the
  first rule in order of (priority, declaration order) that accepts it; the target is the
  rule's URL or an instance that the resolver finds and the selection chooses; the circuit
  breaker of the target may reject it; the proxy sends it, with retries; every step is counted.
  In the background the watcher stores changed configurations, the rebuild task installs their
  routes and the health checker probes instances.

  \<^bold>\<open>The theories\<close> (file names below \<^verbatim>\<open>src/src/\<close>), in the order of their
  imports:

  \<^item> \<open>Prelude\<close>: collections of simplification rules, Rust's text operations, hash maps as
    association lists, \<open>first_seen\<close>, results as sums and the laws they share.
  \<^item> \<open>Interfaces\<close>: locales that several components provide (tables ordered by a priority,
    stores of counters) and what follows from their laws.  The contracts of the circuit breaker,
    of a registry and of the probe loops are stated with these components.  Every locale is
    interpreted on the model in the theory of the component that provides it.
  \<^item> \<open>Model\<close>: \<^verbatim>\<open>config/model.rs\<close> and \<^verbatim>\<open>error.rs\<close>, the data types of
    the configuration, defaults, local overrides, errors and JSON values.
  \<^item> \<open>Serde\<close>, \<open>Decode\<close>: the attributes of \<^verbatim>\<open>serde\<close> in
    \<^verbatim>\<open>config/model.rs\<close>: how every configuration type is written as a JSON-like tree and
    read from one, with the defaults of missing keys and the refusals.  The other theories use
    the same decoders for the answers of the registries and for the files of commands.
  \<^item> \<open>Http\<close>, \<open>Websocket\<close>: \<^verbatim>\<open>proxy/\<close>.  Header filtering, URL construction,
    one exchange; the relay of a WebSocket as a step relation.
  \<^item> \<open>Routing\<close>: \<^verbatim>\<open>routing/\<close>.  Compilation of rules, matching, rewriting, the
    snapshot and its rebuilding.
  \<^item> \<open>StrictCheck\<close>: \<^verbatim>\<open>config/strict_check.rs\<close>, compared with the router.
  \<^item> \<open>Breaker\<close>, \<open>Metrics\<close>, \<open>Health\<close>, \<open>Selection\<close>, \<open>Plugin\<close>: the parts of
    \<^verbatim>\<open>server/\<close>, each with its state as a record; the clock is an argument.
  \<^item> \<open>Registry\<close>, \<open>NacosEureka\<close>, \<open>K8s\<close>, \<open>Factory\<close>: \<^verbatim>\<open>registry/\<close>, the
    resolver in both modes, the three clients and their construction.  A resolver is the view
    of its clients in one state of the outside world (\<open>resolver_at\<close>).
  \<^item> \<open>Handlers\<close>: \<^verbatim>\<open>server/handlers.rs\<close> and \<^verbatim>\<open>state.rs\<close>, the
    handlers as functions on the shared state \<open>app_state\<close>.
  \<^item> \<open>Loader\<close>: \<^verbatim>\<open>config/env_resolver.rs\<close>, \<^verbatim>\<open>config/loader.rs\<close> and
    the starter files of \<^verbatim>\<open>init\<close>.
  \<^item> \<open>Server\<close>: \<^verbatim>\<open>config/watcher.rs\<close> and \<^verbatim>\<open>run_server\<close> of
    \<^verbatim>\<open>main.rs\<close>.  What the watcher and the rebuild task do while the server is still being
    built is \<open>early_step\<close>.  The running server is the record \<open>server\<close>, the relation
    \<open>server_step\<close> its reloads, the first poll and the ticks of the rebuild task, the steps
    and whole rounds of the health checker, requests and changes of the registries,
    \<open>server_run\<close> an interleaving of them.
  \<^item> \<open>InFlight\<close>, \<open>Interleaving\<close>: the proxy handler cut into steps
    (\<open>phase_step\<close>), and \<open>conc_step\<close>, which interleaves any number of such
    requests with the other events of \<open>Server\<close>.  The locales \<open>run_invariant\<close> and
    \<open>task_invariant\<close> turn what single steps keep into what every run keeps, \<open>logged\<close> what
    they note into the state that a run ends with.
  \<^item> \<open>Concurrent\<close>, \<open>Upstreams\<close>, \<open>Probes\<close>: what holds in every interleaving, as
    interpretations of these locales.
  \<^item> \<open>Diff\<close>, \<open>Snapshot\<close>: \<^verbatim>\<open>config/diff.rs\<close> and the export in
    \<^verbatim>\<open>lib.rs\<close>.
  \<^item> \<open>Explain\<close>, \<open>Commands\<close>, \<open>Doctor\<close>: the commands of \<^verbatim>\<open>main.rs\<close>.  A command
    yields an error, or an exit code and what it prints.
  \<^item> \<open>Cli\<close>, \<open>Program\<close>: \<^verbatim>\<open>parse_command\<close>, and \<^verbatim>\<open>run\<close> and
    \<^verbatim>\<open>main\<close>, which join the parser and the commands to the whole program.
  \<^item> \<open>UnitTests\<close>: the assertions of the repository's own test functions, evaluated on the
    definitions.

  \<^bold>\<open>What the lemmas show.\<close>  Routing: which rule is chosen, that compilation keeps or
  rejects the table as a whole, and which findings of the strict check mean what they say.
  Serving: the retry loop, the breaker (a machine of three modes, of which
  Half-Open is not the documented one), the fairness of
  selection, hysteresis of health, and headers that are never passed on.  Concurrency: a request left alone does what the handler does, every request ends
  within a bounded number of steps, and in every interleaving the
  counters are exact, the breaker and the health status say what the outcomes so far and the
  settings they were built with make them say, a request keeps
  the rule it was routed by, which stems from one configuration loaded in the run, registries, plugins and health checks stay those of the start, and
  no request goes anywhere but to the target of its rule or to an instance that a backend listed
  as usable and, if there is one, that the probes so far leave up.  Discovery: what the resolver answers in both modes.  Configuration:
  that what is written is read back, what a key that is left out reads as, when the expansion of
  variables is a simultaneous substitution, what loading guarantees, that
  reloading takes effect in every interleaving with ticks before and in between, which parts of the state
  it leaves alone, when two configurations count as identical, and what the export hides and what it does not.
  Commands: the parser reads back every command, the exit codes mean what they promise, and the
  verdicts of \<^verbatim>\<open>check-config\<close>, \<^verbatim>\<open>doctor\<close> and
  \<^verbatim>\<open>route-explain\<close> agree with what \<^verbatim>\<open>run\<close> and the router do, for
  \<^verbatim>\<open>route-explain\<close> on ASCII methods only.  Some
  properties state behaviour that differs from the documentation, or that is surprising: false
  alarms of the strict check, overrides lost on reload, half-applied reloads, a change during
  start-up whose routes are never installed, a relative
  configuration path that is never reloaded, a stampede on a half-open breaker, and a list of
  endpoint slices that one empty slice makes unreadable.

  \<^bold>\<open>Conventions.\<close>  Texts are lists of characters.  Where the methods of requests are compared or
  shown in upper case (the router, \<^verbatim>\<open>route-explain\<close>,
  \<^verbatim>\<open>replay\<close>), the upper case of a character beyond ASCII, which may be several characters,
  is a parameter (\<open>upper_with\<close>, \<open>char_upper\<close>); elsewhere upper and lower case and white
  space are those of ASCII (the method argument of \<^verbatim>\<open>smoke-proxy\<close>, the service
  names of Eureka, trimming).  Machine integers are words of their width, so
  counters wrap.  Errors are the left side of a sum.  Hash maps are association lists with
  distinct keys; where the order of iteration is visible it is a parameter, and theorems hold
  for every order.  JSON objects that are written have sorted keys, as
  \<^verbatim>\<open>serde_json\<close> prints them; those that are read have the keys of the file.
  No fuel is used: loops are recursive on their input, the retry loop on the attempts that are
  left; the loop of the command line parser that may run forever is a partial function.  The
  bound on the steps of a request comes from the width of \<^verbatim>\<open>max_retries\<close>.

  \<^bold>\<open>Parameters.\<close>  What other crates and the operating system do is given by records that
  the definitions take as arguments: \<open>ext\<close> (patterns, header syntax, exchanges, clock),
  \<open>registry_ext\<close> (HTTP, the JSON parser and files of the registry clients), \<open>world\<close> (files,
  environment, the YAML parser), \<open>startup_ext\<close> (watching, binding, and the messages and turns that come before the shared
  state is built), \<open>url_ext\<close>, \<open>doctor_ext\<close>,
  \<open>client_ext\<close> (the client of \<^verbatim>\<open>smoke-proxy\<close> and \<^verbatim>\<open>replay\<close>, with the
  redirections it follows) and
  the files of single commands.  A parser gives the tree that the decoder reads, or an error;
  \<^verbatim>\<open>serde_yaml\<close> resolves a plain scalar at the type that is read there, so the
  tree of a file is the one at the type of the file.  The text of a refusal is a parameter too.

  \<^bold>\<open>Not modelled.\<close>  Logging, the periodic metrics log, the help text and the advice that
  is printed to standard error; the shutdown signal; the construction of HTTP clients apart from
  the Kubernetes one; within one request, the order of plugin code and of the body's
  chunks, and what happens in the middle of a choice of an instance or of a question to the
  registries, each of which is one step; changes of the file between its loading and the registration of the watcher, of which no
  message tells.  Watcher messages are
  handled one after the other, as the one thread of the notification library does.
  \<^verbatim>\<open>server/mod.rs\<close> and the other module files only declare modules.
\<close>

end
